(* ===== verification/LW_Prelude.thy ===== *)
theory LW_Prelude
  imports Main "HOL-Library.Word"
begin

text \<open>
  Types, collections and generic lemmas shared by every theory of the ledwall firmware
  model: the widths of the Rust integers, the saturating operations of
  \<^verbatim>\<open>core\<close>, the computation type of code that talks to hardware (state, early return
  by \<^verbatim>\<open>?\<close>, possible non-termination) with its preservation calculus, and facts on
  lists and words that several components use.
\<close>

unbundle bit_operations_syntax

named_theorems src_consts "constants of the source, unfolded to numerals"
named_theorems preserves "preservation rules of the computation calculus"

section \<open>Rust integers\<close>

type_synonym u8 = "8 word"
type_synonym u16 = "16 word"
type_synonym u32 = "32 word"
type_synonym u64 = "64 word"

text \<open>\<^verbatim>\<open>saturating_add\<close> and \<^verbatim>\<open>saturating_mul\<close> on an unsigned width.\<close>

definition sat_add :: "'n::len word \<Rightarrow> 'n word \<Rightarrow> 'n word" where
  "sat_add a b = (if unat a + unat b < 2 ^ LENGTH('n) then a + b else - 1)"

definition sat_mul :: "'n::len word \<Rightarrow> 'n word \<Rightarrow> 'n word" where
  "sat_mul a b = (if unat a * unat b < 2 ^ LENGTH('n) then a * b else - 1)"

definition sat_sub :: "'n::len word \<Rightarrow> 'n word \<Rightarrow> 'n word" where
  "sat_sub a b = (if b \<le> a then a - b else 0)"

text \<open>\<^verbatim>\<open>u16::from_be_bytes\<close> and \<^verbatim>\<open>from_le_bytes\<close>.\<close>

definition u16_be :: "u8 \<Rightarrow> u8 \<Rightarrow> u16" where
  "u16_be hi lo = push_bit 8 (ucast hi) OR ucast lo"

definition u16_le :: "u8 \<Rightarrow> u8 \<Rightarrow> u16" where
  "u16_le lo hi = u16_be hi lo"

lemma u16_be_split: "u16_be (ucast (drop_bit 8 (b :: u16))) (ucast b) = b"
  unfolding u16_be_def by (rule bit_word_eqI) (auto simp: bit_simps)

lemma u16_le_split: "u16_le (ucast (b :: u16)) (ucast (drop_bit 8 b)) = b"
  by (simp add: u16_le_def u16_be_split)

lemma unat_u8_less: "unat (a :: u8) < 256"
  and unat_u16_less: "unat (b :: u16) < 65536"
  and unat_u32_less: "unat (c :: u32) < 4294967296"
proof -
  have "unat a < 2 ^ LENGTH(8)" "unat b < 2 ^ LENGTH(16)" "unat c < 2 ^ LENGTH(32)"
    by (rule unsigned_less)+
  then show "unat a < 256" "unat b < 65536" "unat c < 4294967296" by simp_all
qed

lemma unat_sat_add:
  fixes a b :: "'n::len word"
  shows "unat (sat_add a b) = min (unat a + unat b) (2 ^ LENGTH('n) - 1)"
proof (cases "unat a + unat b < 2 ^ LENGTH('n)")
  case True
  then show ?thesis by (simp add: sat_add_def unat_word_ariths)
next
  case False
  then show ?thesis by (simp add: sat_add_def unsigned_minus_1_eq_mask mask_eq_exp_minus_1)
qed

lemma unat_sat_sub: "unat (sat_sub a b) = unat a - unat (b :: 'n::len word)"
  by (simp add: sat_sub_def unat_sub word_le_nat_alt)

lemma sat_add_ge: "a \<le> sat_add a (b :: 'n::len word)"
proof -
  have "unat a < 2 ^ LENGTH('n)" by (rule unsigned_less)
  then have "unat a \<le> 2 ^ LENGTH('n) - 1" by linarith
  then show ?thesis by (simp add: word_le_nat_alt unat_sat_add)
qed

section \<open>Computations that talk to hardware\<close>

text \<open>
  A computation takes the world and returns a result and the new world. The result is a
  value or the error that \<^verbatim>\<open>?\<close> propagates; \<^const>\<open>None\<close> stands for a call that
  never returns (a busy-wait whose condition never comes true).
\<close>

type_synonym ('w, 'e, 'a) comp = "'w \<Rightarrow> (('e + 'a) \<times> 'w) option"

definition ret :: "'a \<Rightarrow> ('w, 'e, 'a) comp" where
  "ret x = (\<lambda>w. Some (Inr x, w))"

definition fail :: "'e \<Rightarrow> ('w, 'e, 'a) comp" where
  "fail e = (\<lambda>w. Some (Inl e, w))"

definition andThen :: "('w, 'e, 'a) comp \<Rightarrow> ('a \<Rightarrow> ('w, 'e, 'b) comp) \<Rightarrow> ('w, 'e, 'b) comp" where
  "andThen m k = (\<lambda>w. case m w of None \<Rightarrow> None
     | Some (r, w') \<Rightarrow> (case r of Inl e \<Rightarrow> Some (Inl e, w') | Inr x \<Rightarrow> k x w'))"

text \<open>A pure check of the world that may fail, and a step that cannot.\<close>

definition check :: "('w \<Rightarrow> 'e + 'a) \<Rightarrow> ('w, 'e, 'a) comp" where
  "check f = (\<lambda>w. Some (f w, w))"

definition exec :: "('w \<Rightarrow> 'a \<times> 'w) \<Rightarrow> ('w, 'e, 'a) comp" where
  "exec f = (\<lambda>w. case f w of (x, w') \<Rightarrow> Some (Inr x, w'))"

lemma ret_simp [simp]: "ret x w = Some (Inr x, w)"
  by (simp add: ret_def)

lemma fail_simp [simp]: "fail e w = Some (Inl e, w)"
  by (simp add: fail_def)

lemma check_simp [simp]: "check f w = Some (f w, w)"
  by (simp add: check_def)

lemma exec_simp [simp]: "exec f w = Some (Inr (fst (f w)), snd (f w))"
  by (simp add: exec_def split_beta)

lemma andThen_eq_Some:
  "andThen m k w = Some (r, w'') \<longleftrightarrow>
     (\<exists>e. m w = Some (Inl e, w'') \<and> r = Inl e) \<or>
     (\<exists>x w'. m w = Some (Inr x, w') \<and> k x w' = Some (r, w''))"
  by (auto simp: andThen_def split: option.splits sum.splits prod.splits)

lemma andThen_Inr:
  "andThen m k w = Some (Inr y, w'') \<longleftrightarrow>
     (\<exists>x w'. m w = Some (Inr x, w') \<and> k x w' = Some (Inr y, w''))"
  by (auto simp: andThen_eq_Some)

lemma andThen_returns [simp]:
  "m w = Some (Inr x, w') \<Longrightarrow> andThen m k w = k x w'"
  "m w = Some (Inl e, w') \<Longrightarrow> andThen m k w = Some (Inl e, w')"
  "m w = None \<Longrightarrow> andThen m k w = None"
  by (simp_all add: andThen_def)

subsection \<open>Preservation\<close>

text \<open>
  \<open>keeps P m\<close>: whenever the computation returns, with a value or with an error, it has
  kept \<open>P\<close>. The rules follow the structure of the code, so a preservation proof is
  \<^theory_text>\<open>intro preserves\<close>.
\<close>

definition keeps :: "('w \<Rightarrow> bool) \<Rightarrow> ('w, 'e, 'a) comp \<Rightarrow> bool" where
  "keeps P m \<longleftrightarrow> (\<forall>w r w'. P w \<longrightarrow> m w = Some (r, w') \<longrightarrow> P w')"

lemma keepsI: "(\<And>w r w'. P w \<Longrightarrow> m w = Some (r, w') \<Longrightarrow> P w') \<Longrightarrow> keeps P m"
  by (simp add: keeps_def)

lemma keepsD: "keeps P m \<Longrightarrow> P w \<Longrightarrow> m w = Some (r, w') \<Longrightarrow> P w'"
  by (simp add: keeps_def)

lemma keeps_ret [preserves]: "keeps P (ret x)"
  by (simp add: keeps_def)

lemma keeps_fail [preserves]: "keeps P (fail e)"
  by (simp add: keeps_def)

lemma keeps_check [preserves]: "keeps P (check f)"
  by (simp add: keeps_def)

lemma keeps_exec: "(\<And>w. P w \<Longrightarrow> P (snd (f w))) \<Longrightarrow> keeps P (exec f)"
  by (auto simp: keeps_def)

lemma keeps_andThen [preserves]:
  "keeps P m \<Longrightarrow> (\<And>x. keeps P (k x)) \<Longrightarrow> keeps P (andThen m k)"
  unfolding keeps_def andThen_eq_Some by blast

lemma keeps_if [preserves]:
  "(b \<Longrightarrow> keeps P m) \<Longrightarrow> (\<not> b \<Longrightarrow> keeps P n) \<Longrightarrow> keeps P (if b then m else n)"
  by simp

text \<open>After a successful check the rest of the code may rely on what was checked.\<close>

lemma keeps_andThen_check:
  "(\<And>w x. P w \<Longrightarrow> f w = Inr x \<Longrightarrow> Q x) \<Longrightarrow> (\<And>x. Q x \<Longrightarrow> keeps P (k x))
   \<Longrightarrow> keeps P (andThen (check f) k)"
  by (fastforce simp: keeps_def andThen_eq_Some)

subsection \<open>Returning\<close>

text \<open>\<open>returns m\<close>: the computation returns from every world, with a value or an error.\<close>

definition returns :: "('w, 'e, 'a) comp \<Rightarrow> bool" where
  "returns m \<longleftrightarrow> (\<forall>w. m w \<noteq> None)"

named_theorems terminates "rules that a computation returns"

lemma returns_ret [terminates]: "returns (ret x)"
  and returns_fail [terminates]: "returns (fail e)"
  and returns_check [terminates]: "returns (check f)"
  and returns_exec [terminates]: "returns (exec g)"
  by (simp_all add: returns_def)

lemma returns_andThen [terminates]:
  "returns m \<Longrightarrow> (\<And>x. returns (k x)) \<Longrightarrow> returns (andThen m k)"
  by (auto simp: returns_def andThen_def split: option.splits sum.splits)

lemma returns_if [terminates]:
  "returns m \<Longrightarrow> returns n \<Longrightarrow> returns (if b then m else n)"
  by simp

section \<open>Lists\<close>

lemma take_eq_nthI:
  "length xs = length ys \<Longrightarrow> (\<And>i. i < n \<Longrightarrow> i < length xs \<Longrightarrow> xs ! i = ys ! i)
   \<Longrightarrow> take n xs = take n ys"
  by (rule nth_equalityI) auto

text \<open>\<^verbatim>\<open>buf[at..at + n].copy_from_slice(src)\<close> on a list.\<close>

definition splice :: "nat \<Rightarrow> 'a list \<Rightarrow> 'a list \<Rightarrow> 'a list" where
  "splice at src buf = take at buf @ src @ drop (at + length src) buf"

lemma splice_Nil [simp]: "splice at [] buf = buf"
  by (simp add: splice_def)

lemma upt_split: "m \<le> n \<Longrightarrow> [0..<n] = [0..<m] @ [m..<n]"
  using upt_add_eq_append [of 0 m "n - m"] by simp

lemma length_splice [simp]:
  "at + length src \<le> length buf \<Longrightarrow> length (splice at src buf) = length buf"
  by (simp add: splice_def)

lemma take_splice [simp]:
  "at \<le> length buf \<Longrightarrow> take (at + length src) (splice at src buf) = take at buf @ src"
  by (simp add: splice_def)

lemma splice_splice:
  "at + length a + length b \<le> length buf \<Longrightarrow>
     splice (at + length a) b (splice at a buf) = splice at (a @ b) buf"
  by (simp add: splice_def min_absorb2 add.commute add.left_commute)

text \<open>Checked access, as Rust indexes and slices: \<^const>\<open>None\<close> is the panic.\<close>

definition in_bounds :: "nat \<Rightarrow> 'a list \<Rightarrow> 'b option \<Rightarrow> 'b option" where
  "in_bounds i xs r = (if i < length xs then r else None)"

definition in_slice :: "nat \<Rightarrow> 'a list \<Rightarrow> 'b option \<Rightarrow> 'b option" where
  "in_slice n xs r = (if n \<le> length xs then r else None)"

lemma in_bounds_ok [simp]: "i < length xs \<Longrightarrow> in_bounds i xs r = r"
  by (simp add: in_bounds_def)

lemma in_slice_ok [simp]: "n \<le> length xs \<Longrightarrow> in_slice n xs r = r"
  by (simp add: in_slice_def)

lemma nth_splice:
  assumes "at + length src \<le> length buf" "i < length buf"
  shows "splice at src buf ! i =
    (if at \<le> i \<and> i < at + length src then src ! (i - at) else buf ! i)"
  using assms by (auto simp: splice_def nth_append min_def)

end
