(* ===== verification/Flash_Dev.thy ===== *)
theory Flash_Dev
  imports LW_Prelude
begin

text \<open>
  The SPI flash as the firmware reaches it: \<^verbatim>\<open>src/flash_id.rs\<close> and the register
  accesses of \<^verbatim>\<open>src/flash_write.rs\<close>. The chip and the SoC's SPI master and timer are
  not code of the repository; they are the parameter \<open>spi_ops\<close> over an arbitrary
  device state. The world the code runs in pairs that state with \<open>wire\<close>, the record
  of every exchange made with chip select asserted: the bytes the firmware clocked out.
\<close>

unbundle bit_operations_syntax

record 's spi_ops =
  op_phyconfig :: "'s \<Rightarrow> 's"
  op_cs :: "bool \<Rightarrow> 's \<Rightarrow> 's"
  op_xfer :: "u8 \<Rightarrow> 's \<Rightarrow> u8 \<times> 's"
  op_mmap :: "'s \<Rightarrow> u32 \<Rightarrow> u8"
  op_timer :: "'s \<Rightarrow> u32 \<times> 's"
  sys_clk_hz :: u32

record 's world =
  chip :: 's
  wire :: "u8 list list"

section \<open>Exchanges\<close>

text \<open>
  \<^verbatim>\<open>spi_transfer_byte\<close>: send a byte, receive a byte. The two ready-bit spins around the
  data register are inside \<open>op_xfer\<close>.
\<close>

definition spi_transfer_byte :: "'s spi_ops \<Rightarrow> u8 \<Rightarrow> 's \<Rightarrow> u8 \<times> 's" where
  "spi_transfer_byte ops tx s = op_xfer ops tx s"

fun transfer_all :: "'s spi_ops \<Rightarrow> u8 list \<Rightarrow> 's \<Rightarrow> u8 list \<times> 's" where
  "transfer_all ops [] s = ([], s)"
| "transfer_all ops (b # bs) s =
     (case spi_transfer_byte ops b s of (r, s') \<Rightarrow>
      case transfer_all ops bs s' of (rs, s'') \<Rightarrow> (r # rs, s''))"

text \<open>
  The idiom every command of the source is written in: assert chip select, transfer
  bytes, release it.
\<close>

definition transact :: "'s spi_ops \<Rightarrow> u8 list \<Rightarrow> 's world \<Rightarrow> u8 list \<times> 's world" where
  "transact ops bs w =
     (case transfer_all ops bs (op_cs ops True (chip w)) of (rs, s) \<Rightarrow>
        (rs, w\<lparr>chip := op_cs ops False s, wire := wire w @ [bs]\<rparr>))"

definition configure_master :: "'s spi_ops \<Rightarrow> 's world \<Rightarrow> unit \<times> 's world" where
  "configure_master ops w = ((), w\<lparr>chip := op_phyconfig ops (chip w)\<rparr>)"

lemma wire_transact [simp]: "wire (snd (transact ops bs w)) = wire w @ [bs]"
  by (simp add: transact_def split: prod.splits)

lemma wire_configure_master [simp]: "wire (snd (configure_master ops w)) = wire w"
  by (simp add: configure_master_def)

lemma length_transfer_all [simp]: "length (fst (transfer_all ops bs s)) = length bs"
  by (induction bs arbitrary: s) (auto split: prod.splits, metis fst_conv)

lemma length_transact [simp]: "length (fst (transact ops bs w)) = length bs"
  by (simp add: transact_def split: prod.splits) (metis fst_conv length_transfer_all)

section \<open>Unique id and MAC address\<close>

definition read_flash_unique_id :: "'s spi_ops \<Rightarrow> 's world \<Rightarrow> u8 list \<times> 's world" where
  "read_flash_unique_id ops w =
     (case configure_master ops w of (_, w1) \<Rightarrow>
      case transact ops ([0x4B] @ replicate 4 0 @ replicate 8 0) w1 of (rs, w2) \<Rightarrow>
        (drop 5 rs, w2))"

definition derive_mac :: "u8 list \<Rightarrow> u8 list" where
  "derive_mac unique_id = 0x02 # map (\<lambda>i. unique_id ! i XOR unique_id ! (i + 3)) [0..<5]"

lemma length_unique_id: "length (fst (read_flash_unique_id ops w)) = 8"
proof -
  obtain rs w2 where t:
    "transact ops ([0x4B] @ replicate 4 0 @ replicate 8 0) (snd (configure_master ops w)) = (rs, w2)"
    by fastforce
  have "length rs = 13"
    using length_transact [of ops "[0x4B] @ replicate 4 0 @ replicate 8 0"
        "snd (configure_master ops w)"] unfolding t by simp
  with t show ?thesis
    by (simp add: read_flash_unique_id_def configure_master_def)
qed

section \<open>Status registers\<close>

definition read_status_regs :: "'s spi_ops \<Rightarrow> 's world \<Rightarrow> u8 list \<times> 's world" where
  "read_status_regs ops w =
     (case configure_master ops w of (_, w0) \<Rightarrow>
      case transact ops [0x05, 0] w0 of (r1, w1) \<Rightarrow>
      case transact ops [0x35, 0] w1 of (r2, w2) \<Rightarrow>
      case transact ops [0x15, 0] w2 of (r3, w3) \<Rightarrow> ([r1 ! 1, r2 ! 1, r3 ! 1], w3))"

text \<open>The bounded poll of \<^verbatim>\<open>write_status\<close>: at most \<open>n\<close> reads of SR1.\<close>

fun poll_sr1 :: "'s spi_ops \<Rightarrow> nat \<Rightarrow> u8 \<Rightarrow> 's world \<Rightarrow> u8 \<times> 's world" where
  "poll_sr1 ops 0 sr1 w = (sr1, w)"
| "poll_sr1 ops (Suc n) sr1 w =
     (case transact ops [0x05, 0x00] w of (rs, w') \<Rightarrow>
      if rs ! 1 AND 1 = 0 then (rs ! 1, w') else poll_sr1 ops n (rs ! 1) w')"

definition write_status :: "'s spi_ops \<Rightarrow> u8 \<Rightarrow> u8 \<Rightarrow> 's world \<Rightarrow> u8 \<times> 's world" where
  "write_status ops cmd value w =
     (case configure_master ops w of (_, w0) \<Rightarrow>
      case transact ops [0x06] w0 of (_, w1) \<Rightarrow>
      case transact ops [cmd, value] w1 of (_, w2) \<Rightarrow> poll_sr1 ops 100000 0xFF w2)"

definition write_status3 :: "'s spi_ops \<Rightarrow> u8 \<Rightarrow> 's world \<Rightarrow> u8 \<times> 's world" where
  "write_status3 ops value = write_status ops 0x11 value"

definition write_status2 :: "'s spi_ops \<Rightarrow> u8 \<Rightarrow> 's world \<Rightarrow> u8 \<times> 's world" where
  "write_status2 ops value = write_status ops 0x31 value"

lemma wire_poll_sr1: "\<exists>n. wire (snd (poll_sr1 ops k v w)) = wire w @ replicate n [0x05, 0x00]"
proof (induction k arbitrary: v w)
  case 0
  then show ?case by (intro exI [of _ 0]) simp
next
  case (Suc k)
  obtain rs w' where t: "transact ops [0x05, 0x00] w = (rs, w')" by fastforce
  have ww: "wire w' = wire w @ [[0x05, 0x00]]"
    using wire_transact [of ops "[0x05, 0x00]" w] by (simp add: t)
  show ?case
  proof (cases "rs ! 1 AND 1 = 0")
    case True
    then show ?thesis by (intro exI [of _ 1]) (simp add: t ww)
  next
    case False
    obtain n where "wire (snd (poll_sr1 ops k (rs ! 1) w')) = wire w' @ replicate n [0x05, 0x00]"
      using Suc.IH by blast
    with False show ?thesis by (intro exI [of _ "Suc n"]) (simp add: t ww)
  qed
qed

end
