(* ===== verification/Flash_Write.thy ===== *)
theory Flash_Write
  imports Flash_Dev
begin

text \<open>
  \<^verbatim>\<open>src/flash_write.rs\<close>: the write policy, sector erase and page program with their
  busy-wait and read-back, and the deferred job the main loop performs one slice at a time.
\<close>

unbundle bit_operations_syntax

section \<open>Layout of the chip\<close>

definition FLASH_SIZE :: u32 where [src_consts]: "FLASH_SIZE = 4 * 1024 * 1024"
definition SECTOR :: u32 where [src_consts]: "SECTOR = 4096"
definition PAGE :: u32 where [src_consts]: "PAGE = 256"
definition SCRATCH_BASE :: u32 where [src_consts]: "SCRATCH_BASE = 0x360000"
definition SCRATCH_LEN :: u32 where [src_consts]: "SCRATCH_LEN = 0x20000"
definition APP_BASE :: u32 where [src_consts]: "APP_BASE = 0"
definition APP_LEN :: u32 where [src_consts]: "APP_LEN = 0x100000"
definition GOLDEN_BASE :: u32 where [src_consts]: "GOLDEN_BASE = 0x200000"
definition GOLDEN_LEN :: u32 where [src_consts]: "GOLDEN_LEN = 0x0B0000"
definition MARGINAL_BASE :: u32 where [src_consts]: "MARGINAL_BASE = 0x2C0000"
definition MARGINAL_LEN :: u32 where [src_consts]: "MARGINAL_LEN = 0x40000"

definition CMD_WRITE_ENABLE :: u8 where [src_consts]: "CMD_WRITE_ENABLE = 0x06"
definition CMD_READ_STATUS1 :: u8 where [src_consts]: "CMD_READ_STATUS1 = 0x05"
definition CMD_PAGE_PROGRAM :: u8 where [src_consts]: "CMD_PAGE_PROGRAM = 0x02"
definition CMD_SECTOR_ERASE :: u8 where [src_consts]: "CMD_SECTOR_ERASE = 0x20"
definition CMD_READ_STATUS2 :: u8 where [src_consts]: "CMD_READ_STATUS2 = 0x35"
definition CMD_WRITE_STATUS1 :: u8 where [src_consts]: "CMD_WRITE_STATUS1 = 0x01"

datatype flash_error = Forbidden | Unaligned | Timeout | Mismatch | NoGolden
  | NameTooLong | NotErased | NotWritten | NotVerified

fun as_str :: "flash_error \<Rightarrow> string" where
  "as_str Forbidden = ''forbidden: outside the writable region''"
| "as_str Unaligned = ''address or length is not sector-aligned''"
| "as_str Timeout = ''flash stayed busy''"
| "as_str Mismatch = ''read-back did not match''"
| "as_str NotErased = ''erase did not take (chip still protected?)''"
| "as_str NotWritten = ''program did not take (chip still protected?)''"
| "as_str NotVerified = ''refusing to accept an unverified image''"
| "as_str NoGolden = ''no golden bitstream at 0x200000: refusing to write the application without a recovery image''"
| "as_str NameTooLong = ''bitstream filename too long for the request buffer''"

section \<open>Reading through the memory-mapped window\<close>

definition read_byte :: "'s spi_ops \<Rightarrow> 's world \<Rightarrow> u32 \<Rightarrow> u8" where
  "read_byte ops w addr = op_mmap ops (chip w) addr"

definition has_sync :: "'s spi_ops \<Rightarrow> 's world \<Rightarrow> u32 \<Rightarrow> bool" where
  "has_sync ops w base =
     list_ex (\<lambda>off. read_byte ops w (base + off) = 0xBD \<and> read_byte ops w (base + off + 1) = 0xB3)
       [0, 1, 2, 3, 4, 5, 6, 7]"

definition app_has_preamble :: "'s spi_ops \<Rightarrow> 's world \<Rightarrow> bool" where
  "app_has_preamble ops w = has_sync ops w APP_BASE"

definition golden_present :: "'s spi_ops \<Rightarrow> 's world \<Rightarrow> bool" where
  "golden_present ops w = has_sync ops w GOLDEN_BASE"

definition region_is_blank :: "'s spi_ops \<Rightarrow> 's world \<Rightarrow> u32 \<Rightarrow> u32 \<Rightarrow> bool" where
  "region_is_blank ops w addr len =
     list_all (\<lambda>i. read_byte ops w (addr + of_nat i) = 0xFF) [0..<unat len]"

section \<open>The write policy\<close>

definition region_is_writable :: "'s spi_ops \<Rightarrow> u32 \<Rightarrow> u32 \<Rightarrow> 's world \<Rightarrow> flash_error + unit" where
  "region_is_writable ops addr len w =
     (let end = sat_add addr len in
      if end > FLASH_SIZE \<or> len = 0 then Inl Forbidden
      else if addr mod SECTOR \<noteq> 0 \<or> len mod SECTOR \<noteq> 0 then Inl Unaligned
      else if addr < GOLDEN_BASE + GOLDEN_LEN \<and> end > GOLDEN_BASE then Inl Forbidden
      else if addr < MARGINAL_BASE + MARGINAL_LEN \<and> end > MARGINAL_BASE then Inl Forbidden
      else if (APP_BASE \<le> addr \<and> addr \<le> APP_BASE + APP_LEN)
            \<and> (APP_BASE \<le> end \<and> end \<le> APP_BASE + APP_LEN)
        then (if \<not> golden_present ops w then Inl NoGolden else Inr ())
      else if addr < SCRATCH_BASE \<or> end > SCRATCH_BASE + SCRATCH_LEN then Inl Forbidden
      else Inr ())"

section \<open>Commands\<close>

definition write_enable :: "'s spi_ops \<Rightarrow> 's world \<Rightarrow> unit \<times> 's world" where
  "write_enable ops w = (case transact ops [CMD_WRITE_ENABLE] w of (_, w') \<Rightarrow> ((), w'))"

definition read_sr1 :: "'s spi_ops \<Rightarrow> 's world \<Rightarrow> u8 \<times> 's world" where
  "read_sr1 ops w = (case transact ops [CMD_READ_STATUS1, 0x00] w of (rs, w') \<Rightarrow> (rs ! 1, w'))"

definition read_sr2 :: "'s spi_ops \<Rightarrow> 's world \<Rightarrow> u8 \<times> 's world" where
  "read_sr2 ops w =
     (case configure_master ops w of (_, w0) \<Rightarrow>
      case transact ops [CMD_READ_STATUS2, 0x00] w0 of (rs, w') \<Rightarrow> (rs ! 1, w'))"

text \<open>The countdown timer, read as ticks since its last reload.\<close>

definition timer_ticks :: "'s spi_ops \<Rightarrow> 's world \<Rightarrow> u32 \<times> 's world" where
  "timer_ticks ops w =
     (case op_timer ops (chip w) of (v, s) \<Rightarrow> ((sys_clk_hz ops - 1) - v, w\<lparr>chip := s\<rparr>))"

text \<open>One round of accounting: the ticks since the last reading, across a reload.\<close>

definition elapsed :: "'s spi_ops \<Rightarrow> u32 \<Rightarrow> u32 \<Rightarrow> u32" where
  "elapsed ops prev now =
     (if now \<ge> prev then now - prev else now + (sys_clk_hz ops - 1) - prev)"

partial_function (option) wait_loop ::
  "'s spi_ops \<Rightarrow> u32 \<Rightarrow> u32 \<Rightarrow> u32 \<Rightarrow> 's world \<Rightarrow> ((flash_error + unit) \<times> 's world) option"
where
  "wait_loop ops budget spent prev w =
     (case read_sr1 ops w of (sr1, w1) \<Rightarrow>
      if sr1 AND 1 = 0 then Some (Inr (), w1)
      else (case timer_ticks ops w1 of (now, w2) \<Rightarrow>
        if sat_add spent (elapsed ops prev now) > budget then Some (Inl Timeout, w2)
        else wait_loop ops budget (sat_add spent (elapsed ops prev now)) now w2))"

definition wait_not_busy ::
  "'s spi_ops \<Rightarrow> u32 \<Rightarrow> ('s world, flash_error, unit) comp" where
  "wait_not_busy ops timeout_ms =
     (let per_ms = sys_clk_hz ops div 1000; budget = sat_mul timeout_ms per_ms in
      andThen (exec (timer_ticks ops)) (\<lambda>start. wait_loop ops budget 0 start))"

definition send_addr :: "u32 \<Rightarrow> u8 list" where
  "send_addr addr = [ucast (drop_bit 16 addr), ucast (drop_bit 8 addr), ucast addr]"

definition unprotect :: "'s spi_ops \<Rightarrow> ('s world, flash_error, u8) comp" where
  "unprotect ops =
     andThen (exec (configure_master ops)) (\<lambda>_.
     andThen (exec (read_sr1 ops)) (\<lambda>before.
     if before AND 0x9C = 0 then ret before
     else andThen (exec (write_enable ops)) (\<lambda>_.
          andThen (exec (transact ops [CMD_WRITE_STATUS1, 0x00])) (\<lambda>_.
          andThen (wait_not_busy ops 100) (\<lambda>_. ret before)))))"

definition erase_sector :: "'s spi_ops \<Rightarrow> u32 \<Rightarrow> ('s world, flash_error, unit) comp" where
  "erase_sector ops addr =
     andThen (check (region_is_writable ops addr SECTOR)) (\<lambda>_.
     andThen (unprotect ops) (\<lambda>_.
     andThen (exec (configure_master ops)) (\<lambda>_.
     andThen (exec (write_enable ops)) (\<lambda>_.
     andThen (exec (transact ops (CMD_SECTOR_ERASE # send_addr addr))) (\<lambda>_.
     andThen (wait_not_busy ops 400) (\<lambda>_.
     check (\<lambda>w. if \<not> region_is_blank ops w addr SECTOR then Inl NotErased else Inr ())))))))"

definition program_page ::
  "'s spi_ops \<Rightarrow> u32 \<Rightarrow> u8 list \<Rightarrow> ('s world, flash_error, unit) comp" where
  "program_page ops addr data =
     (if data = [] then ret ()
      else if length data > unat PAGE \<or> unat (addr mod PAGE) + length data > unat PAGE
        then fail Unaligned
      else
     andThen (check (region_is_writable ops (addr AND NOT (SECTOR - 1)) SECTOR)) (\<lambda>_.
     andThen (unprotect ops) (\<lambda>_.
     andThen (exec (configure_master ops)) (\<lambda>_.
     andThen (exec (write_enable ops)) (\<lambda>_.
     andThen (exec (transact ops (CMD_PAGE_PROGRAM # send_addr addr @ data))) (\<lambda>_.
     andThen (wait_not_busy ops 10) (\<lambda>_.
     check (\<lambda>w. if data ! 0 \<noteq> 0xFF \<and> read_byte ops w addr \<noteq> data ! 0
                then Inl NotWritten else Inr ()))))))))"

section \<open>CRC-32\<close>

definition CRC_TBL :: "u32 list" where
  "CRC_TBL = [0x00000000, 0x1db71064, 0x3b6e20c8, 0x26d930ac,
     0x76dc4190, 0x6b6b51f4, 0x4db26158, 0x5005713c,
     0xedb88320, 0xf00f9344, 0xd6d6a3e8, 0xcb61b38c,
     0x9b64c2b0, 0x86d3d2d4, 0xa00ae278, 0xbdbdf21c]"

definition crc_nibble :: "u32 \<Rightarrow> u32" where
  "crc_nibble crc = drop_bit 4 crc XOR CRC_TBL ! unat (crc AND 0x0F)"

definition crc_byte :: "u32 \<Rightarrow> u8 \<Rightarrow> u32" where
  "crc_byte crc b = crc_nibble (crc_nibble (crc XOR ucast b))"

definition crc32_region :: "'s spi_ops \<Rightarrow> 's world \<Rightarrow> u32 \<Rightarrow> u32 \<Rightarrow> u32" where
  "crc32_region ops w addr len =
     NOT (foldl (\<lambda>crc i. crc_byte crc (read_byte ops w (addr + of_nat i))) 0xFFFFFFFF [0..<unat len])"

section \<open>The deferred job\<close>

datatype job_kind = JNone | Erase | SelfTest

datatype job_state = JIdle | Queued | Running | JDone | JFailed

record job =
  jkind :: job_kind
  jstate :: job_state
  jaddr :: u32
  jlen :: u32
  jcursor :: u32
  jerror :: "flash_error option"
  jcrc :: u32
  jerased :: bool

definition JOB_init :: job where
  "JOB_init = \<lparr>jkind = JNone, jstate = JIdle, jaddr = 0, jlen = 0, jcursor = 0,
     jerror = None, jcrc = 0, jerased = False\<rparr>"

definition selftest_byte :: "u32 \<Rightarrow> u8" where
  "selftest_byte offset = ucast (offset XOR drop_bit 8 offset XOR 0x5A)"

definition queue ::
  "'s spi_ops \<Rightarrow> job_kind \<Rightarrow> u32 \<Rightarrow> u32 \<Rightarrow> 's world \<Rightarrow> job \<Rightarrow> (flash_error + unit) \<times> job" where
  "queue ops kind addr len w job =
     (case region_is_writable ops addr len w of
        Inl e \<Rightarrow> (Inl e, job)
      | Inr _ \<Rightarrow>
          if jstate job = Queued \<or> jstate job = Running then (Inl Forbidden, job)
          else (Inr (), \<lparr>jkind = kind, jstate = Queued, jaddr = addr, jlen = len, jcursor = 0,
                  jerror = None, jcrc = 0, jerased = False\<rparr>))"

definition job_pending :: "job \<Rightarrow> bool" where
  "job_pending job \<longleftrightarrow> jstate job = Queued \<or> jstate job = Running"

text \<open>
  One unit of work: the result carries how far the cursor moves and the new
  \<^verbatim>\<open>erased\<close> flag, which the closures of \<^verbatim>\<open>tick\<close> assign on success only.
\<close>

definition selftest_data :: "u32 \<Rightarrow> nat \<Rightarrow> u8 list" where
  "selftest_data cursor n = map (\<lambda>i. selftest_byte (cursor + of_nat i)) [0..<n]"

definition job_work :: "'s spi_ops \<Rightarrow> job \<Rightarrow> ('s world, flash_error, u32 \<times> bool) comp" where
  "job_work ops job =
     (let addr = jaddr job + jcursor job in
      case jkind job of
        Erase \<Rightarrow> andThen (erase_sector ops addr) (\<lambda>_. ret (SECTOR, jerased job))
      | SelfTest \<Rightarrow>
          if addr mod SECTOR = 0 \<and> \<not> jerased job
          then andThen (erase_sector ops addr) (\<lambda>_. ret (0, True))
          else (let n = min PAGE (jlen job - jcursor job) in
            andThen (program_page ops addr (selftest_data (jcursor job) (unat n))) (\<lambda>_.
              ret (n, if (addr + n) mod SECTOR = 0 then False else jerased job)))
      | JNone \<Rightarrow> ret (0, jerased job))"

definition tick :: "'s spi_ops \<Rightarrow> job \<Rightarrow> 's world \<Rightarrow> (job \<times> 's world) option" where
  "tick ops job0 w =
     (if \<not> job_pending job0 then Some (job0, w)
      else
       let job = job0\<lparr>jstate := Running\<rparr> in
       if jcursor job \<ge> jlen job
       then Some (job\<lparr>jcrc := crc32_region ops w (jaddr job) (jlen job), jstate := JDone\<rparr>, w)
       else case job_work ops job w of
              None \<Rightarrow> None
            | Some (Inr (advance, er), w') \<Rightarrow>
                Some (job\<lparr>jcursor := jcursor job + advance, jerased := er\<rparr>, w')
            | Some (Inl e, w') \<Rightarrow> Some (job\<lparr>jerror := Some e, jstate := JFailed\<rparr>, w'))"

definition verify_selftest :: "'s spi_ops \<Rightarrow> 's world \<Rightarrow> u32 \<Rightarrow> u32 \<Rightarrow> u32 + unit" where
  "verify_selftest ops w addr len =
     (case find (\<lambda>i. read_byte ops w (addr + of_nat i) \<noteq> selftest_byte (of_nat i)) [0..<unat len] of
        Some i \<Rightarrow> Inl (of_nat i) | None \<Rightarrow> Inr ())"

end
