(* ===== verification/Flash_Policy.thy ===== *)
theory Flash_Policy
  imports Flash_Write
begin

text \<open>
  What the write policy promises, and that every destructive command that reaches the SPI
  bus obeys it. \<open>txn_ok\<close> judges one exchange by its bytes alone, as a bus analyser would;
  \<open>wire_ok\<close> asks it of everything the firmware has sent. Every operation of
  \<^verbatim>\<open>flash_write.rs\<close> keeps \<open>wire_ok\<close>, whatever the chip answers.
\<close>

unbundle bit_operations_syntax

section \<open>The policy in numbers\<close>

text \<open>
  Bytes that must never change: all of the 4 MB part but the application and the scratch region.
  In them lie the firmware copy at \<^verbatim>\<open>0x100000\<close>, the golden image at \<^verbatim>\<open>0x200000\<close>, the
  factory's third copy at \<^verbatim>\<open>0x2B0000\<close>, the marginal region at \<^verbatim>\<open>0x2C0000\<close> and the
  stored picture at \<^verbatim>\<open>0x300000\<close> up to the scratch region.
\<close>

definition protected_byte :: "nat \<Rightarrow> bool" where
  "protected_byte x \<longleftrightarrow> x < 0x400000 \<and> \<not> x < 0x100000 \<and> \<not> (0x360000 \<le> x \<and> x < 0x380000)"

text \<open>The application region and the scratch region: all the firmware may write.\<close>

definition open_span :: "nat \<Rightarrow> nat \<Rightarrow> bool" where
  "open_span a n \<longleftrightarrow> a + n \<le> 0x100000 \<or> (0x360000 \<le> a \<and> a + n \<le> 0x380000)"

lemma unat_sat_add32: "unat (sat_add a (b :: u32)) = min (unat a + unat b) 4294967295"
  by (simp add: unat_sat_add)

lemma unat_numeral_4096: "unat (4096 :: u32) = 4096"
  by simp

lemma mod_SECTOR_0: "a mod SECTOR = 0 \<longleftrightarrow> unat a mod 4096 = 0"
  by (metis SECTOR_def unat_eq_zero unat_mod unat_numeral_4096)

lemma region_is_writable_iff:
  "region_is_writable ops addr len w = Inr () \<longleftrightarrow>
     0 < unat len \<and> unat addr mod 4096 = 0 \<and> unat len mod 4096 = 0 \<and>
     (unat addr + unat len \<le> 0x100000 \<and> golden_present ops w \<or>
      0x360000 \<le> unat addr \<and> unat addr + unat len \<le> 0x380000)"
  unfolding region_is_writable_def Let_def mod_SECTOR_0
  unfolding src_consts
  by (auto simp: word_less_nat_alt word_le_nat_alt unat_sat_add32 unat_gt_0)


lemma region_is_writable_cases:
  "region_is_writable ops addr len w = Inr () \<or>
   region_is_writable ops addr len w \<in> Inl ` {Forbidden, Unaligned, NoGolden}"
  by (auto simp: region_is_writable_def Let_def)

lemma open_span_not_protected:
  "open_span a n \<Longrightarrow> a \<le> x \<Longrightarrow> x < a + n \<Longrightarrow> \<not> protected_byte x"
  by (auto simp: open_span_def protected_byte_def)

lemma open_span_mono: "open_span a n \<Longrightarrow> a \<le> b \<Longrightarrow> b + m \<le> a + n \<Longrightarrow> open_span b m"
  by (auto simp: open_span_def)

lemma writable_open_span: "region_is_writable ops addr len w = Inr () \<Longrightarrow> open_span (unat addr) (unat len)"
  by (auto simp: region_is_writable_iff open_span_def)

section \<open>Exchanges the policy allows\<close>

definition addr24 :: "u8 \<Rightarrow> u8 \<Rightarrow> u8 \<Rightarrow> nat" where
  "addr24 x y z = unat x * 65536 + unat y * 256 + unat z"

text \<open>
  The bytes an exchange may change on the chip, from the datasheet's description of the two
  destructive commands: a sector erase changes the 4 KB sector that holds the address, and
  a page program changes bytes of one 256-byte page, wrapping inside it.
\<close>

fun touched :: "u8 list \<Rightarrow> nat list" where
  "touched (c # x # y # z # d) =
     (if c = CMD_SECTOR_ERASE then map ((+) (addr24 x y z div 4096 * 4096)) [0..<4096]
      else if c = CMD_PAGE_PROGRAM
        then map (\<lambda>i. addr24 x y z div 256 * 256 + (addr24 x y z + i) mod 256) [0..<length d]
      else [])"
| "touched _ = []"

text \<open>Everything else the module sends: status reads, write enable, clearing SR1.\<close>

definition harmless :: "u8 list list" where
  "harmless = [[CMD_READ_STATUS1, 0], [CMD_WRITE_ENABLE], [CMD_WRITE_STATUS1, 0], [CMD_READ_STATUS2, 0]]"

text \<open>Reading SR3 and the non-volatile writes of SR2 and SR3 change no byte of the array either.\<close>

definition status_txn :: "u8 list \<Rightarrow> bool" where
  "status_txn t \<longleftrightarrow> t = [0x15, 0] \<or> (length t = 2 \<and> (hd t = 0x11 \<or> hd t = 0x31))"

fun txn_ok :: "u8 list \<Rightarrow> bool" where
  "txn_ok (c # x # y # z # d) =
     (if c = CMD_SECTOR_ERASE
        then d = [] \<and> addr24 x y z mod 4096 = 0 \<and> open_span (addr24 x y z) 4096
      else if c = CMD_PAGE_PROGRAM
        then 0 < length d \<and> addr24 x y z mod 256 + length d \<le> 256
             \<and> open_span (addr24 x y z) (length d)
      else False)"
| "txn_ok t = (t \<in> set harmless \<or> status_txn t)"

definition wire_ok :: "'s world \<Rightarrow> bool" where
  "wire_ok w \<longleftrightarrow> list_all txn_ok (wire w)"

lemma touched_not_protected: "txn_ok t \<Longrightarrow> x \<in> set (touched t) \<Longrightarrow> \<not> protected_byte x"
proof (cases t rule: txn_ok.cases)
  case (1 c x' y z d)
  assume ok: "txn_ok t" and x: "x \<in> set (touched t)"
  let ?a = "addr24 x' y z"
  show ?thesis
  proof (cases "c = CMD_SECTOR_ERASE")
    case True
    with ok 1 have "?a mod 4096 = 0" and sp: "open_span ?a 4096" by auto
    then have "?a div 4096 * 4096 = ?a" by auto
    with x 1 True have "?a \<le> x" "x < ?a + 4096" by auto
    with open_span_not_protected [OF sp] show ?thesis by simp
  next
    case False
    with x 1 have c: "c = CMD_PAGE_PROGRAM" by (auto split: if_splits)
    with ok 1 False have fit: "?a mod 256 + length d \<le> 256" and sp: "open_span ?a (length d)"
      by auto
    from x 1 False c obtain i where i: "i < length d"
      and xi: "x = ?a div 256 * 256 + (?a + i) mod 256" by auto
    have "(?a + i) mod 256 = ?a mod 256 + i"
    proof -
      have "(?a + i) mod 256 = (?a mod 256 + i) mod 256" by (simp add: mod_add_left_eq)
      also have "\<dots> = ?a mod 256 + i" using fit i by (intro mod_less) linarith
      finally show ?thesis .
    qed
    with xi have "x = ?a + i" using div_mult_mod_eq [of ?a 256] by linarith
    with open_span_not_protected [OF sp] i show ?thesis by simp
  qed
qed auto

lemma unat_ucast_u8: "unat (ucast (a :: u32) :: u8) = unat a mod 256"
  by (simp add: unsigned_ucast_eq take_bit_eq_mod)

lemma addr24_send_addr:
  assumes "unat a < 2 ^ 24"
  shows "send_addr a = [x, y, z] \<Longrightarrow> addr24 x y z = unat a"
proof -
  assume "send_addr a = [x, y, z]"
  then have "addr24 x y z =
      unat a div 65536 mod 256 * 65536 + unat a div 256 mod 256 * 256 + unat a mod 256"
    by (auto simp: send_addr_def addr24_def unat_ucast_u8 drop_bit_eq_div unat_div)
  also have "\<dots> = unat a div 65536 * 65536 + unat a mod (256 * 256)"
    using assms mod_mult2_eq [of "unat a" 256 256] by (simp add: div_less_iff_less_mult)
  also have "\<dots> = unat a" using div_mult_mod_eq [of "unat a" 65536] by simp
  finally show ?thesis .
qed

lemma length_send_addr [simp]: "length (send_addr a) = 3"
  by (simp add: send_addr_def)

lemma send_addr_cases: obtains x y z where "send_addr a = [x, y, z]"
  by (simp add: send_addr_def)


section \<open>Invariants of everything that talks to the chip\<close>

text \<open>
  The interface between the SPI exchanges and the code above them: a predicate of the world
  that configuring the master, reading the timer and every exchange in a class \<open>A\<close> keep,
  where \<open>A\<close> holds at least the harmless exchanges. From it follows that erasing and
  programming keep the predicate, provided the destructive command is in \<open>A\<close> whenever
  the policy has let it through.
\<close>

locale spi_invariant =
  fixes ops :: "'s spi_ops" and A :: "u8 list \<Rightarrow> bool" and P :: "'s world \<Rightarrow> bool"
  assumes keep_configure: "P w \<Longrightarrow> P (snd (configure_master ops w))"
    and keep_timer: "P w \<Longrightarrow> P (snd (timer_ticks ops w))"
    and keep_transact: "A t \<Longrightarrow> P w \<Longrightarrow> P (snd (transact ops t w))"
    and harmless_allowed: "t \<in> set harmless \<Longrightarrow> A t"
begin

lemma keeps_transact: "A t \<Longrightarrow> keeps P (exec (transact ops t))"
  by (rule keeps_exec) (rule keep_transact)

lemma keep_read_sr1: "P w \<Longrightarrow> P (snd (read_sr1 ops w))"
  using keep_transact [of "[CMD_READ_STATUS1, 0]" w] harmless_allowed
  by (simp add: read_sr1_def harmless_def split: prod.splits) (metis snd_conv)

lemma keep_write_enable: "P w \<Longrightarrow> P (snd (write_enable ops w))"
  using keep_transact [of "[CMD_WRITE_ENABLE]" w] harmless_allowed
  by (simp add: write_enable_def harmless_def split: prod.splits) (metis snd_conv)

lemma keep_wait_loop:
  assumes ret: "wait_loop ops budget spent prev w = Some r" and w: "P w"
  shows "P (snd r)"
proof -
  have "ops = ops \<longrightarrow> P w \<longrightarrow> P (snd r)"
  proof (rule wait_loop.raw_induct
      [where P = "\<lambda>o' b s p w r. o' = ops \<longrightarrow> P w \<longrightarrow> P (snd r)", OF _ ret], intro impI)
    fix f o' b s p w r
    assume IH: "\<And>o' b s p w r. f o' b s p w = Some r \<Longrightarrow> o' = ops \<longrightarrow> P w \<longrightarrow> P (snd r)"
      and body: "(case read_sr1 o' w of (sr1, w1) \<Rightarrow>
        if sr1 AND 1 = 0 then Some (Inr (), w1)
        else (case timer_ticks o' w1 of (now, w2) \<Rightarrow>
          if sat_add s (elapsed o' p now) > b then Some (Inl Timeout, w2)
          else f o' b (sat_add s (elapsed o' p now)) now w2)) = Some r"
      and o': "o' = ops" and w: "P w"
    obtain sr1 w1 where sr: "read_sr1 ops w = (sr1, w1)" by fastforce
    obtain now w2 where tm: "timer_ticks ops w1 = (now, w2)" by fastforce
    have w1: "P w1" using keep_read_sr1 [OF w] by (simp add: sr)
    have "P w2" using keep_timer [OF w1] by (simp add: tm)
    with w1 body IH show "P (snd r)" by (auto simp: o' sr tm split: if_splits)
  qed
  with w show ?thesis by simp
qed

lemma keeps_wait_not_busy: "keeps P (wait_not_busy ops ms)"
  unfolding wait_not_busy_def Let_def
  by (intro preserves keeps_exec keep_timer) (auto intro!: keepsI dest: keep_wait_loop)

lemma keeps_unprotect: "keeps P (unprotect ops)"
  unfolding unprotect_def
  by (intro preserves keeps_exec keep_configure keep_read_sr1 keep_write_enable
      keep_transact keeps_wait_not_busy harmless_allowed) (simp_all add: harmless_def)

text \<open>Erase and program: the policy check comes first, so its outcome is available.\<close>

lemma keeps_erase_sector:
  assumes "\<And>w. region_is_writable ops addr SECTOR w = Inr () \<Longrightarrow> A (CMD_SECTOR_ERASE # send_addr addr)"
  shows "keeps P (erase_sector ops addr)"
  unfolding erase_sector_def
  by (rule keeps_andThen_check [where Q = "\<lambda>_. A (CMD_SECTOR_ERASE # send_addr addr)"])
    (use assms in \<open>auto intro!: preserves keeps_exec keep_configure keep_write_enable
      keep_transact keeps_wait_not_busy keeps_unprotect\<close>)

lemma keeps_program_page:
  assumes "\<And>w. data \<noteq> [] \<Longrightarrow> unat (addr mod PAGE) + length data \<le> unat PAGE \<Longrightarrow>
    region_is_writable ops (addr AND NOT (SECTOR - 1)) SECTOR w = Inr () \<Longrightarrow>
    A (CMD_PAGE_PROGRAM # send_addr addr @ data)"
  shows "keeps P (program_page ops addr data)"
proof -
  have "keeps P (andThen (check (region_is_writable ops (addr AND NOT (SECTOR - 1)) SECTOR)) (\<lambda>_.
     andThen (unprotect ops) (\<lambda>_. andThen (exec (configure_master ops)) (\<lambda>_.
     andThen (exec (write_enable ops)) (\<lambda>_.
     andThen (exec (transact ops (CMD_PAGE_PROGRAM # send_addr addr @ data))) (\<lambda>_.
     andThen (wait_not_busy ops 10) (\<lambda>_. check f)))))))"
    if "data \<noteq> []" "unat (addr mod PAGE) + length data \<le> unat PAGE" for f
    by (rule keeps_andThen_check [where Q = "\<lambda>_. A (CMD_PAGE_PROGRAM # send_addr addr @ data)"])
      (use assms that in \<open>auto intro!: preserves keeps_exec keep_configure keep_write_enable
        keep_transact keeps_wait_not_busy keeps_unprotect\<close>)
  then show ?thesis
    unfolding program_page_def by (auto intro!: keeps_if keeps_ret keeps_fail)
qed

end

section \<open>Status registers\<close>

lemma status_txn_ok: "status_txn t \<Longrightarrow> txn_ok t \<and> touched t = []"
  by (cases t rule: txn_ok.cases) (auto simp: status_txn_def)

context spi_invariant
begin

lemma keep_read_status_regs:
  assumes "A [0x15, 0]" "P w"
  shows "P (snd (read_status_regs ops w))"
proof -
  have h: "A [0x05, 0]" "A [0x35, 0]"
    by (rule harmless_allowed, simp add: harmless_def CMD_READ_STATUS1_def CMD_READ_STATUS2_def)+
  show ?thesis
    using keep_transact [OF assms(1) keep_transact [OF h(2) keep_transact [OF h(1) keep_configure [OF assms(2)]]]]
    by (simp add: read_status_regs_def split_beta)
qed

lemma keep_poll_sr1: "P w \<Longrightarrow> P (snd (poll_sr1 ops n v w))"
proof (induction n arbitrary: v w)
  case (Suc n)
  have "A [0x05, 0x00]" by (rule harmless_allowed) (simp add: harmless_def CMD_READ_STATUS1_def)
  from keep_transact [OF this Suc.prems] show ?case using Suc.IH by (simp add: split_beta)
qed simp

lemma keep_write_status:
  assumes "A [cmd, value]" "P w"
  shows "P (snd (write_status ops cmd value w))"
proof -
  have "A [0x06]" by (rule harmless_allowed) (simp add: harmless_def CMD_WRITE_ENABLE_def)
  from keep_poll_sr1 [OF keep_transact [OF assms(1) keep_transact [OF this keep_configure [OF assms(2)]]]]
  show ?thesis by (simp add: write_status_def split_beta)
qed

end

section \<open>Every exchange obeys the policy\<close>

lemma wire_ok_append: "wire_ok (w\<lparr>chip := c, wire := ts @ [t]\<rparr>) \<longleftrightarrow> list_all txn_ok ts \<and> txn_ok t"
  by (simp add: wire_ok_def)

interpretation bus: spi_invariant ops txn_ok "wire_ok :: 's world \<Rightarrow> bool" for ops :: "'s spi_ops"
proof
  fix w :: "'s world" and t
  show "wire_ok w \<Longrightarrow> wire_ok (snd (configure_master ops w))"
    by (simp add: wire_ok_def)
  show "wire_ok w \<Longrightarrow> wire_ok (snd (timer_ticks ops w))"
    by (simp add: wire_ok_def timer_ticks_def split: prod.splits)
  show "txn_ok t \<Longrightarrow> wire_ok w \<Longrightarrow> wire_ok (snd (transact ops t w))"
    by (simp add: wire_ok_def)
  show "t \<in> set harmless \<Longrightarrow> txn_ok t"
    by (auto simp: harmless_def)
qed

lemma erase_txn_ok:
  assumes "region_is_writable ops addr SECTOR w = Inr ()"
  shows "txn_ok (CMD_SECTOR_ERASE # send_addr addr)"
proof -
  obtain x y z where s: "send_addr addr = [x, y, z]" by (rule send_addr_cases)
  from assms have "unat addr < 2 ^ 24" "open_span (unat addr) 4096" "unat addr mod 4096 = 0"
    using writable_open_span [OF assms]
    by (auto simp: region_is_writable_iff SECTOR_def open_span_def)
  with addr24_send_addr [OF _ s] s show ?thesis by simp
qed

text \<open>The sector a page lies in, and the page inside it.\<close>

lemma unat_sector_of: "unat (a AND NOT (SECTOR - 1)) = unat a div 4096 * 4096"
proof -
  have m: "SECTOR - 1 = mask 12" by (simp add: SECTOR_def mask_eq_exp_minus_1)
  have "a AND NOT (SECTOR - 1) = push_bit 12 (drop_bit 12 a)"
    unfolding m by (rule bit_word_eqI) (auto simp: bit_simps)
  moreover have "unat a div 4096 * 4096 < 2 ^ 32"
    using unat_u32_less [of a] div_times_less_eq_dividend [of "unat a" 4096] by simp
  ultimately show ?thesis
    by (simp add: push_bit_eq_mult drop_bit_eq_div unat_word_ariths unat_div)
qed

lemma program_txn_ok:
  assumes "region_is_writable ops (addr AND NOT (SECTOR - 1)) SECTOR w = Inr ()"
    and "data \<noteq> []" and fit: "unat (addr mod PAGE) + length data \<le> unat PAGE"
  shows "txn_ok (CMD_PAGE_PROGRAM # send_addr addr @ data)"
proof -
  obtain x y z where s: "send_addr addr = [x, y, z]" by (rule send_addr_cases)
  have sp: "open_span (unat addr div 4096 * 4096) 4096"
    using writable_open_span [OF assms(1)] unfolding unat_sector_of by (simp add: SECTOR_def)
  have fit': "unat addr mod 256 + length data \<le> 256"
    using fit by (simp add: PAGE_def unat_mod)
  have "unat addr mod 4096 mod 256 = unat addr mod 256" by (simp add: mod_mod_cancel)
  moreover have "unat addr mod 4096 div 256 < 16" by (simp add: less_mult_imp_div_less)
  moreover have "unat addr mod 4096 = unat addr mod 4096 div 256 * 256 + unat addr mod 4096 mod 256"
    by simp
  ultimately have "unat addr mod 4096 + length data \<le> 4096" using fit' by linarith
  then have "open_span (unat addr) (length data)"
    using open_span_mono [OF sp, of "unat addr" "length data"] div_mult_mod_eq [of "unat addr" 4096]
    by linarith
  moreover from this have "unat addr < 2 ^ 24" using assms(2) by (auto simp: open_span_def)
  ultimately show ?thesis
    using addr24_send_addr [OF _ s] s fit' assms(2)
    by (simp add: CMD_PAGE_PROGRAM_def CMD_SECTOR_ERASE_def)
qed

lemma keeps_wire_erase: "keeps wire_ok (erase_sector ops addr)"
  by (rule bus.keeps_erase_sector) (rule erase_txn_ok)

lemma keeps_wire_program: "keeps wire_ok (program_page ops addr data)"
  by (rule bus.keeps_program_page) (rule program_txn_ok)

end
