(* ===== verification/Flash_Crc.thy ===== *)
theory Flash_Crc
  imports Flash_Write
begin

text \<open>
  The nibble-table CRC of \<^verbatim>\<open>crc32_region\<close> against its definition: the reflected
  CRC-32 that shifts one bit at a time through the polynomial 0xEDB88320.
\<close>

unbundle bit_operations_syntax

definition crc_bit :: "u32 \<Rightarrow> u32" where
  "crc_bit c = (if bit c 0 then drop_bit 1 c XOR 0xEDB88320 else drop_bit 1 c)"

definition crc_byte_ref :: "u32 \<Rightarrow> u8 \<Rightarrow> u32" where
  "crc_byte_ref c b = (crc_bit ^^ 8) (c XOR ucast b)"

definition crc32_ref :: "u8 list \<Rightarrow> u32" where
  "crc32_ref bs = NOT (foldl crc_byte_ref 0xFFFFFFFF bs)"

text \<open>
  Four bit steps, followed symbolically: each either shifts or shifts and adds the
  polynomial, as the bits of the low nibble say.
\<close>

lemma low_nibble_sum:
  "unat ((c :: u32) AND 0x0F) =
     of_bool (bit c 0) + 2 * of_bool (bit c 1) + 4 * of_bool (bit c 2) + 8 * of_bool (bit c 3)"
proof -
  have "c AND 0x0F = take_bit 4 c"
    by (simp add: take_bit_eq_mask mask_eq_exp_minus_1)
  then have "unat (c AND 0x0F) = take_bit 4 (unat c)"
    by (simp add: unsigned_take_bit_eq)
  also have "\<dots> = of_bool (bit (unat c) 0) + 2 * of_bool (bit (unat c) 1)
      + 4 * of_bool (bit (unat c) 2) + 8 * of_bool (bit (unat c) 3)"
    using take_bit_Suc_from_most [of 3 "unat c"] take_bit_Suc_from_most [of 2 "unat c"]
      take_bit_Suc_from_most [of 1 "unat c"] take_bit_Suc_from_most [of 0 "unat c"]
    by (simp add: eval_nat_numeral)
  finally show ?thesis
    by (simp only: bit_unsigned_iff) simp
qed

text \<open>
  After \<open>n\<close> steps the register is the original shifted by \<open>n\<close>, with a constant that
  depends on the bits shifted out added to it.
\<close>

lemma crc_bit_shifted:
  "crc_bit (drop_bit n c XOR k) = drop_bit (Suc n) c XOR
     (if bit c n \<noteq> bit k 0 then drop_bit 1 k XOR 0xEDB88320 else drop_bit 1 k)"
  unfolding crc_bit_def by (auto simp: bit_xor_iff bit_drop_bit_eq drop_bit_xor xor.assoc)

lemma crc_bits_4: "(crc_bit ^^ 4) c = crc_bit (crc_bit (crc_bit (crc_bit (drop_bit 0 c XOR 0))))"
proof -
  have "(4 :: nat) = Suc (Suc (Suc (Suc 0)))" by simp
  then show ?thesis by (simp only: funpow.simps comp_apply) simp
qed

lemmas crc_shifts = crc_bit_shifted [of 0] crc_bit_shifted [of "Suc 0"]
  crc_bit_shifted [of 2] crc_bit_shifted [of 3]

lemmas crc_shifts_0 = crc_bit_shifted [of 2 _ 0, unfolded xor.right_neutral]
  crc_bit_shifted [of 3 _ 0, unfolded xor.right_neutral]

lemma crc_nibble_bits: "crc_nibble c = (crc_bit ^^ 4) c"
proof -
  have two: "Suc (Suc 0) = 2" by simp
  show ?thesis
    unfolding crc_nibble_def low_nibble_sum crc_bits_4 crc_shifts(1,2) two One_nat_def
    by (cases "bit c 0"; cases "bit c (Suc 0)"; cases "bit c 2"; cases "bit c 3")
      (simp_all add: CRC_TBL_def crc_shifts(3,4) crc_shifts_0)
qed

lemma crc_byte_eq_ref: "crc_byte c b = crc_byte_ref c b"
proof -
  have "crc_byte c b = (crc_bit ^^ 4) ((crc_bit ^^ 4) (c XOR ucast b))"
    by (simp add: crc_byte_def crc_nibble_bits)
  also have "\<dots> = (crc_bit ^^ (4 + 4)) (c XOR ucast b)"
    by (simp only: funpow_add comp_apply)
  finally show ?thesis by (simp add: crc_byte_ref_def)
qed

lemma crc32_region_ref:
  "crc32_region ops w addr len =
     crc32_ref (map (\<lambda>i. read_byte ops w (addr + of_nat i)) [0..<unat len])"
  by (simp add: crc32_region_def crc32_ref_def foldl_map crc_byte_eq_ref)

end
