(* ===== verification/Flash_Job.thy ===== *)
theory Flash_Job
  imports Flash_Policy Flash_Crc
begin

text \<open>
  The deferred job of \<^verbatim>\<open>flash_write.rs\<close>: the invariant \<open>queue\<close> establishes and
  every \<open>tick\<close> keeps, the bus policy along a run, and termination: of the busy-wait, of
  every flash operation, and of the job itself.
\<close>

unbundle bit_operations_syntax

section \<open>Invariant\<close>

definition job_inv :: "job \<Rightarrow> bool" where
  "job_inv job \<longleftrightarrow> (job_pending job \<longrightarrow>
     0 < unat (jlen job) \<and> unat (jaddr job) mod 4096 = 0 \<and> unat (jlen job) mod 4096 = 0 \<and>
     open_span (unat (jaddr job)) (unat (jlen job)) \<and>
     unat (jcursor job) \<le> unat (jlen job) \<and>
     (jkind job = Erase \<longrightarrow> unat (jcursor job) mod 4096 = 0) \<and>
     (jkind job = SelfTest \<longrightarrow> unat (jcursor job) mod 256 = 0 \<and>
        (unat (jcursor job) mod 4096 \<noteq> 0 \<longrightarrow> jerased job)))"

lemma job_inv_init: "job_inv JOB_init"
  by (simp add: job_inv_def JOB_init_def job_pending_def)

lemma queue_inv: "job_inv job \<Longrightarrow> job_inv (snd (queue ops kind addr len w job))"
  by (auto simp: queue_def job_inv_def region_is_writable_iff open_span_def
      split: sum.splits)

lemma queue_accepts:
  "queue ops kind addr len w job = (Inr (), job') \<Longrightarrow>
     \<not> job_pending job \<and> region_is_writable ops addr len w = Inr () \<and>
     jstate job' = Queued \<and> jcursor job' = 0 \<and> jaddr job' = addr \<and> jlen job' = len \<and> jkind job' = kind"
  by (auto simp: queue_def job_pending_def split: sum.splits if_splits)

lemma queue_refuses:
  "queue ops kind addr len w job = (Inl e, job') \<Longrightarrow> job' = job"
  by (auto simp: queue_def split: sum.splits if_splits)

text \<open>What one unit of work does to the cursor, when it succeeds.\<close>

lemma unat_add_small: "unat a + unat (b :: u32) < 4294967296 \<Longrightarrow> unat (a + b) = unat a + unat b"
  by (simp add: unat_word_ariths)

lemma erase_work:
  "jkind job = Erase \<Longrightarrow> job_work ops job w = Some (Inr (adv, er), w') \<Longrightarrow> adv = 4096 \<and> er = jerased job"
  by (auto simp: job_work_def andThen_eq_Some Let_def SECTOR_def)

lemma selftest_erase_work:
  "jkind job = SelfTest \<Longrightarrow> (jaddr job + jcursor job) mod SECTOR = 0 \<and> \<not> jerased job \<Longrightarrow>
   job_work ops job w = Some (Inr (adv, er), w') \<Longrightarrow> adv = 0 \<and> er"
  by (auto simp: job_work_def andThen_eq_Some Let_def)

lemma selftest_program_work:
  assumes k: "jkind job = SelfTest"
    and c: "\<not> ((jaddr job + jcursor job) mod SECTOR = 0 \<and> \<not> jerased job)"
    and work: "job_work ops job w = Some (Inr (adv, er), w')"
  shows "adv = min PAGE (jlen job - jcursor job) \<and>
   er = (if (jaddr job + jcursor job + adv) mod SECTOR = 0 then False else jerased job)"
proof -
  let ?n = "min PAGE (jlen job - jcursor job)"
  have "job_work ops job =
      andThen (program_page ops (jaddr job + jcursor job) (selftest_data (jcursor job) (unat ?n)))
        (\<lambda>_. ret (?n, if (jaddr job + jcursor job + ?n) mod SECTOR = 0 then False else jerased job))"
    by (simp only: job_work_def Let_def k job_kind.case c if_False)
  with work have "Some (Inr (?n, if (jaddr job + jcursor job + ?n) mod SECTOR = 0 then False
      else jerased job) :: flash_error + u32 \<times> bool, w') = Some (Inr (adv, er), w')"
    by (simp only: andThen_Inr ret_simp) (elim exE conjE, simp only: option.inject prod.inject)
  then show ?thesis
    by (simp only: option.inject prod.inject sum.inject) (elim conjE, hypsubst, intro conjI refl)
qed

lemma none_work:
  "jkind job = JNone \<Longrightarrow> job_work ops job w = Some (Inr (0, jerased job), w)"
  by (simp add: job_work_def)


section \<open>One tick\<close>

text \<open>The shape of a tick on a pending job.\<close>

lemma tick_cases:
  assumes "tick ops job w = Some (job', w')" and "job_pending job"
  obtains (finish) "jlen job \<le> jcursor job" "w' = w"
      "job' = job\<lparr>jcrc := crc32_region ops w (jaddr job) (jlen job), jstate := JDone\<rparr>"
  | (work) adv er where "jcursor job < jlen job"
      "job_work ops (job\<lparr>jstate := Running\<rparr>) w = Some (Inr (adv, er), w')"
      "job' = job\<lparr>jstate := Running, jcursor := jcursor job + adv, jerased := er\<rparr>"
  | (error) e where "jcursor job < jlen job"
      "job_work ops (job\<lparr>jstate := Running\<rparr>) w = Some (Inl e, w')"
      "job' = job\<lparr>jstate := JFailed, jerror := Some e\<rparr>"
proof (cases "jlen job \<le> jcursor job")
  case True
  then show ?thesis using assms by (intro finish) (auto simp: tick_def)
next
  case False
  with assms obtain r where r: "job_work ops (job\<lparr>jstate := Running\<rparr>) w = Some (r, w')"
    by (auto simp: tick_def Let_def split: option.splits sum.splits)
  show ?thesis
  proof (cases r)
    case (Inl e)
    with False r assms show ?thesis by (intro error [of e]) (auto simp: tick_def Let_def)
  next
    case (Inr p)
    with False r assms show ?thesis
      by (cases p, intro work [of "fst p" "snd p"]) (auto simp: tick_def Let_def)
  qed
qed

lemma tick_idle: "\<not> job_pending job \<Longrightarrow> tick ops job w = Some (job, w)"
  by (simp add: tick_def)

text \<open>The cursor after a successful slice, in numbers.\<close>

definition slice :: "job \<Rightarrow> nat" where
  "slice job = (case jkind job of Erase \<Rightarrow> 4096 | JNone \<Rightarrow> 0
     | SelfTest \<Rightarrow> if unat (jcursor job) mod 4096 = 0 \<and> \<not> jerased job then 0 else 256)"

lemma job_addr_mod:
  assumes "job_inv job" "job_pending job"
  shows "(jaddr job + jcursor job) mod SECTOR = 0 \<longleftrightarrow> unat (jcursor job) mod 4096 = 0"
proof -
  from assms have "unat (jaddr job) + unat (jcursor job) < 4294967296"
    and m: "unat (jaddr job) mod 4096 = 0"
    by (auto simp: job_inv_def open_span_def)
  then have "unat (jaddr job + jcursor job) = unat (jaddr job) + unat (jcursor job)"
    by (intro unat_add_small)
  then have "unat (jaddr job + jcursor job) mod 4096 = unat (jcursor job) mod 4096"
    using m by (simp add: mod_add_left_eq [symmetric])
  then show ?thesis unfolding mod_SECTOR_0 by simp
qed

lemma work_slice:
  assumes inv: "job_inv job" "job_pending job" and lt: "jcursor job < jlen job"
    and work: "job_work ops (job\<lparr>jstate := Running\<rparr>) w = Some (Inr (adv, er), w')"
  shows "unat adv = slice job \<and> unat (jcursor job) + slice job \<le> unat (jlen job) \<and>
    (jkind job = SelfTest \<longrightarrow>
       er = (if slice job = 0 then True
             else if (unat (jcursor job) + 256) mod 4096 = 0 then False else jerased job))"
proof (cases "jkind job")
  case JNone
  with work lt show ?thesis
    by (simp add: slice_def job_work_def word_less_nat_alt)
next
  case Erase
  then have "adv = 4096" using erase_work [OF _ work] by simp
  moreover have "unat (jcursor job) + 4096 \<le> unat (jlen job)"
  proof -
    have "4096 dvd unat (jlen job)" "4096 dvd unat (jcursor job)"
      using inv Erase by (auto simp: job_inv_def)
    then have "4096 dvd unat (jlen job) - unat (jcursor job)" by (rule dvd_diff_nat)
    then have "4096 \<le> unat (jlen job) - unat (jcursor job)"
      using lt by (intro dvd_imp_le) (simp_all add: word_less_nat_alt)
    then show ?thesis by linarith
  qed
  ultimately show ?thesis using Erase by (simp add: slice_def)
next
  case SelfTest
  let ?j = "job\<lparr>jstate := Running\<rparr>"
  have pj: "job_pending ?j" "job_inv ?j" using inv by (auto simp: job_inv_def job_pending_def)
  note am = job_addr_mod [OF pj(2,1), simplified]
  show ?thesis
  proof (cases "unat (jcursor job) mod 4096 = 0 \<and> \<not> jerased job")
    case True
    then have "(jaddr ?j + jcursor ?j) mod SECTOR = 0 \<and> \<not> jerased ?j" using am by simp
    from selftest_erase_work [OF _ this work] SelfTest True lt show ?thesis
      by (simp add: slice_def word_less_nat_alt)
  next
    case False
    have "256 dvd unat (jlen job)"
      using inv by (intro dvd_trans [of 256 4096 "unat (jlen job)"]) (auto simp: job_inv_def)
    moreover have "256 dvd unat (jcursor job)" using inv SelfTest by (auto simp: job_inv_def)
    ultimately have "256 dvd unat (jlen job) - unat (jcursor job)" by (rule dvd_diff_nat)
    then have room: "256 \<le> unat (jlen job) - unat (jcursor job)"
      using lt by (intro dvd_imp_le) (simp_all add: word_less_nat_alt)
    have "unat (jlen job - jcursor job) = unat (jlen job) - unat (jcursor job)"
      using lt by (simp add: unat_sub word_le_nat_alt word_less_nat_alt)
    then have page: "min PAGE (jlen job - jcursor job) = 256"
      using room by (simp add: PAGE_def min_def word_le_nat_alt)
    have "\<not> ((jaddr ?j + jcursor ?j) mod SECTOR = 0 \<and> \<not> jerased ?j)" using False am by simp
    from selftest_program_work [OF _ this work] SelfTest page
    have adv: "adv = 256"
      and er: "er = (if (jaddr job + jcursor job + 256) mod SECTOR = 0 then False else jerased job)"
      by simp_all
    have "unat (jcursor job + 256) = unat (jcursor job) + 256"
      using room unat_u32_less [of "jlen job"] by (intro trans [OF unat_add_small]) simp_all
    moreover have "job_inv (job\<lparr>jkind := JNone, jcursor := jcursor job + 256\<rparr>)"
      using inv calculation room by (auto simp: job_inv_def job_pending_def)
    ultimately have "(jaddr job + (jcursor job + 256)) mod SECTOR = 0 \<longleftrightarrow>
        (unat (jcursor job) + 256) mod 4096 = 0"
      using job_addr_mod [of "job\<lparr>jkind := JNone, jcursor := jcursor job + 256\<rparr>"] inv
      by (simp add: job_pending_def)
    with adv er room SelfTest False show ?thesis
      by (auto simp: slice_def add.assoc)
  qed
qed


lemma advance_cursor:
  assumes "job_inv job" "job_pending job" "jcursor job < jlen job"
    and "job_work ops (job\<lparr>jstate := Running\<rparr>) w = Some (Inr (adv, er), w')"
  shows "unat (jcursor job + adv) = unat (jcursor job) + slice job"
  using work_slice [OF assms] unat_u32_less [of "jlen job"]
  by (intro trans [OF unat_add_small]) auto

lemma work_keeps_inv:
  assumes inv: "job_inv job" "job_pending job" and lt: "jcursor job < jlen job"
    and work: "job_work ops (job\<lparr>jstate := Running\<rparr>) w = Some (Inr (adv, er), w')"
  shows "job_inv (job\<lparr>jstate := Running, jcursor := jcursor job + adv, jerased := er\<rparr>)"
proof -
  note c = advance_cursor [OF assms] and s = work_slice [OF assms]
  show ?thesis
  proof (cases "jkind job")
    case Erase
    then show ?thesis using inv c s by (auto simp: job_inv_def slice_def)
  next
    case JNone
    then show ?thesis using inv c s by (auto simp: job_inv_def slice_def)
  next
    case SelfTest
    then have m: "unat (jcursor job) mod 256 = 0" using inv by (simp add: job_inv_def)
    show ?thesis
    proof (cases "slice job = 0")
      case True
      then show ?thesis using inv c s SelfTest by (auto simp: job_inv_def)
    next
      case False
      then have sl: "slice job = 256" using SelfTest by (auto simp: slice_def split: if_splits)
      have "jerased job"
        using inv SelfTest False by (auto simp: job_inv_def slice_def split: if_splits)
      with sl show ?thesis using inv c s SelfTest m
        by (auto simp: job_inv_def)
    qed
  qed
qed

lemma tick_inv:
  assumes "job_inv job" "tick ops job w = Some (job', w')"
  shows "job_inv job'"
proof (cases "job_pending job")
  case False
  then show ?thesis using assms by (simp add: tick_idle)
next
  case True
  from assms(2) True show ?thesis
  proof (cases rule: tick_cases)
    case (work adv er)
    then show ?thesis using work_keeps_inv [OF assms(1) True] by simp
  qed (auto simp: job_inv_def job_pending_def)
qed

text \<open>Every exchange of a tick obeys the policy.\<close>

context spi_invariant
begin

lemma keeps_job_work:
  assumes "keeps P (erase_sector ops (jaddr job + jcursor job))"
    and "\<And>d. keeps P (program_page ops (jaddr job + jcursor job) d)"
  shows "keeps P (job_work ops job)"
  unfolding job_work_def Let_def
  by (cases "jkind job") (auto intro!: preserves assms)

lemma keep_tick:
  assumes "keeps P (erase_sector ops (jaddr job + jcursor job))"
    and "\<And>d. keeps P (program_page ops (jaddr job + jcursor job) d)"
    and "P w" "tick ops job w = Some (job', w')"
  shows "P w'"
proof (cases "job_pending job")
  case False
  then show ?thesis using assms by (simp add: tick_idle)
next
  case True
  have k: "keeps P (job_work ops (job\<lparr>jstate := Running\<rparr>))"
    by (rule keeps_job_work) (simp_all add: assms)
  from assms(4) True show ?thesis
    by (cases rule: tick_cases) (auto simp: assms(3) intro: keepsD [OF k assms(3)])
qed

end

lemma tick_wire_ok: "wire_ok w \<Longrightarrow> tick ops job w = Some (job', w') \<Longrightarrow> wire_ok w'"
  by (rule bus.keep_tick [OF keeps_wire_erase keeps_wire_program])

section \<open>Termination\<close>

text \<open>
  What the busy-wait needs of the SoC's timer: a reading lies below the reload value, and
  two readings with a status poll between them differ. The bound on the clock keeps the
  accounting inside 32 bits.
\<close>

definition timer_runs :: "'s spi_ops \<Rightarrow> bool" where
  "timer_runs ops \<longleftrightarrow>
     1000 \<le> unat (sys_clk_hz ops) \<and> unat (sys_clk_hz ops) \<le> 1000000000 \<and>
     (\<forall>w. unat (fst (timer_ticks ops w)) < unat (sys_clk_hz ops)) \<and>
     (\<forall>w. fst (timer_ticks ops (snd (read_sr1 ops (snd (timer_ticks ops w))))) \<noteq> fst (timer_ticks ops w))"

lemma elapsed_bounds:
  assumes "unat prev < unat hz" "unat now < unat hz" "unat hz \<le> 1000000000" "hz = sys_clk_hz ops"
    "1000 \<le> unat hz"
  shows "unat (elapsed ops prev now) =
    (if unat prev \<le> unat now then unat now - unat prev else unat now + (unat hz - 1) - unat prev)"
proof (cases "unat prev \<le> unat now")
  case True
  then show ?thesis by (simp add: elapsed_def word_le_nat_alt unat_sub)
next
  case False
  have "unat (hz - 1) = unat hz - 1" using assms(5) by (simp add: unat_sub word_le_nat_alt)
  moreover have "unat (now + (hz - 1)) = unat now + unat (hz - 1)"
    using assms calculation by (intro unat_add_small) simp
  ultimately show ?thesis using False assms
    by (simp add: elapsed_def word_le_nat_alt unat_sub)
qed

lemma wait_loop_returns:
  assumes tr: "timer_runs ops" and b: "unat budget < 4294967295"
  shows "timer_ticks ops w0 = (prev, w) \<Longrightarrow> unat spent \<le> unat budget \<Longrightarrow>
    \<exists>r. wait_loop ops budget spent prev w = Some r"
proof (induction "(unat budget - unat spent) * unat (sys_clk_hz ops) + unat prev"
    arbitrary: w0 prev w spent rule: less_induct)
  case less
  let ?hz = "unat (sys_clk_hz ops)"
  obtain sr1 w1 where sr: "read_sr1 ops w = (sr1, w1)" by fastforce
  obtain now w2 where tm: "timer_ticks ops w1 = (now, w2)" by fastforce
  have hz: "1000 \<le> ?hz" "?hz \<le> 1000000000" using tr by (auto simp: timer_runs_def)
  have lt: "unat prev < ?hz" "unat now < ?hz"
    using tr less(2) tm unfolding timer_runs_def by (metis fst_conv)+
  have ne: "now \<noteq> prev"
    using tr less(2) sr tm unfolding timer_runs_def by (metis fst_conv snd_conv)
  define e where "e = unat (elapsed ops prev now)"
  have e: "e = (if unat prev \<le> unat now then unat now - unat prev else unat now + (?hz - 1) - unat prev)"
    unfolding e_def by (rule elapsed_bounds) (use lt hz in simp_all)
  show ?case
  proof (cases "sr1 AND 1 = 0 \<or> sat_add spent (elapsed ops prev now) > budget")
    case True
    then show ?thesis by (subst wait_loop.simps) (auto simp: sr tm)
  next
    case False
    let ?s = "sat_add spent (elapsed ops prev now)"
    have sb: "unat ?s \<le> unat budget" using False by (simp add: word_le_nat_alt not_less)
    then have s: "unat ?s = unat spent + e"
      using b by (simp add: unat_sat_add32 e_def)
    have "(unat budget - unat ?s) * ?hz + unat now < (unat budget - unat spent) * ?hz + unat prev"
    proof (cases "e = 0")
      case True
      with e ne lt have "unat now < unat prev"
        by (auto simp: word_unat_eq_iff split: if_splits)
      with True s show ?thesis by simp
    next
      case False
      then have "unat budget - unat ?s + 1 \<le> unat budget - unat spent" using s sb by simp
      then have "(unat budget - unat ?s + 1) * ?hz \<le> (unat budget - unat spent) * ?hz"
        by (rule mult_le_mono1)
      with lt show ?thesis by simp
    qed
    then have "\<exists>r. wait_loop ops budget ?s now w2 = Some r" by (rule less(1)) (rule tm, rule sb)
    with False show ?thesis by (subst wait_loop.simps) (simp add: sr tm)
  qed
qed


lemma returns_wait_not_busy:
  assumes tr: "timer_runs ops" and ms: "unat ms \<le> 4000"
  shows "returns (wait_not_busy ops ms)"
proof -
  let ?b = "sat_mul ms (sys_clk_hz ops div 1000)"
  have "unat (sys_clk_hz ops div 1000) \<le> 1000000"
    using tr div_le_mono [of "unat (sys_clk_hz ops)" 1000000000 1000]
    by (simp add: timer_runs_def unat_div)
  then have "unat ms * unat (sys_clk_hz ops div 1000) \<le> 4000 * 1000000"
    using ms by (intro mult_le_mono)
  then have "unat ?b < 4294967295" by (simp add: sat_mul_def unat_word_ariths)
  then have "\<exists>r. wait_loop ops ?b 0 (fst (timer_ticks ops w)) (snd (timer_ticks ops w)) = Some r" for w
    by (intro wait_loop_returns [OF tr, of _ w]) simp_all
  then show ?thesis by (auto simp: returns_def wait_not_busy_def Let_def andThen_def)
qed

lemma returns_unprotect: "timer_runs ops \<Longrightarrow> returns (unprotect ops)"
  unfolding unprotect_def by (intro terminates returns_wait_not_busy) simp_all

lemma returns_erase_sector: "timer_runs ops \<Longrightarrow> returns (erase_sector ops addr)"
  unfolding erase_sector_def
  by (intro terminates returns_wait_not_busy returns_unprotect) simp_all

lemma returns_program_page: "timer_runs ops \<Longrightarrow> returns (program_page ops addr data)"
  unfolding program_page_def
  by (intro terminates returns_wait_not_busy returns_unprotect) simp_all

lemma returns_job_work: "timer_runs ops \<Longrightarrow> returns (job_work ops job)"
  unfolding job_work_def Let_def
  by (cases "jkind job")
    (auto intro!: terminates returns_erase_sector returns_program_page)

lemma tick_returns:
  assumes "timer_runs ops"
  shows "\<exists>job' w'. tick ops job w = Some (job', w')"
proof -
  from returns_job_work [OF assms] obtain r w'
    where "job_work ops (job\<lparr>jstate := Running\<rparr>) w = Some (r, w')"
    by (fastforce simp: returns_def)
  then show ?thesis
    by (auto simp: tick_def Let_def split: option.splits sum.splits)
qed

text \<open>The main loop's calls, \<open>n\<close> of them.\<close>

fun ticks :: "'s spi_ops \<Rightarrow> nat \<Rightarrow> job \<Rightarrow> 's world \<Rightarrow> (job \<times> 's world) option" where
  "ticks ops 0 job w = Some (job, w)"
| "ticks ops (Suc n) job w =
     (case tick ops job w of None \<Rightarrow> None | Some (job', w') \<Rightarrow> ticks ops n job' w')"

text \<open>
  Work left, in ticks: two per page still to program (a sector's erase is charged to its
  first page), and one to finish.
\<close>

definition work_left :: "job \<Rightarrow> nat" where
  "work_left job = (if \<not> job_pending job then 0 else
     Suc (2 * ((unat (jlen job) - unat (jcursor job)) div 256)
       + (if jkind job = SelfTest \<and> jerased job then 0 else 1)))"

lemma tick_makes_progress:
  assumes inv: "job_inv job" and p: "job_pending job" and k: "jkind job \<noteq> JNone"
    and t: "tick ops job w = Some (job', w')"
  shows "work_left job' < work_left job \<and> jkind job' = jkind job"
  using t p
proof (cases rule: tick_cases)
  case finish
  then show ?thesis using p by (simp add: work_left_def job_pending_def)
next
  case (error e)
  then show ?thesis using p by (simp add: work_left_def job_pending_def)
next
  case (work adv er)
  let ?c = "unat (jcursor job)" and ?l = "unat (jlen job)"
  note c = advance_cursor [OF inv p work(1,2)] and s = work_slice [OF inv p work(1,2)]
  have left: "work_left job = Suc (2 * ((?l - ?c) div 256) + (if jkind job = SelfTest \<and> jerased job then 0 else 1))"
    using p by (simp add: work_left_def)
  have left': "work_left job' = Suc (2 * ((?l - (?c + slice job)) div 256) + (if jkind job = SelfTest \<and> er then 0 else 1))"
    using c by (simp add: work_left_def work(3) job_pending_def)
  show ?thesis
  proof (cases "slice job = 0")
    case True
    with k have "jkind job = SelfTest" "\<not> jerased job" by (auto simp: slice_def split: job_kind.splits if_splits)
    with True s left left' show ?thesis by (simp add: work(3))
  next
    case False
    then have "256 \<le> slice job" using k by (auto simp: slice_def split: job_kind.splits if_splits)
    then have "?l - (?c + slice job) + 256 \<le> ?l - ?c" using s by linarith
    then have "(?l - (?c + slice job) + 256) div 256 \<le> (?l - ?c) div 256" by (rule div_le_mono)
    then have "(?l - (?c + slice job)) div 256 + 1 \<le> (?l - ?c) div 256" by simp
    then show ?thesis using left left' by (auto simp: work(3))
  qed
qed

lemma job_terminates:
  assumes tr: "timer_runs ops"
  shows "job_inv job \<Longrightarrow> jkind job \<noteq> JNone \<Longrightarrow> work_left job \<le> n \<Longrightarrow>
    \<exists>job' w'. ticks ops n job w = Some (job', w') \<and> \<not> job_pending job'"
proof (induction n arbitrary: job w)
  case 0
  then show ?case by (auto simp: work_left_def split: if_splits)
next
  case (Suc n)
  obtain job1 w1 where t: "tick ops job w = Some (job1, w1)" using tick_returns [OF tr] by blast
  have inv: "job_inv job1" using tick_inv Suc.prems(1) t by blast
  have "work_left job1 \<le> n \<and> jkind job1 \<noteq> JNone"
  proof (cases "job_pending job")
    case True
    then show ?thesis using tick_makes_progress [OF Suc.prems(1) True Suc.prems(2) t] Suc.prems by simp
  next
    case False
    then show ?thesis using t Suc.prems by (simp add: tick_idle) (simp add: work_left_def)
  qed
  then show ?case using Suc.IH [OF inv] t by simp
qed

end
