(* ===== verification/Udp_Port.thy ===== *)
theory Udp_Port
  imports LW_Prelude
begin

text \<open>
  The UDP socket as the two TFTP clients use it. smoltcp's socket is a vendored library: a
  poll of a client is given the answers the socket would give to the calls the client may
  make (\<open>udp_env\<close>), and returns the calls it did make that change the socket
  (\<open>udp_act\<close>), in order.
\<close>

datatype ip_addr = IpUnspecified | Ipv4 u32

record endpoint =
  ep_addr :: ip_addr
  ep_port :: u16

record udp_env =
  is_open :: bool
  bind_ok :: bool
  can_send :: bool
  send_ok :: bool
  can_recv :: bool
  recv :: "(u8 list \<times> endpoint) option"

datatype udp_act = UBind u16 | URecv | USend "u8 list" endpoint | UClose

section \<open>TFTP packets\<close>

definition TFTP_PORT :: u16 where [src_consts]: "TFTP_PORT = 6969"
definition OPCODE_RRQ :: u8 where [src_consts]: "OPCODE_RRQ = 1"
definition OPCODE_DATA :: u8 where [src_consts]: "OPCODE_DATA = 3"
definition OPCODE_ACK :: u8 where [src_consts]: "OPCODE_ACK = 4"
definition OPCODE_ERROR :: u8 where [src_consts]: "OPCODE_ERROR = 5"

definition octet_mode :: "u8 list" where
  "octet_mode = [0x6F, 0x63, 0x74, 0x65, 0x74]"

definition rrq_packet :: "u8 list \<Rightarrow> u8 list" where
  "rrq_packet name = [0, OPCODE_RRQ] @ name @ [0] @ octet_mode @ [0]"

text \<open>A DATA packet as a server sends it.\<close>

definition data_packet :: "u16 \<Rightarrow> u8 list \<Rightarrow> u8 list" where
  "data_packet blk body = [0, OPCODE_DATA, ucast (drop_bit 8 blk), ucast blk] @ body"


section \<open>A server that sends one file\<close>

text \<open>The \<open>k\<close>-th block of a file, counted from 1, and a socket that delivers such blocks only.\<close>

definition chunk :: "u8 list \<Rightarrow> nat \<Rightarrow> u8 list" where
  "chunk F k = take 512 (drop ((k - 1) * 512) F)"

definition serves :: "u8 list \<Rightarrow> udp_env \<Rightarrow> bool" where
  "serves F env \<longleftrightarrow> (\<forall>data ep. recv env = Some (data, ep) \<longrightarrow> 4 \<le> length data \<longrightarrow> data ! 1 = OPCODE_DATA \<longrightarrow>
     (let k = unat (u16_be (data ! 2) (data ! 3)) in
        1 \<le> k \<and> k \<le> length F div 512 + 1 \<and> drop 4 data = chunk F k))"

lemma append_chunk:
  assumes "acc = take (length acc) F" "512 dvd length acc" "length acc \<le> length F"
  shows "acc @ chunk F (length acc div 512 + 1) = take (length acc + 512) F"
proof -
  have "length acc div 512 * 512 = length acc" using assms(2) by simp
  then show ?thesis using assms(1) by (simp add: chunk_def take_add)
qed

end
