(* ===== verification/Tftp_Flash.thy ===== *)
theory Tftp_Flash
  imports Flash_Job Udp_Port
begin

text \<open>
  \<^verbatim>\<open>src/tftp_flash.rs\<close>: the client that fetches a bitstream over TFTP and streams it
  into the application region a sector at a time.
\<close>

unbundle bit_operations_syntax

definition BLOCK :: nat where [src_consts]: "BLOCK = 512"
definition TIMEOUT_MS :: int where [src_consts]: "TIMEOUT_MS = 8000"
definition LOCAL_PORT :: u16 where [src_consts]: "LOCAL_PORT = 6901"

datatype loader_state = LIdle | LSendRrq | LWaitData | LDone | LFailed

record loader =
  lstate :: loader_state
  server :: u32
  server_tid :: u16
  block :: u16
  deadline_ms :: int
  filename :: "u8 list"
  filename_len :: nat
  base :: u32
  written :: u32
  sectors :: u32
  stage :: "u8 list"
  stage_len :: nat
  lerror :: "flash_error option"
  bad_preamble :: bool

definition loader_new :: loader where
  "loader_new = \<lparr>lstate = LIdle, server = 0, server_tid = 0, block = 0, deadline_ms = 0,
     filename = replicate 96 0, filename_len = 0, base = APP_BASE, written = 0, sectors = 0,
     stage = replicate 4096 0, stage_len = 0, lerror = None, bad_preamble = False\<rparr>"

text \<open>The region check comes first and the name check after the counters are reset.\<close>

definition loader_start ::
  "'s spi_ops \<Rightarrow> u32 \<Rightarrow> u8 list \<Rightarrow> 's world \<Rightarrow> loader \<Rightarrow> (flash_error + unit) \<times> loader" where
  "loader_start ops srv name w l =
     (case region_is_writable ops APP_BASE APP_LEN w of
        Inl e \<Rightarrow> (Inl e, l)
      | Inr _ \<Rightarrow>
         (let l1 = l\<lparr>server := srv, server_tid := 0, block := 1, base := APP_BASE, written := 0,
              sectors := 0, stage_len := 0, lerror := None, bad_preamble := False\<rparr> in
          if length name > length (filename l1) then (Inl NameTooLong, l1)
          else (Inr (), l1\<lparr>filename := splice 0 name (filename l1),
                  filename_len := length name, lstate := LSendRrq\<rparr>)))"

definition loader_is_active :: "loader \<Rightarrow> bool" where
  "loader_is_active l \<longleftrightarrow> lstate l = LSendRrq \<or> lstate l = LWaitData"

definition loader_is_done :: "loader \<Rightarrow> bool" where
  "loader_is_done l \<longleftrightarrow> lstate l = LDone"

definition state_str :: "loader \<Rightarrow> string" where
  "state_str l =
     (case lstate l of
        LIdle \<Rightarrow> ''idle'' | LSendRrq \<Rightarrow> ''requesting'' | LWaitData \<Rightarrow> ''writing'' | LDone \<Rightarrow> ''done''
      | LFailed \<Rightarrow> if bad_preamble l then ''failed: not a bitstream'' else ''failed'')"

definition percent_of_region :: "loader \<Rightarrow> u32" where
  "percent_of_region l = written l div max (APP_LEN div 100) 1"

section \<open>Flushing a sector\<close>

function program_pages ::
  "'s spi_ops \<Rightarrow> u32 \<Rightarrow> u8 list \<Rightarrow> nat \<Rightarrow> ('s world, flash_error, unit) comp" where
  "program_pages ops addr st off =
     (if off < 4096 then
        (let n = min 256 (4096 - off) in
         andThen (program_page ops (addr + of_nat off) (take n (drop off st)))
           (\<lambda>_. program_pages ops addr st (off + n)))
      else ret ())"
  by pat_completeness auto
termination
  by (relation "measure (\<lambda>(_, _, _, off). 4096 - off)") auto

declare program_pages.simps [simp del]

definition pad_stage :: "loader \<Rightarrow> u8 list" where
  "pad_stage l = take (stage_len l) (stage l) @ replicate (length (stage l) - stage_len l) 0xFF"

definition sector_addr :: "loader \<Rightarrow> u32" where
  "sector_addr l = base l + sectors l * SECTOR"

definition flush_comp :: "'s spi_ops \<Rightarrow> loader \<Rightarrow> ('s world, flash_error, unit) comp" where
  "flush_comp ops l =
     (let addr = sector_addr l; st = pad_stage l in
      andThen (erase_sector ops addr) (\<lambda>_.
      andThen (program_pages ops addr st 0) (\<lambda>_.
      check (\<lambda>w. if list_ex (\<lambda>i. read_byte ops w (addr + of_nat i) \<noteq> st ! i) [0..<stage_len l]
                 then Inl Mismatch else Inr ()))))"

definition flush ::
  "'s spi_ops \<Rightarrow> loader \<Rightarrow> 's world \<Rightarrow> ((flash_error + unit) \<times> loader \<times> 's world) option" where
  "flush ops l w =
     (if stage_len l = 0 then Some (Inr (), l, w)
      else let l1 = l\<lparr>stage := pad_stage l\<rparr> in
        case flush_comp ops l w of
          None \<Rightarrow> None
        | Some (Inl e, w') \<Rightarrow> Some (Inl e, l1, w')
        | Some (Inr _, w') \<Rightarrow> Some (Inr (), l1\<lparr>sectors := sectors l + 1, stage_len := 0\<rparr>, w'))"

section \<open>The state machine\<close>

definition poll_send_rrq :: "udp_env \<Rightarrow> int \<Rightarrow> loader \<Rightarrow> loader \<times> udp_act list" where
  "poll_send_rrq env time_ms l =
     (if \<not> is_open env \<and> \<not> bind_ok env then (l\<lparr>lstate := LFailed\<rparr>, [UBind LOCAL_PORT])
      else
       let acts = (if is_open env then [] else [UBind LOCAL_PORT]) in
       if can_send env then
         (let pkt = rrq_packet (take (filename_len l) (filename l));
              acts' = acts @ [USend pkt \<lparr>ep_addr = Ipv4 (server l), ep_port = TFTP_PORT\<rparr>] in
          if send_ok env
          then (l\<lparr>deadline_ms := time_ms + TIMEOUT_MS, lstate := LWaitData\<rparr>, acts')
          else (l, acts'))
       else (l, acts))"

definition starts_with_sync :: "u8 list \<Rightarrow> bool" where
  "starts_with_sync payload =
     list_ex (\<lambda>i. take 2 (drop i (take 8 payload)) = [0xBD, 0xB3]) [0..<7]"

text \<open>A DATA block in sequence: \<open>payload\<close> is at most one block long.\<close>

definition take_block :: "u8 list \<Rightarrow> loader \<Rightarrow> loader" where
  "take_block payload l =
     (let n = min (length payload) (4096 - stage_len l) in
      l\<lparr>stage := splice (stage_len l) (take n payload) (stage l),
        stage_len := stage_len l + n, written := written l + of_nat n\<rparr>)"

definition ack_packet :: "u8 list \<Rightarrow> u8 list" where
  "ack_packet data = [0, OPCODE_ACK, data ! 2, data ! 3]"

definition accept_block ::
  "'s spi_ops \<Rightarrow> int \<Rightarrow> u8 list \<Rightarrow> ip_addr \<Rightarrow> loader \<Rightarrow> 's world
    \<Rightarrow> (bool \<times> loader \<times> udp_act list \<times> 's world) option" where
  "accept_block ops time_ms data addr l w =
     (let payload = take BLOCK (drop 4 data) in
      if written l = 0 \<and> \<not> starts_with_sync payload
      then Some (False, l\<lparr>bad_preamble := True, lstate := LFailed\<rparr>, [UClose], w)
      else
       let l1 = take_block payload l in
       if written l1 > APP_LEN
       then Some (False, l1\<lparr>lerror := Some Forbidden, lstate := LFailed\<rparr>, [UClose], w)
       else
        let final = length payload < BLOCK;
            ack = USend (ack_packet data) \<lparr>ep_addr = addr, ep_port = server_tid l1\<rparr> in
        case (if stage_len l1 = 4096 \<or> final then flush ops l1 w else Some (Inr (), l1, w)) of
          None \<Rightarrow> None
        | Some (Inl e, l2, w') \<Rightarrow>
            Some (False, l2\<lparr>lerror := Some e, lstate := LFailed\<rparr>, [UClose], w')
        | Some (Inr _, l2, w') \<Rightarrow>
            if final then Some (True, l2\<lparr>lstate := LDone\<rparr>, [ack], w')
            else Some (False, l2\<lparr>block := block l2 + 1, deadline_ms := time_ms + TIMEOUT_MS\<rparr>,
                   [ack], w'))"

definition poll_wait_data ::
  "'s spi_ops \<Rightarrow> udp_env \<Rightarrow> int \<Rightarrow> loader \<Rightarrow> 's world
    \<Rightarrow> (bool \<times> loader \<times> udp_act list \<times> 's world) option" where
  "poll_wait_data ops env time_ms l w =
     (if time_ms > deadline_ms l then Some (False, l\<lparr>lstate := LFailed\<rparr>, [UClose], w)
      else if \<not> can_recv env then Some (False, l, [], w)
      else case recv env of
        None \<Rightarrow> Some (False, l, [URecv], w)
      | Some (data, ep) \<Rightarrow>
         if length data < 4 then Some (False, l, [URecv], w)
         else if data ! 1 = OPCODE_ERROR
           then Some (False, l\<lparr>lstate := LFailed\<rparr>, [URecv, UClose], w)
         else if data ! 1 \<noteq> OPCODE_DATA \<or> u16_be (data ! 2) (data ! 3) \<noteq> block l
           then Some (False, l, [URecv], w)
         else
          let l1 = (if server_tid l = 0 then l\<lparr>server_tid := ep_port ep\<rparr> else l) in
          case accept_block ops time_ms data (ep_addr ep) l1 w of
            None \<Rightarrow> None
          | Some (done, l2, acts, w') \<Rightarrow> Some (done, l2, URecv # acts, w'))"

definition loader_poll ::
  "'s spi_ops \<Rightarrow> udp_env \<Rightarrow> int \<Rightarrow> loader \<Rightarrow> 's world
    \<Rightarrow> (bool \<times> loader \<times> udp_act list \<times> 's world) option" where
  "loader_poll ops env time_ms l w =
     (case lstate l of
        LSendRrq \<Rightarrow> (case poll_send_rrq env time_ms l of (l', acts) \<Rightarrow> Some (False, l', acts, w))
      | LWaitData \<Rightarrow> poll_wait_data ops env time_ms l w
      | _ \<Rightarrow> Some (False, l, [], w))"

end
