(* ===== verification/Flash_System.thy ===== *)
theory Flash_System
  imports Tftp_Flash
begin

text \<open>
  The flash side of the firmware as a transition system: HTTP handlers queue jobs and
  start fetches, the main loop ticks, the network handler polls the fetch. Whatever order
  these run in and whatever the chip and the TFTP server answer, nothing outside the
  application and scratch regions is ever erased or programmed.
\<close>

section \<open>A flush keeps what erase and program keep\<close>

lemma keeps_program_pages:
  assumes "\<And>off d. off < 4096 \<Longrightarrow> keeps P (program_page ops (addr + of_nat off) d)"
  shows "keeps P (program_pages ops addr st off)"
  using assms
proof (induction ops addr st off rule: program_pages.induct)
  case (1 ops addr st off)
  show ?case
  proof (cases "off < 4096")
    case True
    then show ?thesis
      by (subst program_pages.simps) (auto simp: Let_def intro!: keeps_andThen 1)
  next
    case False
    then show ?thesis by (subst program_pages.simps) (simp add: keeps_ret)
  qed
qed

lemma keep_flush:
  assumes e: "keeps P (erase_sector ops (sector_addr l))"
    and p: "\<And>off d. off < 4096 \<Longrightarrow> keeps P (program_page ops (sector_addr l + of_nat off) d)"
    and w: "P w" and f: "flush ops l w = Some (r, l', w')"
  shows "P w'"
proof -
  have k: "keeps P (flush_comp ops l)"
    unfolding flush_comp_def Let_def by (intro preserves keeps_program_pages e p)
  show ?thesis
  proof (cases "stage_len l = 0")
    case True
    with f w show ?thesis by (simp add: flush_def)
  next
    case False
    with f obtain r' where "flush_comp ops l w = Some (r', w')"
      by (auto simp: flush_def Let_def split: option.splits sum.splits)
    then show ?thesis by (rule keepsD [OF k w])
  qed
qed

text \<open>A poll touches the chip only through a flush of the block it has just staged.\<close>

lemma accept_block_world:
  assumes "accept_block ops t data addr l w = Some (d, l', acts, w')"
  shows "w' = w \<or> (\<exists>r l2. flush ops (take_block (take BLOCK (drop 4 data)) l) w = Some (r, l2, w'))"
  using assms by (auto simp: accept_block_def Let_def split: if_splits option.splits sum.splits)

lemma poll_wait_data_world:
  assumes "poll_wait_data ops env t l w = Some (d, l', acts, w')"
  shows "w' = w \<or> (\<exists>data l1 r l2. base l1 = base l \<and> sectors l1 = sectors l \<and>
    flush ops (take_block (take BLOCK (drop 4 data)) l1) w = Some (r, l2, w'))"
proof (cases "w' = w")
  case False
  then have "\<exists>data addr l1 acts'. accept_block ops t data addr l1 w = Some (d, l', acts', w') \<and>
      base l1 = base l \<and> sectors l1 = sectors l"
    using assms by (auto simp: poll_wait_data_def Let_def split: if_splits option.splits prod.splits)
      (intro exI conjI, assumption, simp_all)+
  then obtain data addr l1 acts' where
    acc: "accept_block ops t data addr l1 w = Some (d, l', acts', w')"
    and b: "base l1 = base l" "sectors l1 = sectors l" by blast
  from accept_block_world [OF acc] False b show ?thesis by blast
qed simp

lemma sector_addr_take_block [simp]: "sector_addr (take_block payload l) = sector_addr l"
  by (simp add: sector_addr_def take_block_def Let_def)

lemma keep_poll:
  assumes e: "keeps P (erase_sector ops (sector_addr l))"
    and p: "\<And>off d. off < 4096 \<Longrightarrow> keeps P (program_page ops (sector_addr l + of_nat off) d)"
    and w: "P w" and poll: "loader_poll ops env t l w = Some (d, l', acts, w')"
  shows "P w'"
proof (cases "lstate l = LWaitData")
  case True
  with poll have "poll_wait_data ops env t l w = Some (d, l', acts, w')"
    by (simp add: loader_poll_def)
  from poll_wait_data_world [OF this] show ?thesis
  proof (elim disjE exE conjE)
    fix data l1 r l2
    assume l1: "base l1 = base l" "sectors l1 = sectors l"
      and f: "flush ops (take_block (take BLOCK (drop 4 data)) l1) w = Some (r, l2, w')"
    have sa: "sector_addr (take_block (take BLOCK (drop 4 data)) l1) = sector_addr l"
      using l1 by (simp add: sector_addr_def take_block_def Let_def)
    show "P w'" by (rule keep_flush [where P = P, OF _ _ w f]) (simp_all only: sa e p)
  qed (simp add: w)
next
  case False
  with poll w show ?thesis
    by (auto simp: loader_poll_def split: loader_state.splits prod.splits)
qed

section \<open>The transition system\<close>

record 's flash_sys =
  fs_job :: job
  fs_loader :: loader
  fs_world :: "'s world"

text \<open>What \<^verbatim>\<open>api_flash_drive\<close> does to the part: SR2 or SR3 written, between two readings.\<close>

definition drive_status :: "'s spi_ops \<Rightarrow> bool \<Rightarrow> u8 \<Rightarrow> 's world \<Rightarrow> 's world" where
  "drive_status ops sr2 want w =
     (let w1 = snd (read_status_regs ops w);
          w2 = snd (if sr2 then write_status2 ops want w1 else write_status3 ops want w1) in
      snd (read_status_regs ops w2))"

text \<open>
  One call into the flash code. A fetch is started by the HTTP handler only when none is
  active; everything else may happen at any time, with any arguments.
\<close>

inductive flash_step :: "'s spi_ops \<Rightarrow> 's flash_sys \<Rightarrow> 's flash_sys \<Rightarrow> bool" for ops where
  step_queue: "queue ops kind addr len (fs_world s) (fs_job s) = (r, job') \<Longrightarrow>
     flash_step ops s (s\<lparr>fs_job := job'\<rparr>)"
| step_tick: "tick ops (fs_job s) (fs_world s) = Some (job', w') \<Longrightarrow>
     flash_step ops s (s\<lparr>fs_job := job', fs_world := w'\<rparr>)"
| step_start: "\<not> loader_is_active (fs_loader s) \<Longrightarrow>
     loader_start ops srv name (fs_world s) (fs_loader s) = (r, l') \<Longrightarrow>
     flash_step ops s (s\<lparr>fs_loader := l'\<rparr>)"
| step_poll: "loader_poll ops env t (fs_loader s) (fs_world s) = Some (d, l', acts, w') \<Longrightarrow>
     flash_step ops s (s\<lparr>fs_loader := l', fs_world := w'\<rparr>)"
| step_drive: "flash_step ops s (s\<lparr>fs_world := drive_status ops sr2 want (fs_world s)\<rparr>)"

inductive flash_reach :: "'s spi_ops \<Rightarrow> 's \<Rightarrow> 's flash_sys \<Rightarrow> bool" for ops c where
  boot: "flash_reach ops c \<lparr>fs_job = JOB_init, fs_loader = loader_new,
     fs_world = \<lparr>chip = c, wire = []\<rparr>\<rparr>"
| run: "flash_reach ops c s \<Longrightarrow> flash_step ops s s' \<Longrightarrow> flash_reach ops c s'"

lemma keep_drive_status:
  assumes inv: "spi_invariant ops A P" and st: "\<And>t. status_txn t \<Longrightarrow> A t" and w: "P w"
  shows "P (drive_status ops sr2 want w)"
proof -
  have a: "A [0x15, 0]" "A [0x11, want]" "A [0x31, want]" by (rule st, simp add: status_txn_def)+
  note r = spi_invariant.keep_read_status_regs [OF inv a(1)]
  note k = spi_invariant.keep_write_status [OF inv]
  show ?thesis using r k [OF a(2)] k [OF a(3)] w
    by (simp add: drive_status_def Let_def write_status2_def write_status3_def)
qed

lemma flash_step_world:
  assumes st: "flash_step ops s s'" and w: "P (fs_world s)"
    and e: "\<And>a. keeps P (erase_sector ops a)" and p: "\<And>a d. keeps P (program_page ops a d)"
    and inv: "spi_invariant ops A P" and status: "\<And>t. status_txn t \<Longrightarrow> A t"
  shows "P (fs_world s')"
  using st
proof cases
  case (step_tick job' w')
  then show ?thesis using spi_invariant.keep_tick [OF inv e p w] by simp
next
  case (step_poll env t d l' acts w')
  then show ?thesis using keep_poll [OF e p w] by simp
next
  case (step_drive sr2 want)
  then show ?thesis using keep_drive_status [OF inv status w] by simp
qed (use w in simp_all)

lemma reach_world:
  assumes "flash_reach ops c s" and "P \<lparr>chip = c, wire = []\<rparr>"
    and "\<And>a. keeps P (erase_sector ops a)" and "\<And>a d. keeps P (program_page ops a d)"
    and "spi_invariant ops A P" and "\<And>t. status_txn t \<Longrightarrow> A t"
  shows "P (fs_world s)"
  using assms(1)
proof induction
  case boot
  show ?case using assms(2) by simp
next
  case (run s s')
  then show ?case using flash_step_world [OF run(2) run(3) assms(3-6)] by simp
qed

lemma reach_wire_ok: "flash_reach ops c s \<Longrightarrow> wire_ok (fs_world s)"
  by (rule reach_world [OF _ _ keeps_wire_erase keeps_wire_program bus.spi_invariant_axioms])
    (simp_all add: wire_ok_def status_txn_ok)

section \<open>The chip's side of the contract\<close>

text \<open>
  The datasheet's frame law: an exchange the policy allows leaves every byte it does not
  address as it was, and neither configuring the SPI master nor reading the timer changes
  the flash at all.
\<close>

definition chip_frame :: "'s spi_ops \<Rightarrow> bool" where
  "chip_frame ops \<longleftrightarrow>
     (\<forall>w a. read_byte ops (snd (configure_master ops w)) a = read_byte ops w a) \<and>
     (\<forall>w a. read_byte ops (snd (timer_ticks ops w)) a = read_byte ops w a) \<and>
     (\<forall>w t a. txn_ok t \<longrightarrow> unat a \<notin> set (touched t) \<longrightarrow>
        read_byte ops (snd (transact ops t w)) a = read_byte ops w a)"

text \<open>
  Under that law, whatever is proved of the addresses a predicate's exchanges touch becomes
  a fact about memory: \<open>S\<close> is a set of bytes none of the allowed exchanges touches.
\<close>

lemma frame_invariant:
  assumes "chip_frame ops"
  shows "spi_invariant ops (\<lambda>t. txn_ok t \<and> set (touched t) \<inter> S = {})
    (\<lambda>w. \<forall>a. unat a \<in> S \<longrightarrow> read_byte ops w a = m a)"
proof
  fix w t
  let ?P = "\<lambda>w. \<forall>a. unat a \<in> S \<longrightarrow> read_byte ops w a = m a"
  show "?P w \<Longrightarrow> ?P (snd (configure_master ops w))" "?P w \<Longrightarrow> ?P (snd (timer_ticks ops w))"
    using assms by (simp_all add: chip_frame_def)
  show "?P (snd (transact ops t w))" if t: "txn_ok t \<and> set (touched t) \<inter> S = {}" and P: "?P w"
  proof (intro allI impI)
    fix a :: u32 assume a: "unat a \<in> S"
    with t have "unat a \<notin> set (touched t)" by blast
    with assms t have "read_byte ops (snd (transact ops t w)) a = read_byte ops w a"
      by (simp add: chip_frame_def)
    with P a show "read_byte ops (snd (transact ops t w)) a = m a" by simp
  qed
  show "t \<in> set harmless \<Longrightarrow> txn_ok t \<and> set (touched t) \<inter> S = {}"
    by (auto simp: harmless_def)
qed

lemma reach_protected:
  assumes reach: "flash_reach ops c s" and law: "chip_frame ops" and prot: "protected_byte (unat a)"
  shows "read_byte ops (fs_world s) a = op_mmap ops c a"
proof -
  let ?S = "Collect protected_byte"
  let ?P = "\<lambda>w. \<forall>a. unat a \<in> ?S \<longrightarrow> read_byte ops w a = op_mmap ops c a"
  note inv = frame_invariant [OF law, of ?S "op_mmap ops c"]
  have free: "txn_ok t \<and> set (touched t) \<inter> ?S = {}" if "txn_ok t" for t
    using that touched_not_protected by auto
  have "keeps ?P (erase_sector ops a)" for a
    by (rule spi_invariant.keeps_erase_sector [OF inv]) (rule free, rule erase_txn_ok)
  moreover have "keeps ?P (program_page ops a d)" for a d
    by (rule spi_invariant.keeps_program_page [OF inv]) (rule free, rule program_txn_ok)
  ultimately have "?P (fs_world s)"
    by (intro reach_world [OF reach _ _ _ inv]) (simp_all add: read_byte_def status_txn_ok)
  then show ?thesis using prot by simp
qed

end
