(* ===== verification/Tftp_Stream.thy ===== *)
theory Tftp_Stream
  imports Flash_System
begin

text \<open>
  What a fetch leaves in flash: the bytes of the accepted blocks, in order, whatever else
  arrives on the socket in between. The invariant ties the flushed sectors and the staging
  buffer to the list of bytes accepted so far.
\<close>

unbundle bit_operations_syntax

section \<open>A flush writes its sector and nothing else\<close>

definition sector_of :: "u32 \<Rightarrow> nat set" where
  "sector_of a = {unat a div 4096 * 4096 ..< unat a div 4096 * 4096 + 4096}"

lemma touched_in_sector:
  assumes "unat a < 2 ^ 24" "t = CMD_SECTOR_ERASE # send_addr a \<or> t = CMD_PAGE_PROGRAM # send_addr a @ d"
  shows "set (touched t) \<subseteq> sector_of a"
proof -
  obtain x y z where s: "send_addr a = [x, y, z]" by (rule send_addr_cases)
  note a24 = addr24_send_addr [OF assms(1) s]
  have "unat a div 256 * 256 + i mod 256 \<in> sector_of a" for i
  proof -
    have "unat a div 256 div 16 = unat a div 4096" by (simp flip: div_mult2_eq)
    then have "unat a div 4096 * 16 \<le> unat a div 256 \<and> unat a div 256 < unat a div 4096 * 16 + 16"
      using div_mult_mod_eq [of "unat a div 256" 16] by (simp add: less_Suc_eq_le)
    moreover have "i mod 256 < 256" by simp
    ultimately show ?thesis unfolding sector_of_def atLeastLessThan_iff by linarith
  qed
  then show ?thesis using assms(2) s a24
    by (auto simp: sector_of_def CMD_SECTOR_ERASE_def CMD_PAGE_PROGRAM_def)
qed

lemma sector_of_page:
  assumes "unat a mod 4096 = 0" "off < 4096"
  shows "sector_of (a + of_nat off) = sector_of a"
proof -
  have "unat a + off < 4294967296"
  proof -
    have "unat a div 4096 < 1048576" using unat_u32_less [of a] by (simp add: div_less_iff_less_mult)
    moreover have "unat a = unat a div 4096 * 4096" using assms(1) by auto
    ultimately show ?thesis using assms(2) by linarith
  qed
  then have "unat (a + of_nat off) = unat a + off"
    using assms(2) by (simp add: unat_word_ariths unat_of_nat)
  moreover have "(unat a + off) div 4096 = unat a div 4096"
    using assms by (auto elim!: dvdE)
  ultimately show ?thesis by (simp add: sector_of_def)
qed

lemma sector_addr_aligned:
  assumes "base l = 0"
  shows "unat (sector_addr l) mod 4096 = 0"
proof -
  have "unat (sectors l * SECTOR) mod 4096 = unat (sectors l) * 4096 mod 4294967296 mod 4096"
    by (simp add: SECTOR_def unat_word_ariths)
  also have "\<dots> = 0" by (subst mod_mod_cancel) simp_all
  finally show ?thesis using assms by (simp add: sector_addr_def)
qed

lemma flush_frame:
  assumes law: "chip_frame ops" and al: "unat (sector_addr l) mod 4096 = 0"
    and f: "flush ops l w = Some (r, l', w')" and out: "unat a \<notin> sector_of (sector_addr l)"
  shows "read_byte ops w' a = read_byte ops w a"
proof -
  let ?S = "- sector_of (sector_addr l)"
  let ?P = "\<lambda>v. \<forall>b. unat b \<in> ?S \<longrightarrow> read_byte ops v b = read_byte ops w b"
  note inv = frame_invariant [OF law, of ?S "read_byte ops w"]
  have small: "unat b < 2 ^ 24" if "open_span (unat b) n" "0 < n" for b :: u32 and n
    using that by (auto simp: open_span_def)
  have e: "keeps ?P (erase_sector ops (sector_addr l))"
  proof (rule spi_invariant.keeps_erase_sector [OF inv])
    fix v assume r: "region_is_writable ops (sector_addr l) SECTOR v = Inr ()"
    have "unat (sector_addr l) < 2 ^ 24"
      using writable_open_span [OF r] by (intro small [of _ 4096]) (simp_all add: SECTOR_def)
    with erase_txn_ok [OF r] touched_in_sector
    show "txn_ok (CMD_SECTOR_ERASE # send_addr (sector_addr l)) \<and>
        set (touched (CMD_SECTOR_ERASE # send_addr (sector_addr l))) \<inter> ?S = {}" by blast
  qed
  have p: "keeps ?P (program_page ops (sector_addr l + of_nat off) d)" if off: "off < 4096" for off d
  proof (rule spi_invariant.keeps_program_page [OF inv])
    let ?a = "sector_addr l + of_nat off"
    fix v assume d: "d \<noteq> []" "unat (?a mod PAGE) + length d \<le> unat PAGE"
      and r: "region_is_writable ops (?a AND NOT (SECTOR - 1)) SECTOR v = Inr ()"
    have "open_span (unat ?a div 4096 * 4096) 4096"
      using writable_open_span [OF r] unfolding unat_sector_of by (simp add: SECTOR_def)
    then have "unat ?a div 4096 * 4096 \<le> 0x37F000" by (auto simp: open_span_def)
    then have "unat ?a < 2 ^ 24" using div_mult_mod_eq [of "unat ?a" 4096] by simp
    from touched_in_sector [OF this] sector_of_page [OF al off] program_txn_ok [OF r d]
    show "txn_ok (CMD_PAGE_PROGRAM # send_addr ?a @ d) \<and>
        set (touched (CMD_PAGE_PROGRAM # send_addr ?a @ d)) \<inter> ?S = {}" by blast
  qed
  have "?P w'" by (rule keep_flush [where P = ?P, OF e p _ f]) simp_all
  then show ?thesis using out by simp
qed

lemma flush_content:
  assumes "flush ops l w = Some (Inr (), l', w')" and "i < stage_len l" and "stage_len l \<le> length (stage l)"
  shows "read_byte ops w' (sector_addr l + of_nat i) = stage l ! i"
proof -
  have ne: "stage_len l \<noteq> 0" using assms(2) by simp
  with assms(1) have "flush_comp ops l w = Some (Inr (), w')"
    by (auto simp: flush_def Let_def split: option.splits sum.splits)
  then have "\<not> list_ex (\<lambda>i. read_byte ops w' (sector_addr l + of_nat i) \<noteq> pad_stage l ! i) [0..<stage_len l]"
    by (auto simp: flush_comp_def Let_def andThen_Inr split: if_splits)
  then have "read_byte ops w' (sector_addr l + of_nat i) = pad_stage l ! i"
    using assms(2) by (auto simp: list_ex_iff)
  then show ?thesis using assms(2,3) by (simp add: pad_stage_def nth_append)
qed

lemma flush_loader:
  "flush ops l w = Some (Inr (), l', w') \<Longrightarrow> stage_len l \<noteq> 0 \<Longrightarrow>
     l' = l\<lparr>stage := pad_stage l, sectors := sectors l + 1, stage_len := 0\<rparr>"
  "flush ops l w = Some (r, l', w') \<Longrightarrow> stage_len l = 0 \<Longrightarrow> r = Inr () \<and> l' = l \<and> w' = w"
  by (auto simp: flush_def Let_def split: option.splits sum.splits)


section \<open>Staged bytes\<close>

definition landed :: "'s spi_ops \<Rightarrow> u8 list \<Rightarrow> nat \<Rightarrow> 's world \<Rightarrow> bool" where
  "landed ops acc n w \<longleftrightarrow> (\<forall>i < n. read_byte ops w (of_nat i) = acc ! i)"

text \<open>
  The loader holds the bytes \<open>acc\<close>: whole sectors of them are in flash, the rest is staged.
\<close>

definition holding :: "'s spi_ops \<Rightarrow> u8 list \<Rightarrow> loader \<Rightarrow> 's world \<Rightarrow> bool" where
  "holding ops acc l w \<longleftrightarrow>
     base l = 0 \<and> length (stage l) = 4096 \<and> stage_len l \<le> 4096 \<and>
     length acc = unat (sectors l) * 4096 + stage_len l \<and>
     length acc = unat (written l) \<and> length acc \<le> 0x100000 \<and>
     take (stage_len l) (stage l) = drop (unat (sectors l) * 4096) acc \<and>
     landed ops acc (unat (sectors l) * 4096) w"

lemma landed_append: "n \<le> length acc \<Longrightarrow> landed ops (acc @ p) n w \<longleftrightarrow> landed ops acc n w"
  by (auto simp: landed_def nth_append)

lemma unat_sector_addr:
  assumes "holding ops acc l w"
  shows "unat (sector_addr l) = unat (sectors l) * 4096"
  using assms by (simp add: holding_def sector_addr_def SECTOR_def unat_word_ariths)

lemma flush_holding:
  assumes law: "chip_frame ops" and h: "holding ops acc l w" and ne: "stage_len l \<noteq> 0"
    and f: "flush ops l w = Some (Inr (), l', w')"
  shows "landed ops acc (length acc) w'"
  unfolding landed_def
proof (intro allI impI)
  fix i assume i: "i < length acc"
  let ?s = "unat (sectors l) * 4096"
  note sa = unat_sector_addr [OF h]
  have big: "i < 4294967296" using i h by (simp add: holding_def)
  show "read_byte ops w' (of_nat i) = acc ! i"
  proof (cases "i < ?s")
    case True
    have "unat (of_nat i :: u32) \<notin> sector_of (sector_addr l)"
      using True big by (simp add: sector_of_def sa unat_of_nat)
    from flush_frame [OF law _ f this] True h show ?thesis
      by (simp add: sa holding_def landed_def)
  next
    case False
    define k where "k = i - ?s"
    have k: "i = ?s + k" "k < stage_len l" using False i h by (auto simp: k_def holding_def)
    have "(of_nat i :: u32) = sector_addr l + of_nat k"
    proof -
      have "sector_addr l = of_nat ?s" using sa by (metis of_nat_unat ucast_id)
      then show ?thesis by (simp add: k(1))
    qed
    moreover have "stage l ! k = acc ! i"
    proof -
      have "take (stage_len l) (stage l) ! k = drop ?s acc ! k" using h by (simp add: holding_def)
      then show ?thesis using k i by simp
    qed
    ultimately show ?thesis using flush_content [OF f k(2)] h by (simp add: holding_def)
  qed
qed

lemma take_block_holding:
  assumes h: "holding ops acc l w" and al: "512 dvd length acc" "stage_len l < 4096"
    and p: "length p \<le> 512" and fits: "\<not> written (take_block p l) > APP_LEN"
  shows "holding ops (acc @ p) (take_block p l) w"
    and "stage_len (take_block p l) = stage_len l + length p"
proof -
  have d: "512 dvd stage_len l"
  proof -
    have "512 dvd unat (sectors l) * 4096" by (rule dvd_mult) simp
    then show ?thesis using al(1) h by (simp add: holding_def dvd_add_right_iff)
  qed
  then have room: "stage_len l + length p \<le> 4096" using al(2) p by (auto elim!: dvdE)
  then have n: "min (length p) (4096 - stage_len l) = length p" by simp
  show sl: "stage_len (take_block p l) = stage_len l + length p"
    by (simp add: take_block_def Let_def n)
  have wr: "unat (written (take_block p l)) = length (acc @ p)"
    using h p by (simp add: take_block_def Let_def n holding_def unat_word_ariths unat_of_nat)
  then have "length (acc @ p) \<le> 0x100000"
    using fits by (simp add: APP_LEN_def word_less_nat_alt)
  then show "holding ops (acc @ p) (take_block p l) w"
    using h room wr sl
    by (auto simp: holding_def take_block_def Let_def n landed_append)
qed


section \<open>A fetch\<close>

text \<open>The payload a poll takes off the socket, when it takes one: the DATA block in sequence.\<close>

definition in_sequence :: "udp_env \<Rightarrow> int \<Rightarrow> loader \<Rightarrow> u8 list" where
  "in_sequence env t l =
     (case recv env of
        Some (data, ep) \<Rightarrow>
          if lstate l = LWaitData \<and> t \<le> deadline_ms l \<and> can_recv env \<and> 4 \<le> length data \<and>
             data ! 1 = OPCODE_DATA \<and> u16_be (data ! 2) (data ! 3) = block l
          then take BLOCK (drop 4 data) else []
      | None \<Rightarrow> [])"

definition stored :: "'s spi_ops \<Rightarrow> u8 list \<Rightarrow> 's world \<Rightarrow> bool" where
  "stored ops acc w \<longleftrightarrow>
     length acc \<le> 0x100000 \<and> starts_with_sync (take 512 acc) \<and> landed ops acc (length acc) w"

definition fetching :: "'s spi_ops \<Rightarrow> u8 list \<Rightarrow> loader \<Rightarrow> 's world \<Rightarrow> bool" where
  "fetching ops acc l w \<longleftrightarrow>
     holding ops acc l w \<and> stage_len l < 4096 \<and> 512 dvd length acc \<and>
     block l = of_nat (length acc div 512 + 1) \<and>
     (acc = [] \<or> starts_with_sync (take 512 acc))"

definition stream_inv :: "'s spi_ops \<Rightarrow> u8 list \<Rightarrow> loader \<Rightarrow> 's world \<Rightarrow> bool" where
  "stream_inv ops acc l w =
     (case lstate l of
        LSendRrq \<Rightarrow> fetching ops acc l w \<and> acc = []
      | LWaitData \<Rightarrow> fetching ops acc l w
      | LDone \<Rightarrow> stored ops acc w
      | _ \<Rightarrow> True)"

lemma fetching_upd [simp]:
  "fetching ops acc (l\<lparr>server_tid := x\<rparr>) w = fetching ops acc l w"
  "fetching ops acc (l\<lparr>lstate := s\<rparr>) w = fetching ops acc l w"
  "fetching ops acc (l\<lparr>deadline_ms := y\<rparr>) w = fetching ops acc l w"
  by (simp_all add: fetching_def holding_def)

lemma start_stream_inv:
  "loader_start ops srv name w l = (Inr (), l') \<Longrightarrow> length (stage l) = 4096 \<Longrightarrow> stream_inv ops [] l' w"
  by (auto simp: loader_start_def Let_def stream_inv_def fetching_def holding_def landed_def APP_BASE_def
      split: sum.splits if_splits)

lemma sync_prefix:
  assumes "acc = [] \<or> starts_with_sync (take 512 acc)" "512 dvd length acc"
    and "acc = [] \<Longrightarrow> starts_with_sync p" "length p \<le> 512"
  shows "starts_with_sync (take 512 (acc @ p))"
proof (cases "acc = []")
  case False
  then have "512 \<le> length acc" using assms(2) by (intro dvd_imp_le) auto
  then show ?thesis using False assms(1) by simp
qed (use assms in simp)

lemma flushed_holding:
  assumes law: "chip_frame ops" and h: "holding ops acc l w"
    and f: "(if stage_len l = 4096 \<or> final then flush ops l w else Some (Inr (), l, w)) = Some (Inr (), l', w')"
  shows "final \<Longrightarrow> landed ops acc (length acc) w'"
    and "\<not> final \<Longrightarrow> holding ops acc l' w' \<and> stage_len l' < 4096 \<and> block l' = block l"
proof -
  have f0: "flush ops l w = Some (Inr (), l', w')" if "stage_len l = 4096 \<or> final"
    using f that by simp
  show "landed ops acc (length acc) w'" if final
  proof (cases "stage_len l = 0")
    case True
    then show ?thesis using flush_loader(2) [OF f0 True] that h by (simp add: holding_def)
  next
    case False
    then show ?thesis using flush_holding [OF law h False f0] that by simp
  qed
  show "holding ops acc l' w' \<and> stage_len l' < 4096 \<and> block l' = block l" if nf: "\<not> final"
  proof (cases "stage_len l = 4096")
    case True
    have l': "l' = l\<lparr>stage := pad_stage l, sectors := sectors l + 1, stage_len := 0\<rparr>"
      using flush_loader(1) [OF f0] True by simp
    have sec: "unat (1 + sectors l) = 1 + unat (sectors l)"
      using h by (simp add: holding_def unat_word_ariths)
    have "landed ops acc (length acc) w'" using flush_holding [OF law h _ f0] True by simp
    then show ?thesis using h True
      by (auto simp: l' holding_def sec pad_stage_def algebra_simps)
  next
    case False
    then show ?thesis using f nf h by (simp add: holding_def)
  qed
qed

lemma take_block_block [simp]: "block (take_block p l) = block l"
  by (simp add: take_block_def Let_def)

lemma accept_stream_inv:
  assumes law: "chip_frame ops" and inv: "fetching ops acc l w" and st: "lstate l = LWaitData"
    and a: "accept_block ops t data addr l w = Some (d, l', acts, w')"
  shows "stream_inv ops (acc @ take BLOCK (drop 4 data)) l' w' \<and>
    (lstate l' = LWaitData \<longrightarrow> length (take BLOCK (drop 4 data)) = BLOCK) \<and>
    (lstate l' = LDone \<longrightarrow> length (take BLOCK (drop 4 data)) < BLOCK) \<and> lstate l' \<noteq> LSendRrq"
proof -
  define p where "p = take BLOCK (drop 4 data)"
  have len: "length p \<le> 512" by (simp add: p_def BLOCK_def)
  let ?l1 = "take_block p l"
  have h: "holding ops acc l w" "stage_len l < 4096" "512 dvd length acc"
    "block l = of_nat (length acc div 512 + 1)" "acc = [] \<or> starts_with_sync (take 512 acc)"
    using inv by (auto simp: fetching_def)
  have wr0: "written l = 0 \<longleftrightarrow> acc = []"
    using h(1) by (auto simp: holding_def unat_eq_zero [symmetric])
  show ?thesis
  proof (cases "(written l = 0 \<and> \<not> starts_with_sync p) \<or> written ?l1 > APP_LEN")
    case True
    with a show ?thesis
      by (auto simp: accept_block_def Let_def stream_inv_def p_def [symmetric] split: if_splits)
  next
    case False
    have fits: "\<not> written ?l1 > APP_LEN" using False by blast
    note h1 = take_block_holding [OF h(1,3,2) len fits]
    have sync: "starts_with_sync (take 512 (acc @ p))"
      by (rule sync_prefix [OF h(5,3) _ len]) (use False wr0 in blast)
    let ?F = "if stage_len ?l1 = 4096 \<or> length p < BLOCK then flush ops ?l1 w else Some (Inr (), ?l1, w)"
    obtain r l2 where F: "?F = Some (r, l2, w')"
      using a False by (auto simp: accept_block_def Let_def p_def [symmetric] split: if_splits option.splits sum.splits)
    show ?thesis
    proof (cases r)
      case (Inl e)
      with a F False show ?thesis
        by (auto simp: accept_block_def Let_def stream_inv_def p_def [symmetric] split: if_splits)
    next
      case (Inr u)
      with F have F: "?F = Some (Inr (), l2, w')" by simp
      note fl = flushed_holding [OF law h1(1) F]
      show ?thesis
      proof (cases "length p < BLOCK")
        case True
        with a F False have "lstate l' = LDone"
          by (auto simp: accept_block_def Let_def p_def [symmetric] split: if_splits)
        moreover have "length (acc @ p) \<le> 0x100000" using h1(1) unfolding holding_def by blast
        ultimately show ?thesis using fl(1) True sync
          by (simp add: stream_inv_def stored_def p_def [symmetric])
      next
        case nf: False
        then have pl: "length p = 512" using len by (simp add: BLOCK_def)
        from nf a F False have l': "l' = l2\<lparr>block := block l2 + 1, deadline_ms := t + TIMEOUT_MS\<rparr>"
          by (auto simp: accept_block_def Let_def p_def [symmetric] split: if_splits)
        have "length (acc @ p) div 512 = length acc div 512 + 1" using pl by simp
        then have "block l' = of_nat (length (acc @ p) div 512 + 1)"
          using fl(2) nf h(4) by (simp add: l')
        moreover have "512 dvd length (acc @ p)" using h(3) pl by simp
        moreover have "holding ops (acc @ p) l' w' \<and> stage_len l' < 4096"
          using fl(2) nf by (simp add: l' holding_def)
        ultimately have "fetching ops (acc @ p) l' w'" using sync by (simp add: fetching_def)
        moreover have "lstate l2 = LWaitData"
          using F st by (auto simp: flush_def Let_def take_block_def split: if_splits option.splits sum.splits)
        ultimately show ?thesis using pl unfolding p_def [symmetric]
          by (simp add: stream_inv_def l' BLOCK_def)
      qed
    qed
  qed
qed


text \<open>
  A fetch from its start on: the loader is polled, and only the loader works on the flash.
  The list collects the blocks taken in sequence.
\<close>

inductive fetch :: "'s spi_ops \<Rightarrow> u8 list \<Rightarrow> loader \<Rightarrow> 's world \<Rightarrow> bool" for ops where
  fetch_start: "loader_start ops srv name w l = (Inr (), l') \<Longrightarrow> length (stage l) = 4096 \<Longrightarrow>
     fetch ops [] l' w"
| fetch_poll: "fetch ops acc l w \<Longrightarrow> loader_poll ops env t l w = Some (d, l', acts, w') \<Longrightarrow>
     fetch ops (acc @ in_sequence env t l) l' w'"

lemma poll_wait_in_sequence:
  assumes st: "lstate l = LWaitData" and p: "loader_poll ops env t l w = Some (d, l', acts, w')"
  obtains (idle) "in_sequence env t l = []" "w' = w" "l' = l \<or> lstate l' = LFailed"
  | (block) data ep tid acts' where "in_sequence env t l = take BLOCK (drop 4 data)"
      "recv env = Some (data, ep)" "4 \<le> length data" "data ! 1 = OPCODE_DATA"
      "u16_be (data ! 2) (data ! 3) = block l"
      "accept_block ops t data (ep_addr ep) (l\<lparr>server_tid := tid\<rparr>) w = Some (d, l', acts', w')"
proof (cases "\<exists>data ep. recv env = Some (data, ep) \<and> t \<le> deadline_ms l \<and> can_recv env \<and>
    4 \<le> length data \<and> data ! 1 = OPCODE_DATA \<and> u16_be (data ! 2) (data ! 3) = block l")
  case True
  then obtain data ep where r: "recv env = Some (data, ep)" "t \<le> deadline_ms l" "can_recv env"
    "4 \<le> length data" "data ! 1 = OPCODE_DATA" "u16_be (data ! 2) (data ! 3) = block l" by blast
  let ?l = "l\<lparr>server_tid := if server_tid l = 0 then ep_port ep else server_tid l\<rparr>"
  have "(if server_tid l = 0 then l\<lparr>server_tid := ep_port ep\<rparr> else l) = ?l" by simp
  with p st r obtain acts' where "accept_block ops t data (ep_addr ep) ?l w = Some (d, l', acts', w')"
    by (auto simp: loader_poll_def poll_wait_data_def Let_def OPCODE_DATA_def OPCODE_ERROR_def
        split: option.splits prod.splits if_splits)
  with r st show ?thesis by (intro block) (auto simp: in_sequence_def)
next
  case False
  show ?thesis
  proof (rule idle)
    show "in_sequence env t l = []"
      using False by (auto simp: in_sequence_def split: option.splits)
    show "w' = w" "l' = l \<or> lstate l' = LFailed"
      using p st False
      by (auto simp: loader_poll_def poll_wait_data_def Let_def split: if_splits option.splits prod.splits)
  qed
qed

lemma send_rrq_shape:
  "poll_send_rrq env t l = (l', acts) \<Longrightarrow>
     l' = l \<or> l' = l\<lparr>lstate := LFailed\<rparr> \<or> l' = l\<lparr>deadline_ms := t + TIMEOUT_MS, lstate := LWaitData\<rparr>"
  by (auto simp: poll_send_rrq_def Let_def split: if_splits)

lemma poll_stream_inv:
  assumes law: "chip_frame ops" and inv: "stream_inv ops acc l w"
    and p: "loader_poll ops env t l w = Some (d, l', acts, w')"
  shows "stream_inv ops (acc @ in_sequence env t l) l' w'"
proof (cases "lstate l")
  case LWaitData
  have f: "fetching ops acc l w" using inv LWaitData by (simp add: stream_inv_def)
  from LWaitData p show ?thesis
  proof (cases rule: poll_wait_in_sequence)
    case idle
    then show ?thesis using inv by (auto simp: stream_inv_def)
  next
    case (block data ep tid acts')
    have "fetching ops acc (l\<lparr>server_tid := tid\<rparr>) w" using f by simp
    from accept_stream_inv [OF law this _ block(6)] LWaitData block(1) show ?thesis by simp
  qed
next
  case LSendRrq
  obtain l2 acts2 where r: "poll_send_rrq env t l = (l2, acts2)" by fastforce
  have "in_sequence env t l = []" by (auto simp: in_sequence_def LSendRrq split: option.splits)
  with p LSendRrq r have "in_sequence env t l = []" "w' = w" "l' = l2" by (auto simp: loader_poll_def)
  with send_rrq_shape [OF r] inv LSendRrq show ?thesis
    by (auto simp: stream_inv_def)
qed (use p inv in \<open>auto simp: loader_poll_def in_sequence_def stream_inv_def split: option.splits\<close>)

lemma fetch_stream_inv: "fetch ops acc l w \<Longrightarrow> chip_frame ops \<Longrightarrow> stream_inv ops acc l w"
  by (induction rule: fetch.induct) (blast intro: start_stream_inv poll_stream_inv)+

section \<open>Against a server that sends one file\<close>

inductive fetch_from :: "'s spi_ops \<Rightarrow> u8 list \<Rightarrow> loader \<Rightarrow> 's world \<Rightarrow> bool" for ops F where
  from_start: "loader_start ops srv name w l = (Inr (), l') \<Longrightarrow> length (stage l) = 4096 \<Longrightarrow>
     fetch_from ops F l' w"
| from_poll: "fetch_from ops F l w \<Longrightarrow> serves F env \<Longrightarrow>
     loader_poll ops env t l w = Some (d, l', acts, w') \<Longrightarrow> fetch_from ops F l' w'"

text \<open>The bytes taken so far are a prefix of the file, and all of it once the fetch is done.\<close>

definition prefix_inv :: "u8 list \<Rightarrow> u8 list \<Rightarrow> loader \<Rightarrow> bool" where
  "prefix_inv F acc l \<longleftrightarrow>
     (loader_is_active l \<longrightarrow> acc = take (length acc) F \<and> length acc \<le> length F) \<and>
     (lstate l = LDone \<longrightarrow> acc = F)"

lemma poll_prefix_inv:
  assumes law: "chip_frame ops" and inv: "stream_inv ops acc l w" "prefix_inv F acc l" and srv: "serves F env"
    and p: "loader_poll ops env t l w = Some (d, l', acts, w')"
  shows "prefix_inv F (acc @ in_sequence env t l) l'"
proof (cases "lstate l")
  case LWaitData
  have f: "fetching ops acc l w" using inv LWaitData by (simp add: stream_inv_def)
  from LWaitData p show ?thesis
  proof (cases rule: poll_wait_in_sequence)
    case idle
    then show ?thesis using inv LWaitData by (auto simp: prefix_inv_def loader_is_active_def)
  next
    case (block data ep tid acts')
    let ?p = "take BLOCK (drop 4 data)" and ?k = "length acc div 512 + 1"
    have pre: "acc = take (length acc) F" "length acc \<le> length F" "512 dvd length acc" "length acc \<le> 0x100000"
      using inv(2) f LWaitData by (auto simp: prefix_inv_def loader_is_active_def fetching_def holding_def)
    have "length acc div 512 \<le> 2048" using pre(4) by (simp add: div_le_mono [of "length acc" "0x100000" 512, simplified])
    then have k: "unat (u16_be (data ! 2) (data ! 3)) = ?k"
      using f block(5) by (simp add: fetching_def unat_of_nat del: of_nat_add of_nat_Suc)
    with srv block have "drop 4 data = chunk F ?k" by (auto simp: serves_def Let_def)
    then have pc: "?p = chunk F ?k" by (simp add: chunk_def BLOCK_def)
    with append_chunk [OF pre(1,3,2)] have ap: "acc @ ?p = take (length acc + 512) F" by simp
    then have len: "length (acc @ ?p) = min (length F) (length acc + 512)" by simp
    have "fetching ops acc (l\<lparr>server_tid := tid\<rparr>) w" using f by simp
    from accept_stream_inv [OF law this _ block(6)] LWaitData
    have "lstate l' = LWaitData \<longrightarrow> length ?p = 512" "lstate l' = LDone \<longrightarrow> length ?p < 512" "lstate l' \<noteq> LSendRrq"
      by (auto simp: BLOCK_def)
    then have "length ?p = 512 \<Longrightarrow> length acc + 512 \<le> length F"
      and "length ?p < 512 \<Longrightarrow> length F \<le> length acc + 512"
      using len by auto
    with \<open>lstate l' = LWaitData \<longrightarrow> length ?p = 512\<close> \<open>lstate l' = LDone \<longrightarrow> length ?p < 512\<close>
      \<open>lstate l' \<noteq> LSendRrq\<close> ap len
    show ?thesis unfolding block(1) prefix_inv_def loader_is_active_def
      by (metis min.absorb2 take_all)
  qed
next
  case LSendRrq
  obtain l2 acts2 where r: "poll_send_rrq env t l = (l2, acts2)" by fastforce
  have "in_sequence env t l = []" by (auto simp: in_sequence_def LSendRrq split: option.splits)
  with p LSendRrq r have "in_sequence env t l = []" "l' = l2" by (auto simp: loader_poll_def)
  moreover have "acc = []" using inv(1) LSendRrq by (simp add: stream_inv_def)
  ultimately show ?thesis using send_rrq_shape [OF r] LSendRrq
    by (auto simp: prefix_inv_def loader_is_active_def)
qed (use p inv in \<open>auto simp: loader_poll_def in_sequence_def prefix_inv_def loader_is_active_def split: option.splits\<close>)

lemma fetch_from_inv:
  assumes "fetch_from ops F l w" and law: "chip_frame ops"
  shows "\<exists>acc. fetch ops acc l w \<and> prefix_inv F acc l"
  using assms(1)
proof induction
  case (from_start srv name w l l')
  then have "fetch ops [] l' w" by (rule fetch_start)
  moreover have "lstate l' = LSendRrq"
    using from_start by (auto simp: loader_start_def Let_def split: sum.splits if_splits)
  ultimately show ?case by (intro exI [of _ "[]"]) (simp add: prefix_inv_def)
next
  case (from_poll l w env t d l' acts w')
  then obtain acc where a: "fetch ops acc l w" "prefix_inv F acc l" by blast
  have "fetch ops (acc @ in_sequence env t l) l' w'" by (rule fetch_poll [OF a(1) from_poll(3)])
  moreover have "prefix_inv F (acc @ in_sequence env t l) l'"
    by (rule poll_prefix_inv [OF law fetch_stream_inv [OF a(1) law] a(2) from_poll(2,3)])
  ultimately show ?case by blast
qed

end
