(* ===== verification/Nor_Chip.thy ===== *)
theory Nor_Chip
  imports Tftp_Stream
begin

text \<open>
  A NOR flash part and a timer to run the flash code on: a concrete value of the device
  parameter. A command is collected while chip select is asserted and takes effect when it
  is released; an erase sets a sector to \<^verbatim>\<open>0xFF\<close>, a program clears bits inside one
  page, and the part is never busy. It satisfies the laws the other theories state
  as hypotheses, and the fetch completes on it.
\<close>

unbundle bit_operations_syntax

record nor =
  mem :: "u32 \<Rightarrow> u8"
  latch :: "u8 list"
  tock :: bool

definition nor_program :: "nat \<Rightarrow> u8 list \<Rightarrow> (u32 \<Rightarrow> u8) \<Rightarrow> u32 \<Rightarrow> u8" where
  "nor_program start d m a =
     (let k = (unat a + 256 - start mod 256) mod 256 in
      if unat a div 256 = start div 256 \<and> k < length d then m a AND d ! k else m a)"

fun nor_commit :: "u8 list \<Rightarrow> (u32 \<Rightarrow> u8) \<Rightarrow> u32 \<Rightarrow> u8" where
  "nor_commit (c # x # y # z # d) m a =
     (if c = CMD_SECTOR_ERASE then (if unat a div 4096 = addr24 x y z div 4096 then 0xFF else m a)
      else if c = CMD_PAGE_PROGRAM then nor_program (addr24 x y z) d m a
      else m a)"
| "nor_commit _ m a = m a"

definition nor_ops :: "nor spi_ops" where
  "nor_ops = \<lparr>op_phyconfig = (\<lambda>s. s),
     op_cs = (\<lambda>on s. if on then s\<lparr>latch := []\<rparr> else s\<lparr>mem := nor_commit (latch s) (mem s), latch := []\<rparr>),
     op_xfer = (\<lambda>b s. (0, s\<lparr>latch := latch s @ [b]\<rparr>)),
     op_mmap = mem,
     op_timer = (\<lambda>s. (if tock s then 1 else 0, s\<lparr>tock := \<not> tock s\<rparr>)),
     sys_clk_hz = 40000000\<rparr>"

lemma nor_transfer_all:
  "transfer_all nor_ops bs s = (replicate (length bs) 0, s\<lparr>latch := latch s @ bs\<rparr>)"
  by (induction bs arbitrary: s) (simp_all add: spi_transfer_byte_def nor_ops_def)

lemma nor_transact:
  "transact nor_ops bs w =
     (replicate (length bs) 0,
      w\<lparr>chip := (chip w)\<lparr>mem := nor_commit bs (mem (chip w)), latch := []\<rparr>, wire := wire w @ [bs]\<rparr>)"
proof -
  have "op_cs nor_ops True s = s\<lparr>latch := []\<rparr>"
    "op_cs nor_ops False s = s\<lparr>mem := nor_commit (latch s) (mem s), latch := []\<rparr>" for s
    by (simp_all add: nor_ops_def)
  then show ?thesis by (simp add: transact_def nor_transfer_all)
qed

lemma nor_configure [simp]: "configure_master nor_ops w = ((), w)"
  by (simp add: configure_master_def nor_ops_def)

lemma nor_read_byte: "read_byte nor_ops w a = mem (chip w) a"
  by (simp add: read_byte_def nor_ops_def)

lemma nor_timer:
  "timer_ticks nor_ops w =
     (if tock (chip w) then 39999998 else 39999999, w\<lparr>chip := (chip w)\<lparr>tock := \<not> tock (chip w)\<rparr>\<rparr>)"
  by (simp add: timer_ticks_def nor_ops_def)

section \<open>The laws\<close>

lemma nor_commit_frame: "unat a \<notin> set (touched t) \<Longrightarrow> txn_ok t \<Longrightarrow> nor_commit t m a = m a"
proof (induction t m a rule: nor_commit.induct)
  case (1 c x y z d m a)
  let ?s = "addr24 x y z"
  show ?case
  proof (cases "c = CMD_SECTOR_ERASE")
    case True
    have "unat a = ?s div 4096 * 4096 + unat a mod 4096" if "unat a div 4096 = ?s div 4096"
      using div_mult_mod_eq [of "unat a" 4096] that by simp
    then show ?thesis using 1 True by auto
  next
    case False
    show ?thesis
    proof (rule ccontr)
      let ?k = "(unat a + 256 - ?s mod 256) mod 256"
      assume "nor_commit (c # x # y # z # d) m a \<noteq> m a"
      with False have c: "c = CMD_PAGE_PROGRAM" and k: "unat a div 256 = ?s div 256" "?k < length d"
        by (auto simp: nor_program_def Let_def split: if_splits)
      have "(?s + ?k) mod 256 = (?s mod 256 + ?k) mod 256" by (simp add: mod_add_left_eq)
      also have "\<dots> = (?s mod 256 + (unat a + 256 - ?s mod 256)) mod 256" by (simp add: mod_add_right_eq)
      also have "\<dots> = unat a mod 256" by (simp add: add.commute)
      finally have "unat a = ?s div 256 * 256 + (?s + ?k) mod 256"
        using k(1) div_mult_mod_eq [of "unat a" 256] by simp
      with 1(1) c False k(2) show False by auto
    qed
  qed
qed simp_all

lemma nor_frame: "chip_frame nor_ops"
  by (simp add: chip_frame_def nor_read_byte nor_timer nor_transact nor_commit_frame)

lemma nor_clk [simp]: "sys_clk_hz nor_ops = 40000000"
  by (simp add: nor_ops_def)

lemma nor_timer_runs: "timer_runs nor_ops"
  by (auto simp: timer_runs_def nor_timer read_sr1_def nor_transact)

section \<open>Commands on the part\<close>

lemma nor_wait [simp]:
  "wait_not_busy nor_ops ms w = Some (Inr (), snd (read_sr1 nor_ops (snd (timer_ticks nor_ops w))))"
  by (simp add: wait_not_busy_def Let_def andThen_def nor_timer read_sr1_def nor_transact wait_loop.simps)

lemma nor_sr1 [simp]: "fst (read_sr1 nor_ops w) = 0" "mem (chip (snd (read_sr1 nor_ops w))) = mem (chip w)"
  by (simp_all add: read_sr1_def nor_transact fun_eq_iff)

lemma nor_same_mem [simp]:
  "mem (chip (snd (timer_ticks nor_ops w))) = mem (chip w)"
  "mem (chip (snd (write_enable nor_ops w))) = mem (chip w)"
  "unprotect nor_ops w = Some (Inr 0, snd (read_sr1 nor_ops w))"
  by (simp_all add: nor_timer write_enable_def nor_transact unprotect_def andThen_def fun_eq_iff)

lemma unat_in_sector:
  fixes a :: u32
  assumes "unat a mod 4096 = 0" "i < 4096"
  shows "unat (a + of_nat i) = unat a + i"
proof -
  have "unat a div 4096 < 1048576" using unat_u32_less [of a] by (simp add: div_less_iff_less_mult)
  moreover have "unat a = unat a div 4096 * 4096" using assms(1) by auto
  ultimately have "unat a + i < 4294967296" using assms(2) by linarith
  then show ?thesis using assms(2) by (simp add: unat_word_ariths unat_of_nat)
qed

lemma and_ff: "0xFF AND b = (b :: u8)"
proof -
  have "0xFF AND b = take_bit 8 b" by (simp add: take_bit_eq_mask mask_eq_exp_minus_1 and.commute)
  then show ?thesis by (simp add: take_bit_word_eq_self)
qed

lemma page_gap:
  fixes n :: nat
  assumes "i + n mod 256 < 256"
  shows "(n + i + 256 - n mod 256) mod 256 = i" "(n + i) div 256 = n div 256"
proof -
  define q r where "q = n div 256" and "r = n mod 256"
  have n: "n = q * 256 + r" by (simp add: q_def r_def)
  have r: "i + r < 256" using assms by (simp add: r_def)
  have e: "n + i + 256 - r = i + (q + 1) * 256" by (simp add: n)
  have "(n + i + 256 - r) mod 256 = i" unfolding e mod_mult_self1 using r by simp
  then show "(n + i + 256 - n mod 256) mod 256 = i" by (simp add: r_def)
  have "n + i = q * 256 + (i + r)" by (simp add: n)
  then have "(n + i) div 256 = q" using r by simp
  then show "(n + i) div 256 = n div 256" by (simp add: q_def)
qed

lemma nor_erase:
  assumes "region_is_writable nor_ops addr SECTOR w = Inr ()"
  shows "\<exists>w'. erase_sector nor_ops addr w = Some (Inr (), w') \<and>
    mem (chip w') = (\<lambda>a. if unat a div 4096 = unat addr div 4096 then 0xFF else mem (chip w) a)"
proof -
  obtain x y z where s: "send_addr addr = [x, y, z]" by (rule send_addr_cases)
  have al: "unat addr mod 4096 = 0" using assms by (simp add: region_is_writable_iff)
  have "unat addr < 2 ^ 24"
    using writable_open_span [OF assms] by (auto simp: open_span_def SECTOR_def)
  note a24 = addr24_send_addr [OF this s]
  have "unat (addr + of_nat i) div 4096 = unat addr div 4096" if "i < 4096" for i
    using that al by (auto simp: unat_in_sector elim!: dvdE)
  then show ?thesis using assms
    by (simp add: erase_sector_def andThen_def region_is_blank_def nor_read_byte nor_transact s a24
        list_all_iff SECTOR_def fun_eq_iff)
qed

lemma nor_program_page:
  assumes w: "region_is_writable nor_ops (addr AND NOT (SECTOR - 1)) SECTOR w = Inr ()"
    and d: "d \<noteq> []" "unat (addr mod PAGE) + length d \<le> 256"
    and blank: "mem (chip w) addr = 0xFF"
  shows "\<exists>w'. program_page nor_ops addr d w = Some (Inr (), w') \<and>
    mem (chip w') = nor_program (unat addr) d (mem (chip w))"
proof -
  obtain x y z where s: "send_addr addr = [x, y, z]" by (rule send_addr_cases)
  have "open_span (unat addr div 4096 * 4096) 4096"
    using writable_open_span [OF w] unfolding unat_sector_of by (simp add: SECTOR_def)
  then have "unat addr div 4096 * 4096 \<le> 0x37F000" by (auto simp: open_span_def)
  then have "unat addr < 2 ^ 24" using div_mult_mod_eq [of "unat addr" 4096] by simp
  note a24 = addr24_send_addr [OF this s]
  have "nor_program (unat addr) d (mem (chip w)) addr = mem (chip w) addr AND d ! 0"
  proof -
    have "(unat addr + 256 - unat addr mod 256) mod 256 = 0"
      using page_gap(1) [of 0 "unat addr"] by simp
    then show ?thesis using d(1) by (simp add: nor_program_def)
  qed
  then have "nor_program (unat addr) d (mem (chip w)) addr = d ! 0" using blank and_ff by simp
  then show ?thesis using assms
    by (simp add: program_page_def andThen_def nor_read_byte nor_transact s a24 PAGE_def
        CMD_SECTOR_ERASE_def CMD_PAGE_PROGRAM_def fun_eq_iff)
qed


text \<open>Programming a blank stretch of one page stores the data there.\<close>

lemma nor_program_nth:
  assumes "unat a mod 256 + length d \<le> 256" "i < 256 - unat a mod 256" "unat (a + of_nat i) = unat a + i"
    and "m (a + of_nat i) = 0xFF"
  shows "nor_program (unat a) d m (a + of_nat i) = (if i < length d then d ! i else 0xFF)"
proof -
  have "i + unat a mod 256 < 256" using assms(2) by simp
  note page_gap [OF this]
  then show ?thesis using assms(3,4) and_ff by (simp add: nor_program_def)
qed

lemma nor_program_other:
  "unat a div 256 \<noteq> start div 256 \<Longrightarrow> nor_program start d m a = m a"
  by (simp add: nor_program_def)

text \<open>Whether a region may be written depends on the flash contents alone.\<close>

lemma nor_writable_cong:
  assumes "\<And>a. unat a \<ge> 0x200000 \<Longrightarrow> unat a < 0x200010 \<Longrightarrow> mem (chip w') a = mem (chip w) a"
  shows "region_is_writable nor_ops addr len w' = region_is_writable nor_ops addr len w"
proof -
  have "mem (chip w') (GOLDEN_BASE + k) = mem (chip w) (GOLDEN_BASE + k)"
    "mem (chip w') (GOLDEN_BASE + k + 1) = mem (chip w) (GOLDEN_BASE + k + 1)" if "unat k < 8" for k
    using that by (auto intro!: assms simp: GOLDEN_BASE_def unat_word_ariths)
  note same = this
  have "golden_present nor_ops w' = golden_present nor_ops w"
    unfolding golden_present_def has_sync_def nor_read_byte
  proof (rule list_ex_cong [OF refl])
    fix k :: u32 assume "k \<in> set [0, 1, 2, 3, 4, 5, 6, 7]"
    then have "unat k < 8" by auto
    then show "(mem (chip w') (GOLDEN_BASE + k) = 0xBD \<and> mem (chip w') (GOLDEN_BASE + k + 1) = 0xB3) =
        (mem (chip w) (GOLDEN_BASE + k) = 0xBD \<and> mem (chip w) (GOLDEN_BASE + k + 1) = 0xB3)"
      by (simp add: same)
  qed
  then show ?thesis by (simp add: region_is_writable_def)
qed


section \<open>A sector flush completes\<close>

lemma writable_not_golden:
  assumes "region_is_writable nor_ops addr SECTOR w = Inr ()" "off < 4096"
    and "0x200000 \<le> unat a" "unat a < 0x200010"
  shows "unat a div 4096 \<noteq> unat addr div 4096" "unat a div 256 \<noteq> unat (addr + of_nat off) div 256"
proof -
  have al: "unat addr mod 4096 = 0" using assms(1) by (simp add: region_is_writable_iff)
  have sp: "open_span (unat addr) 4096" using writable_open_span [OF assms(1)] by (simp add: SECTOR_def)
  have m: "unat addr div 4096 * 4096 = unat addr" using al by auto
  have "unat a div 4096 = 512" "unat a div 256 = 8192" using assms(3,4) by (simp_all add: div_nat_eqI)
  moreover have "unat (addr + of_nat off) div 256 < 4096 \<or> 13824 \<le> unat (addr + of_nat off) div 256"
    using sp assms(2) by (auto simp: open_span_def unat_in_sector [OF al assms(2)] div_less_iff_less_mult
        less_eq_div_iff_mult_less_eq)
  ultimately show "unat a div 4096 \<noteq> unat addr div 4096" "unat a div 256 \<noteq> unat (addr + of_nat off) div 256"
    using sp m by (auto simp: open_span_def)
qed

lemma nor_program_pages:
  assumes "region_is_writable nor_ops addr SECTOR w = Inr ()" "length st = 4096" "off mod 256 = 0" "off \<le> 4096"
    and "\<forall>i < 4096. mem (chip w) (addr + of_nat i) = (if i < off then st ! i else 0xFF)"
  shows "\<exists>w'. program_pages nor_ops addr st off w = Some (Inr (), w') \<and>
    (\<forall>i < 4096. mem (chip w') (addr + of_nat i) = st ! i)"
  using assms
proof (induction "4096 - off" arbitrary: off w rule: less_induct)
  case less
  show ?case
  proof (cases "off < 4096")
    case False
    with less(5,6) show ?thesis by (subst program_pages.simps) simp
  next
    case True
    have al: "unat addr mod 4096 = 0" using less(2) by (simp add: region_is_writable_iff)
    note us = unat_in_sector [OF al]
    have room: "off + 256 \<le> 4096"
    proof -
      obtain k where "off = 256 * k" using less(4) by auto
      then show ?thesis using True by simp
    qed
    let ?a = "addr + of_nat off" and ?d = "take 256 (drop off st)"
    have d: "length ?d = 256" using room less(3) by simp
    have amod: "unat ?a mod 256 = 0"
    proof -
      have "256 dvd unat addr" using al by (intro dvd_trans [of 256 4096 "unat addr"]) auto
      then have "256 dvd unat addr + off" using less(4) by (intro dvd_add) auto
      then show ?thesis by (simp add: us [OF True])
    qed
    have sec: "?a AND NOT (SECTOR - 1) = addr"
    proof (rule word_unat_eq_iff [THEN iffD2])
      have "(unat addr + off) div 4096 = unat addr div 4096" using True al by (auto elim!: dvdE)
      then show "unat (?a AND NOT (SECTOR - 1)) = unat addr"
        using al unfolding unat_sector_of us [OF True] by auto
    qed
    have "\<exists>w1. program_page nor_ops ?a ?d w = Some (Inr (), w1) \<and>
        mem (chip w1) = nor_program (unat ?a) ?d (mem (chip w))"
      by (rule nor_program_page) (use less d True sec amod in \<open>auto simp: PAGE_def unat_mod\<close>)
    then obtain w1 where w1: "program_page nor_ops ?a ?d w = Some (Inr (), w1)"
      and m1: "mem (chip w1) = nor_program (unat ?a) ?d (mem (chip w))" by blast
    have wr: "region_is_writable nor_ops addr SECTOR w1 = Inr ()"
      by (rule trans [OF nor_writable_cong less(2)])
        (simp add: m1 nor_program_other writable_not_golden(2) [OF less(2) True])
    have "mem (chip w1) (addr + of_nat i) = (if i < off + 256 then st ! i else 0xFF)" if i: "i < 4096" for i
    proof (cases "off \<le> i \<and> i < off + 256")
      case True
      then obtain k where k: "i = off + k" "k < 256" using nat_le_iff_add by auto
      have ak: "?a + of_nat k = addr + of_nat i" by (simp add: k)
      have "\<not> i < off" using k by simp
      then have bl: "mem (chip w) (?a + of_nat k) = 0xFF" unfolding ak using less(6) i by simp
      have u: "unat (?a + of_nat k) = unat ?a + k"
        unfolding ak us [OF i] us [OF \<open>off < 4096\<close>] using k(1) by simp
      have "mem (chip w1) (?a + of_nat k) = (if k < length ?d then ?d ! k else 0xFF)"
        unfolding m1 by (rule nor_program_nth)
          (use amod d k(2) bl u in simp_all)
      then show ?thesis using k d less(3) room by (simp add: ak)
    next
      case False
      have "unat (addr + of_nat i) div 256 \<noteq> unat ?a div 256"
        using False al amod less(4) by (auto simp: us i \<open>off < 4096\<close> elim!: dvdE)
      then show ?thesis using False less(6) i by (simp add: m1 nor_program_other)
    qed
    then have "\<exists>w'. program_pages nor_ops addr st (off + 256) w1 = Some (Inr (), w') \<and>
        (\<forall>i < 4096. mem (chip w') (addr + of_nat i) = st ! i)"
      using room True less(3,4) wr by (intro less(1)) auto
    then show ?thesis using w1 True room by (subst program_pages.simps) (simp add: andThen_def)
  qed
qed

lemma nor_flush:
  assumes w: "region_is_writable nor_ops (sector_addr l) SECTOR w = Inr ()"
    and l: "length (stage l) = 4096" "stage_len l \<le> 4096"
  shows "\<exists>l' w'. flush nor_ops l w = Some (Inr (), l', w')"
proof (cases "stage_len l = 0")
  case False
  have al: "unat (sector_addr l) mod 4096 = 0" using w by (simp add: region_is_writable_iff)
  have same: "unat (sector_addr l + of_nat i) div 4096 = unat (sector_addr l) div 4096" if "i < 4096" for i
    using that al by (auto simp: unat_in_sector elim!: dvdE)
  obtain w1 where w1: "erase_sector nor_ops (sector_addr l) w = Some (Inr (), w1)"
    "mem (chip w1) = (\<lambda>a. if unat a div 4096 = unat (sector_addr l) div 4096 then 0xFF else mem (chip w) a)"
    using nor_erase [OF w] by blast
  have "region_is_writable nor_ops (sector_addr l) SECTOR w1 = Inr ()"
    by (rule trans [OF nor_writable_cong w]) (simp add: w1(2) writable_not_golden(1) [OF w, of 0])
  then obtain w2 where w2: "program_pages nor_ops (sector_addr l) (pad_stage l) 0 w1 = Some (Inr (), w2)"
    "\<forall>i < 4096. mem (chip w2) (sector_addr l + of_nat i) = pad_stage l ! i"
    using nor_program_pages [of "sector_addr l" w1 "pad_stage l" 0] l same
    by (auto simp: w1(2) pad_stage_def)
  then have "flush_comp nor_ops l w = Some (Inr (), w2)"
    using w1(1) l(2) by (auto simp: flush_comp_def Let_def andThen_def nor_read_byte list_ex_iff)
  then show ?thesis by (simp add: flush_def Let_def False)
qed (simp add: flush_def)

end
