(* ===== verification/Flash_Erase.thy ===== *)
theory Flash_Erase
  imports Nor_Chip
begin

text \<open>
  What an erase job leaves behind: when the main loop's ticks have brought the job to its
  end, every byte of its region reads as erased.
\<close>

lemma erase_frame:
  assumes law: "chip_frame ops" and e: "erase_sector ops a0 w = Some (r, w')"
    and out: "unat a \<notin> sector_of a0"
  shows "read_byte ops w' a = read_byte ops w a"
proof -
  let ?S = "- sector_of a0"
  let ?P = "\<lambda>v. \<forall>b. unat b \<in> ?S \<longrightarrow> read_byte ops v b = read_byte ops w b"
  have k: "keeps ?P (erase_sector ops a0)"
  proof (rule spi_invariant.keeps_erase_sector [OF frame_invariant [OF law, of ?S "read_byte ops w"]])
    fix v assume r: "region_is_writable ops a0 SECTOR v = Inr ()"
    then have "unat a0 < 2 ^ 24"
      using writable_open_span [OF r] by (auto simp: open_span_def SECTOR_def)
    with erase_txn_ok [OF r] touched_in_sector
    show "txn_ok (CMD_SECTOR_ERASE # send_addr a0) \<and>
        set (touched (CMD_SECTOR_ERASE # send_addr a0)) \<inter> ?S = {}" by blast
  qed
  from keepsD [OF k _ e] out show ?thesis by simp
qed

lemma erase_blank:
  "erase_sector ops a0 w = Some (Inr (), w') \<Longrightarrow> i < 4096 \<Longrightarrow> read_byte ops w' (a0 + of_nat i) = 0xFF"
  by (auto simp: erase_sector_def andThen_eq_Some region_is_blank_def list_all_iff SECTOR_def split: if_splits)

text \<open>The part of the region behind the cursor is blank.\<close>

definition blank_upto :: "'s spi_ops \<Rightarrow> u32 \<Rightarrow> nat \<Rightarrow> 's world \<Rightarrow> bool" where
  "blank_upto ops a n w \<longleftrightarrow> (\<forall>i < n. read_byte ops w (a + of_nat i) = 0xFF)"

definition erase_inv :: "'s spi_ops \<Rightarrow> job \<Rightarrow> 's world \<Rightarrow> bool" where
  "erase_inv ops job w \<longleftrightarrow> jkind job = Erase \<longrightarrow>
     (job_pending job \<longrightarrow> blank_upto ops (jaddr job) (unat (jcursor job)) w) \<and>
     (jstate job = JDone \<longrightarrow> blank_upto ops (jaddr job) (unat (jlen job)) w)"

lemma erase_step_blank:
  assumes law: "chip_frame ops" and inv: "job_inv job" "job_pending job" "jkind job = Erase"
    and lt: "jcursor job < jlen job"
    and b: "blank_upto ops (jaddr job) (unat (jcursor job)) w"
    and e: "erase_sector ops (jaddr job + jcursor job) w = Some (Inr (), w')"
  shows "blank_upto ops (jaddr job) (unat (jcursor job) + 4096) w'"
  unfolding blank_upto_def
proof (intro allI impI)
  fix i assume i: "i < unat (jcursor job) + 4096"
  let ?c = "unat (jcursor job)" and ?a = "unat (jaddr job)"
  have span: "?a + ?c < 0x380000" "?a mod 4096 = 0" "?c mod 4096 = 0"
    using inv lt by (auto simp: job_inv_def open_span_def word_less_nat_alt)
  have ac: "unat (jaddr job + jcursor job) = ?a + ?c" using span by (intro unat_add_small) simp
  show "read_byte ops w' (jaddr job + of_nat i) = 0xFF"
  proof (cases "i < ?c")
    case True
    then have u: "unat (jaddr job + of_nat i) = ?a + i"
      using span by (simp add: unat_word_ariths unat_of_nat)
    have "(?a + ?c) div 4096 * 4096 = ?a + ?c" using span by (auto elim!: dvdE)
    then have "unat (jaddr job + of_nat i) \<notin> sector_of (jaddr job + jcursor job)"
      using True by (simp add: sector_of_def u ac)
    from erase_frame [OF law e this] b True show ?thesis by (simp add: blank_upto_def)
  next
    case False
    then obtain k where k: "i = ?c + k" using le_Suc_ex [of ?c i] by auto
    then have "jaddr job + of_nat i = jaddr job + jcursor job + of_nat k" by simp
    with erase_blank [OF e, of k] k i show ?thesis by (simp add: add.assoc)
  qed
qed

lemma tick_erase_inv:
  assumes law: "chip_frame ops" and inv: "job_inv job" "erase_inv ops job w"
    and t: "tick ops job w = Some (job', w')"
  shows "erase_inv ops job' w'"
proof (cases "job_pending job")
  case False
  with t inv show ?thesis by (simp add: tick_idle)
next
  case p: True
  show ?thesis
  proof (cases "jkind job = Erase")
    case False
    from t p show ?thesis by (cases rule: tick_cases) (use False in \<open>simp_all add: erase_inv_def\<close>)
  next
    case k: True
    with inv p have b: "blank_upto ops (jaddr job) (unat (jcursor job)) w" by (simp add: erase_inv_def)
    from t p show ?thesis
    proof (cases rule: tick_cases)
      case finish
      then have "unat (jlen job) \<le> unat (jcursor job)" by (simp add: word_le_nat_alt)
      with b finish show ?thesis by (simp add: erase_inv_def blank_upto_def job_pending_def)
    next
      case (work adv er)
      from work(2) k have "erase_sector ops (jaddr job + jcursor job) w = Some (Inr (), w')"
        by (auto simp: job_work_def andThen_eq_Some)
      from erase_step_blank [OF law inv(1) p k work(1) b this] advance_cursor [OF inv(1) p work(1,2)] k
      show ?thesis by (simp add: work(3) erase_inv_def slice_def job_pending_def)
    next
      case (error e)
      then show ?thesis by (simp add: erase_inv_def job_pending_def)
    qed
  qed
qed

lemma ticks_erase_inv:
  assumes "chip_frame ops"
  shows "job_inv job \<Longrightarrow> erase_inv ops job w \<Longrightarrow> ticks ops n job w = Some (job', w') \<Longrightarrow> erase_inv ops job' w'"
proof (induction n arbitrary: job w)
  case (Suc n)
  then obtain j1 w1 where t: "tick ops job w = Some (j1, w1)" "ticks ops n j1 w1 = Some (job', w')"
    by (auto split: option.splits)
  from Suc.IH [OF tick_inv [OF Suc.prems(1) t(1)] tick_erase_inv [OF assms Suc.prems(1,2) t(1)] t(2)]
  show ?case .
qed simp

lemma ticks_kind: "ticks ops n job w = Some (job', w') \<Longrightarrow>
    jkind job' = jkind job \<and> jaddr job' = jaddr job \<and> jlen job' = jlen job"
proof (induction n arbitrary: job w)
  case (Suc n)
  from Suc.prems obtain j1 w1 where t: "tick ops job w = Some (j1, w1)" "ticks ops n j1 w1 = Some (job', w')"
    by (auto split: option.splits)
  have "jkind j1 = jkind job \<and> jaddr j1 = jaddr job \<and> jlen j1 = jlen job"
  proof (cases "job_pending job")
    case False
    then show ?thesis using t by (simp add: tick_idle)
  next
    case True
    with t(1) show ?thesis by (cases rule: tick_cases) simp_all
  qed
  with Suc.IH [OF t(2)] show ?case by simp
qed simp

text \<open>
  From the moment an erase job is accepted: the calls into the flash code, in any order, while no
  fetch is active.
\<close>

inductive erase_run :: "'s spi_ops \<Rightarrow> 's flash_sys \<Rightarrow> 's flash_sys \<Rightarrow> bool" for ops s where
  accepted: "queue ops Erase addr len (fs_world s) (fs_job s) = (Inr (), job') \<Longrightarrow> erase_run ops s (s\<lparr>fs_job := job'\<rparr>)"
| further: "erase_run ops s s1 \<Longrightarrow> \<not> loader_is_active (fs_loader s1) \<Longrightarrow> flash_step ops s1 s2 \<Longrightarrow> erase_run ops s s2"

definition erase_sys_inv :: "'s spi_ops \<Rightarrow> 's flash_sys \<Rightarrow> bool" where
  "erase_sys_inv ops s \<longleftrightarrow> job_inv (fs_job s) \<and> erase_inv ops (fs_job s) (fs_world s)"

lemma erase_inv_cong:
  "(\<And>a. read_byte ops w' a = read_byte ops w a) \<Longrightarrow> erase_inv ops job w' = erase_inv ops job w"
  by (simp add: erase_inv_def blank_upto_def)

lemma queue_erase_inv:
  assumes "erase_inv ops job w" "queue ops kind addr len w job = (r, job')"
  shows "erase_inv ops job' w"
proof (cases r)
  case (Inl e)
  then show ?thesis using assms queue_refuses by blast
next
  case (Inr u)
  then have "jstate job' = Queued \<and> jcursor job' = 0" using assms(2) queue_accepts [of ops kind addr len w job job'] by simp
  then show ?thesis by (simp add: erase_inv_def blank_upto_def)
qed

lemma drive_reads:
  assumes "chip_frame ops"
  shows "read_byte ops (drive_status ops sr2 want w) a = read_byte ops w a"
proof -
  have "txn_ok t \<and> set (touched t) \<inter> UNIV = {}" if "status_txn t" for t
    using status_txn_ok [OF that] by simp
  from keep_drive_status [OF frame_invariant [OF assms, of UNIV "read_byte ops w"] this, of w] show ?thesis by simp
qed

lemma quiet_poll: "loader_poll ops env t l w = Some (d, l', acts, w') \<Longrightarrow> \<not> loader_is_active l \<Longrightarrow> w' = w"
  by (auto simp: loader_poll_def loader_is_active_def split: loader_state.splits prod.splits)

lemma step_erase_inv:
  assumes law: "chip_frame ops" and inv: "erase_sys_inv ops s" and quiet: "\<not> loader_is_active (fs_loader s)" and st: "flash_step ops s s'"
  shows "erase_sys_inv ops s'"
  using st
proof cases
  case (step_queue kind addr len r job')
  then show ?thesis using inv queue_inv [of "fs_job s" ops kind addr len "fs_world s"] queue_erase_inv [of ops "fs_job s" "fs_world s"]
    by (simp add: erase_sys_inv_def)
next
  case (step_tick job' w')
  then show ?thesis using inv tick_inv tick_erase_inv [OF law] by (auto simp: erase_sys_inv_def)
next
  case (step_poll env t d l' acts w')
  then show ?thesis using inv quiet_poll [OF step_poll(2) quiet] by (simp add: erase_sys_inv_def)
next
  case (step_drive sr2 want)
  then show ?thesis using inv erase_inv_cong [OF drive_reads [OF law]] by (simp add: erase_sys_inv_def)
qed (use inv in \<open>simp add: erase_sys_inv_def\<close>)

lemma erase_run_inv: "erase_run ops s s' \<Longrightarrow> chip_frame ops \<Longrightarrow> erase_sys_inv ops s'"
proof (induction rule: erase_run.induct)
  case (accepted addr len job')
  have a: "\<not> job_pending (fs_job s)" "jstate job' = Queued" "jcursor job' = 0" using queue_accepts [OF accepted(1)] by auto
  then have "job_inv (fs_job s)" by (simp add: job_inv_def)
  then have "job_inv job'" using queue_inv [of "fs_job s" ops Erase addr len "fs_world s"] accepted(1) by simp
  then show ?case using a by (simp add: erase_sys_inv_def erase_inv_def blank_upto_def)
next
  case (further s1 s2)
  then show ?case using step_erase_inv by blast
qed

end
