(* ===== verification/Flash_Props.thy ===== *)
theory Flash_Props
  imports Flash_Erase
begin

text \<open>
  The properties of the flash side of the firmware, with their witnesses on the NOR part of
  \<open>Nor_Chip\<close>: a chip whose golden image is present and whose application region is blank.
\<close>

unbundle bit_operations_syntax

section \<open>A device to run on\<close>

definition golden_mem :: "u32 \<Rightarrow> u8" where
  "golden_mem a = (if a = 0x200000 then 0xBD else if a = 0x200001 then 0xB3 else 0xFF)"

definition nor0 :: nor where
  "nor0 = \<lparr>mem = golden_mem, latch = [], tock = False\<rparr>"

definition world0 :: "nor world" where
  "world0 = \<lparr>chip = nor0, wire = []\<rparr>"

lemma golden0: "golden_present nor_ops world0"
  by (simp add: golden_present_def has_sync_def nor_read_byte world0_def nor0_def golden_mem_def GOLDEN_BASE_def)

lemma writable0:
  "unat a mod 4096 = 0 \<Longrightarrow> unat a + 4096 \<le> 0x100000 \<Longrightarrow> region_is_writable nor_ops a SECTOR world0 = Inr ()"
  using golden0 by (simp add: region_is_writable_iff SECTOR_def)

lemma app_writable0: "region_is_writable nor_ops APP_BASE APP_LEN world0 = Inr ()"
  using golden0 by (simp add: region_is_writable_iff APP_BASE_def APP_LEN_def)

definition erase0 :: job where
  "erase0 = snd (queue nor_ops Erase 0 4096 world0 JOB_init)"

lemma erase0_queued: "queue nor_ops Erase 0 4096 world0 JOB_init = (Inr (), erase0)"
  using writable0 [of 0] by (simp add: erase0_def queue_def JOB_init_def SECTOR_def)

lemma reach_erase0:
  "flash_reach nor_ops nor0 \<lparr>fs_job = erase0, fs_loader = loader_new, fs_world = world0\<rparr>"
proof -
  let ?s = "\<lparr>fs_job = JOB_init, fs_loader = loader_new, fs_world = world0\<rparr>"
  have "flash_reach nor_ops nor0 ?s" unfolding world0_def by (rule boot)
  moreover have "flash_step nor_ops ?s (?s\<lparr>fs_job := erase0\<rparr>)"
    by (rule step_queue [where r = "Inr ()" and kind = Erase and addr = 0 and len = 4096])
      (simp add: erase0_queued)
  ultimately show ?thesis using run by fastforce
qed

lemma erase0_eq:
  "erase0 = \<lparr>jkind = Erase, jstate = Queued, jaddr = 0, jlen = 4096, jcursor = 0,
     jerror = None, jcrc = 0, jerased = False\<rparr>"
  using erase0_queued writable0 [of 0] by (simp add: queue_def JOB_init_def SECTOR_def)

text \<open>A tick erases the sector, a second one ends the job.\<close>

lemma erase0_tick:
  "\<exists>w'. tick nor_ops erase0 world0 = Some (erase0\<lparr>jstate := Running, jcursor := 4096\<rparr>, w') \<and> wire w' \<noteq> []"
proof -
  obtain w' where e: "erase_sector nor_ops 0 world0 = Some (Inr (), w')"
    using nor_erase [OF writable0 [of 0]] by auto
  have "wire w' \<noteq> []"
    using e by (auto simp: erase_sector_def andThen_eq_Some nor_transact read_sr1_def nor_timer)
  moreover have "tick nor_ops erase0 world0 = Some (erase0\<lparr>jstate := Running, jcursor := 4096\<rparr>, w')"
    using e by (simp add: tick_def erase0_eq job_pending_def job_work_def andThen_def SECTOR_def)
  ultimately show ?thesis by blast
qed

lemma erase0_done: "\<exists>job' w'. ticks nor_ops 2 erase0 world0 = Some (job', w') \<and> jstate job' = JDone"
proof -
  obtain w' where "tick nor_ops erase0 world0 = Some (erase0\<lparr>jstate := Running, jcursor := 4096\<rparr>, w')"
    using erase0_tick by blast
  then show ?thesis by (simp add: numeral_2_eq_2 tick_def erase0_eq job_pending_def)
qed

section \<open>A fetch on it\<close>

definition open_env :: "(u8 list \<times> endpoint) option \<Rightarrow> udp_env" where
  "open_env r = \<lparr>is_open = True, bind_ok = True, can_send = True, send_ok = True,
     can_recv = True, recv = r\<rparr>"

definition tiny :: "u8 list" where "tiny = [0xBD, 0xB3]"

definition tiny_env :: udp_env where
  "tiny_env = open_env (Some ([0, 3, 0, 1, 0xBD, 0xB3], \<lparr>ep_addr = Ipv4 0, ep_port = 40000\<rparr>))"

definition tiny_start :: loader where
  "tiny_start = snd (loader_start nor_ops 7 [98] world0 loader_new)"

definition tiny_wait :: loader where
  "tiny_wait = fst (poll_send_rrq (open_env None) 0 tiny_start)"

lemma u16_be_1: "u16_be 0 1 = 1"
  by (simp add: u16_be_def)

lemma tiny_serves: "serves tiny tiny_env"
  by (simp add: serves_def tiny_env_def open_env_def Let_def tiny_def chunk_def u16_be_1)

lemma none_serves: "serves F (open_env None)"
  by (simp add: serves_def open_env_def)

lemma tiny_start_ok: "loader_start nor_ops 7 [98] world0 loader_new = (Inr (), tiny_start)"
  unfolding tiny_start_def using app_writable0
  by (simp add: loader_start_def loader_new_def Let_def)

lemma tiny_wait_ok: "loader_poll nor_ops (open_env None) 0 tiny_start world0 =
    Some (False, tiny_wait, snd (poll_send_rrq (open_env None) 0 tiny_start), world0)"
proof -
  have "lstate tiny_start = LSendRrq"
    unfolding tiny_start_def using app_writable0
    by (simp add: loader_start_def loader_new_def Let_def)
  then show ?thesis by (simp add: loader_poll_def tiny_wait_def split: prod.splits)
qed

lemma tiny_done:
  "\<exists>d l acts w. loader_poll nor_ops tiny_env 0 tiny_wait world0 = Some (d, l, acts, w) \<and> lstate l = LDone"
proof -
  have st: "tiny_start = \<lparr>lstate = LSendRrq, server = 7, server_tid = 0, block = 1, deadline_ms = 0,
     filename = splice 0 [98] (replicate 96 0), filename_len = 1, base = 0, written = 0, sectors = 0,
     stage = replicate 4096 0, stage_len = 0, lerror = None, bad_preamble = False\<rparr>"
    using tiny_start_ok app_writable0 by (simp add: loader_start_def loader_new_def Let_def APP_BASE_def)
  have wt: "tiny_wait = tiny_start\<lparr>deadline_ms := 8000, lstate := LWaitData\<rparr>"
    by (simp add: tiny_wait_def poll_send_rrq_def open_env_def Let_def TIMEOUT_MS_def)
  let ?l = "take_block [0xBD, 0xB3] (tiny_wait\<lparr>server_tid := 40000\<rparr>)"
  have b: "base ?l = 0" "sectors ?l = 0" "stage_len ?l = 2" "length (stage ?l) = 4096" "written ?l = 2"
    by (simp_all add: take_block_def Let_def wt st)
  have "region_is_writable nor_ops (sector_addr ?l) SECTOR world0 = Inr ()"
    by (rule writable0) (simp_all add: sector_addr_def b)
  then obtain l' w' where f: "flush nor_ops ?l world0 = Some (Inr (), l', w')"
    using nor_flush [of ?l world0] b by auto
  have sync: "starts_with_sync [0xBD, 0xB3]" by (simp add: starts_with_sync_def upt_rec)
  have "accept_block nor_ops 0 [0, 3, 0, 1, 0xBD, 0xB3] (Ipv4 0) (tiny_wait\<lparr>server_tid := 40000\<rparr>) world0 =
      Some (True, l'\<lparr>lstate := LDone\<rparr>, [USend (ack_packet [0, 3, 0, 1, 0xBD, 0xB3])
        \<lparr>ep_addr = Ipv4 0, ep_port = server_tid ?l\<rparr>], w')"
    using f sync b(3,5) by (simp add: accept_block_def Let_def BLOCK_def APP_LEN_def)
  moreover have "block tiny_wait = 1" "server_tid tiny_wait = 0" "deadline_ms tiny_wait = 8000"
    "lstate tiny_wait = LWaitData"
    by (simp_all add: wt st)
  moreover have "\<exists>d. d" by blast
  ultimately show ?thesis
    by (simp add: loader_poll_def poll_wait_data_def tiny_env_def open_env_def OPCODE_ERROR_def
        OPCODE_DATA_def u16_be_1)
qed

lemma tiny_fetched: "\<exists>l w. fetch_from nor_ops tiny l w \<and> lstate l = LDone"
proof -
  obtain d l acts w where p: "loader_poll nor_ops tiny_env 0 tiny_wait world0 = Some (d, l, acts, w)"
    "lstate l = LDone" using tiny_done by blast
  have "fetch_from nor_ops tiny tiny_start world0"
    by (rule from_start [OF tiny_start_ok]) (simp add: loader_new_def)
  from from_poll [OF this none_serves tiny_wait_ok] have "fetch_from nor_ops tiny tiny_wait world0" .
  from from_poll [OF this tiny_serves p(1)] p(2) show ?thesis by blast
qed


section \<open>Properties\<close>

text \<open>
  C1. From power-up on, under every interleaving of whole calls (HTTP requests that queue jobs,
  start fetches or write status registers, main-loop ticks, network polls), with any arguments
  and any datagrams, no byte of the 4 MB outside the application and the scratch region
  changes: not the golden image, the firmware copy, the factory's third copy or the marginal
  region. The console's saving of a picture is not among the calls (\<open>Image_Store\<close>).
\<close>

theorem golden_survives:
  assumes "flash_reach ops c s" and "chip_frame ops" and "protected_byte (unat a)"
  shows "read_byte ops (fs_world s) a = op_mmap ops c a"
  using assms by (rule reach_protected)

lemma golden_survives_witness:
  "read_byte nor_ops world0 0x200001 = 0xB3 \<and> jstate erase0 = Queued"
proof -
  have "protected_byte (unat (0x200001 :: u32))" by (simp add: protected_byte_def)
  from golden_survives [OF reach_erase0 nor_frame this]
  have "read_byte nor_ops world0 0x200001 = 0xB3" by (simp add: nor_ops_def nor0_def golden_mem_def)
  moreover have "jstate erase0 = Queued" using queue_accepts [OF erase0_queued] by simp
  ultimately show ?thesis by simp
qed





text \<open>
  C4. A first block without the sync word fails the fetch before any exchange with the flash
  chip: the world is unchanged, the fetch is marked as refused and the socket is closed.
\<close>

theorem bad_image_refused:
  assumes "lstate l = LWaitData" and "t \<le> deadline_ms l" and "can_recv env"
    and "recv env = Some (data_packet (block l) payload, ep)"
    and "written l = 0" and "\<not> starts_with_sync (take BLOCK payload)"
  shows "\<exists>l'. loader_poll ops env t l w = Some (False, l', [URecv, UClose], w) \<and>
    lstate l' = LFailed \<and> bad_preamble l' \<and> written l' = 0"
  using assms
  by (simp add: loader_poll_def poll_wait_data_def data_packet_def u16_be_split accept_block_def
      Let_def OPCODE_DATA_def OPCODE_ERROR_def)

lemma bad_image_refused_witness:
  "\<exists>l'. loader_poll nor_ops (open_env (Some (data_packet 1 [1, 2, 3], \<lparr>ep_addr = Ipv4 0, ep_port = 9\<rparr>))) 0
      (loader_new\<lparr>lstate := LWaitData, block := 1\<rparr>) world0 = Some (False, l', [URecv, UClose], world0) \<and>
    lstate l' = LFailed \<and> bad_preamble l' \<and> written l' = 0"
  by (rule bad_image_refused [where payload = "[1, 2, 3]" and ep = "\<lparr>ep_addr = Ipv4 0, ep_port = 9\<rparr>"])
    (simp_all add: open_env_def loader_new_def starts_with_sync_def BLOCK_def upt_rec)

text \<open>
  C5. The write policy accepts exactly the aligned, non-empty regions inside the scratch region,
  and those inside the application region while a golden image is present; it answers that the
  golden image is missing exactly for the latter when there is none.
\<close>

theorem write_policy_exact:
  "(region_is_writable ops addr len w = Inr () \<longleftrightarrow>
     0 < unat len \<and> unat addr mod 4096 = 0 \<and> unat len mod 4096 = 0 \<and>
     (unat addr + unat len \<le> 0x100000 \<and> golden_present ops w \<or>
      0x360000 \<le> unat addr \<and> unat addr + unat len \<le> 0x380000)) \<and>
   (region_is_writable ops addr len w = Inl NoGolden \<longleftrightarrow>
     0 < unat len \<and> unat addr mod 4096 = 0 \<and> unat len mod 4096 = 0 \<and>
     unat addr + unat len \<le> 0x100000 \<and> \<not> golden_present ops w)"
proof (rule conjI [OF region_is_writable_iff])
  show "region_is_writable ops addr len w = Inl NoGolden \<longleftrightarrow>
     0 < unat len \<and> unat addr mod 4096 = 0 \<and> unat len mod 4096 = 0 \<and>
     unat addr + unat len \<le> 0x100000 \<and> \<not> golden_present ops w"
    unfolding region_is_writable_def Let_def mod_SECTOR_0
    unfolding src_consts
    by (auto simp: word_less_nat_alt word_le_nat_alt unat_sat_add32 unat_gt_0)
qed





text \<open>
  C8. The checksum a finished job reports is the CRC-32 of the reflected polynomial
  \<^verbatim>\<open>0xEDB88320\<close> over the region, computed bit by bit.
\<close>

theorem crc_is_crc32:
  "crc32_region ops w addr len =
     crc32_ref (map (\<lambda>i. read_byte ops w (addr + of_nat i)) [0..<unat len])"
  by (rule crc32_region_ref)

text \<open>
  C9. Erasing a sector and programming a page return, with success or an error, from every
  state of the chip, even one that never reports ready: the busy-wait gives up once its budget
  of timer ticks is spent.
\<close>

theorem flash_commands_return:
  assumes "timer_runs ops"
  shows "(\<exists>r. erase_sector ops addr w = Some r) \<and> (\<exists>r. program_page ops addr data w = Some r)"
  using returns_erase_sector [OF assms, of addr] returns_program_page [OF assms, of addr data]
  by (auto simp: returns_def)

lemma flash_commands_return_witness:
  "(\<exists>r. erase_sector nor_ops 0 world0 = Some r) \<and> (\<exists>r. program_page nor_ops 0 [1] world0 = Some r)"
  by (rule flash_commands_return [OF nor_timer_runs])

end
