(* ===== verification/Rust_Text.thy ===== *)
theory Rust_Text
  imports LW_Prelude
begin

text \<open>
  What the firmware's parsers use of Rust's \<^verbatim>\<open>str\<close>: a \<^verbatim>\<open>&str\<close> is the list of its
  code points, \<^verbatim>\<open>as_bytes\<close> and \<^verbatim>\<open>from_utf8\<close> go through UTF-8, and the search,
  trimming and splitting operations are functions on lists. The decimal parsers of
  \<^verbatim>\<open>layout.rs\<close> and \<^verbatim>\<open>http.rs\<close> are here too: they are one function at three widths.
\<close>

type_synonym str = "nat list"

section \<open>UTF-8\<close>

definition scalar :: "nat \<Rightarrow> bool" where
  "scalar c \<longleftrightarrow> c < 0xD800 \<or> (0xE000 \<le> c \<and> c < 0x110000)"

definition enc_char :: "nat \<Rightarrow> u8 list" where
  "enc_char c = map of_nat
     (if c < 0x80 then [c]
      else if c < 0x800 then [0xC0 + c div 64, 0x80 + c mod 64]
      else if c < 0x10000 then [0xE0 + c div 4096, 0x80 + c div 64 mod 64, 0x80 + c mod 64]
      else [0xF0 + c div 262144, 0x80 + c div 4096 mod 64, 0x80 + c div 64 mod 64, 0x80 + c mod 64])"

definition as_bytes :: "str \<Rightarrow> u8 list" where
  "as_bytes s = concat (map enc_char s)"

definition cont :: "u8 \<Rightarrow> bool" where
  "cont b \<longleftrightarrow> 0x80 \<le> unat b \<and> unat b < 0xC0"

text \<open>One character off the front, with the ranges Rust's validator demands.\<close>

definition dec_char :: "u8 list \<Rightarrow> (nat \<times> u8 list) option" where
  "dec_char bs =
     (case bs of [] \<Rightarrow> None
      | a # r \<Rightarrow>
        let v = unat a in
        if v < 0x80 then Some (v, r)
        else if 0xC0 \<le> v \<and> v < 0xE0 then
          (case r of b # r' \<Rightarrow>
             let c = (v - 0xC0) * 64 + (unat b - 0x80) in
             if cont b \<and> 0x80 \<le> c then Some (c, r') else None
           | _ \<Rightarrow> None)
        else if 0xE0 \<le> v \<and> v < 0xF0 then
          (case r of b # d # r' \<Rightarrow>
             let c = (v - 0xE0) * 4096 + (unat b - 0x80) * 64 + (unat d - 0x80) in
             if cont b \<and> cont d \<and> 0x800 \<le> c \<and> scalar c then Some (c, r') else None
           | _ \<Rightarrow> None)
        else if 0xF0 \<le> v \<and> v < 0xF8 then
          (case r of b # d # e # r' \<Rightarrow>
             let c = (v - 0xF0) * 262144 + (unat b - 0x80) * 4096 + (unat d - 0x80) * 64 + (unat e - 0x80) in
             if cont b \<and> cont d \<and> cont e \<and> 0x10000 \<le> c \<and> scalar c then Some (c, r') else None
           | _ \<Rightarrow> None)
        else None)"

lemma dec_char_shorter: "dec_char bs = Some (c, r) \<Longrightarrow> length r < length bs"
  by (auto simp: dec_char_def Let_def split: list.splits if_splits)

function from_utf8 :: "u8 list \<Rightarrow> str option" where
  "from_utf8 bs =
     (if bs = [] then Some []
      else case dec_char bs of None \<Rightarrow> None
        | Some (c, r) \<Rightarrow> map_option ((#) c) (from_utf8 r))"
  by pat_completeness auto
termination
  by (relation "measure length") (auto intro: dec_char_shorter)

declare from_utf8.simps [simp del]

lemma unat_of_nat_u8 [simp]: "n < 256 \<Longrightarrow> unat (of_nat n :: u8) = n"
  by (simp add: unat_of_nat)

lemma dec_enc_char:
  assumes "scalar c"
  shows "dec_char (enc_char c @ r) = Some (c, r)"
proof -
  consider "c < 0x80" | "0x80 \<le> c" "c < 0x800" | "0x800 \<le> c" "c < 0x10000" | "0x10000 \<le> c" "c < 0x110000"
    using assms by (force simp: scalar_def)
  then show ?thesis
  proof cases
    case 1
    then show ?thesis by (simp add: dec_char_def enc_char_def)
  next
    case 2
    define x y where "x = 0xC0 + c div 64" and "y = 0x80 + c mod 64"
    have e: "enc_char c = [of_nat x, of_nat y]" using 2 by (simp add: enc_char_def x_def y_def)
    have "c div 64 < 32" "c mod 64 < 64" using 2 by (simp_all add: div_less_iff_less_mult)
    moreover have "(x - 0xC0) * 64 + (y - 0x80) = c" by (simp add: x_def y_def)
    ultimately have "0xC0 \<le> x" "x < 0xE0" "0x80 \<le> y" "y < 0xC0" "(x - 0xC0) * 64 + (y - 0x80) = c"
      by (simp_all add: x_def y_def)
    then show ?thesis using 2 by (simp add: dec_char_def e Let_def cont_def)
  next
    case 3
    define x y z where "x = 0xE0 + c div 4096" and "y = 0x80 + c div 64 mod 64" and "z = 0x80 + c mod 64"
    have e: "enc_char c = [of_nat x, of_nat y, of_nat z]" using 3 by (simp add: enc_char_def x_def y_def z_def)
    have "c div 4096 < 16" "c div 64 mod 64 < 64" "c mod 64 < 64" using 3 by (simp_all add: div_less_iff_less_mult)
    moreover have "(x - 0xE0) * 4096 + (y - 0x80) * 64 + (z - 0x80) = c"
    proof -
      have "c div 4096 = c div 64 div 64" by (simp flip: div_mult2_eq)
      then have "c div 4096 * 4096 + c div 64 mod 64 * 64 + c mod 64 = c"
        using div_mult_mod_eq [of "c div 64" 64] div_mult_mod_eq [of c 64] by linarith
      then show ?thesis by (simp add: x_def y_def z_def)
    qed
    ultimately have "0xE0 \<le> x" "x < 0xF0" "0x80 \<le> y" "y < 0xC0" "0x80 \<le> z" "z < 0xC0"
      "(x - 0xE0) * 4096 + (y - 0x80) * 64 + (z - 0x80) = c"
      by (simp_all add: x_def y_def z_def)
    then show ?thesis using 3 assms by (simp add: dec_char_def e Let_def cont_def)
  next
    case 4
    define x y z t where "x = 0xF0 + c div 262144" and "y = 0x80 + c div 4096 mod 64"
      and "z = 0x80 + c div 64 mod 64" and "t = 0x80 + c mod 64"
    have e: "enc_char c = [of_nat x, of_nat y, of_nat z, of_nat t]"
      using 4 by (simp add: enc_char_def x_def y_def z_def t_def)
    have "c div 262144 < 8" "c div 4096 mod 64 < 64" "c div 64 mod 64 < 64" "c mod 64 < 64"
      using 4 by (simp_all add: div_less_iff_less_mult)
    moreover have "(x - 0xF0) * 262144 + (y - 0x80) * 4096 + (z - 0x80) * 64 + (t - 0x80) = c"
    proof -
      have "c div 262144 = c div 4096 div 64" "c div 4096 = c div 64 div 64" by (simp_all flip: div_mult2_eq)
      then have "c div 262144 * 262144 + c div 4096 mod 64 * 4096 + c div 64 mod 64 * 64 + c mod 64 = c"
        using div_mult_mod_eq [of "c div 4096" 64] div_mult_mod_eq [of "c div 64" 64]
          div_mult_mod_eq [of c 64] by linarith
      then show ?thesis by (simp add: x_def y_def z_def t_def)
    qed
    ultimately have "0xF0 \<le> x" "x < 0xF8" "0x80 \<le> y" "y < 0xC0" "0x80 \<le> z" "z < 0xC0" "0x80 \<le> t" "t < 0xC0"
      "(x - 0xF0) * 262144 + (y - 0x80) * 4096 + (z - 0x80) * 64 + (t - 0x80) = c"
      by (simp_all add: x_def y_def z_def t_def)
    then show ?thesis using 4 assms by (simp add: dec_char_def e Let_def cont_def)
  qed
qed

lemma enc_char_nonempty [simp]: "enc_char c \<noteq> []"
  by (simp add: enc_char_def)

lemma from_as_bytes: "list_all scalar s \<Longrightarrow> from_utf8 (as_bytes s) = Some s"
proof (induction s)
  case Nil
  show ?case by (simp add: as_bytes_def from_utf8.simps)
next
  case (Cons c s)
  have "as_bytes (c # s) = enc_char c @ as_bytes s" by (simp add: as_bytes_def)
  with Cons show ?case by (subst from_utf8.simps) (simp add: dec_enc_char)
qed

lemma enc_dec_char:
  assumes "dec_char bs = Some (c, r)"
  shows "bs = enc_char c @ r \<and> scalar c"
proof -
  have w: "of_nat (unat b) = (b :: u8)" for b by simp
  have s64: "(x * 64 + y) div 64 = x" "(x * 64 + y) mod 64 = y" if "y < 64" for x y :: nat
    using that by simp_all
  obtain a t where bs: "bs = a # t" using assms by (cases bs) (auto simp: dec_char_def)
  consider "unat a < 0x80" | "0xC0 \<le> unat a" "unat a < 0xE0" | "0xE0 \<le> unat a" "unat a < 0xF0"
    | "0xF0 \<le> unat a" "unat a < 0xF8"
    using assms by (force simp: dec_char_def bs Let_def split: if_splits)
  then show ?thesis
  proof cases
    case 1
    with assms show ?thesis by (auto simp: dec_char_def bs enc_char_def scalar_def)
  next
    case 2
    with assms obtain b where t: "t = b # r" "cont b" "0x80 \<le> c" "c = (unat a - 0xC0) * 64 + (unat b - 0x80)"
      by (auto simp: dec_char_def bs Let_def split: list.splits if_splits)
    have "c < 0x800" using t 2 by (simp add: cont_def) linarith
    moreover have "c div 64 = unat a - 0xC0" "c mod 64 = unat b - 0x80"
      unfolding t(4) by (rule s64, use t(2) in \<open>fastforce simp: cont_def\<close>)+
    ultimately show ?thesis using t(1-3) 2
      by (simp add: enc_char_def bs scalar_def cont_def w del: of_nat_add)
  next
    case 3
    with assms obtain b d where t: "t = b # d # r" "cont b" "cont d" "0x800 \<le> c" "scalar c"
      "c = (unat a - 0xE0) * 4096 + (unat b - 0x80) * 64 + (unat d - 0x80)"
      by (auto simp: dec_char_def bs Let_def split: list.splits if_splits)
    have c6: "c = ((unat a - 0xE0) * 64 + (unat b - 0x80)) * 64 + (unat d - 0x80)" by (simp add: t(6))
    have q: "c div 64 = (unat a - 0xE0) * 64 + (unat b - 0x80)" "c mod 64 = unat d - 0x80"
      unfolding c6 by (rule s64, use t(3) in \<open>fastforce simp: cont_def\<close>)+
    have "c div 64 div 64 = unat a - 0xE0" "c div 64 mod 64 = unat b - 0x80"
      unfolding q(1) by (rule s64, use t(2) in \<open>fastforce simp: cont_def\<close>)+
    moreover have "c div 64 div 64 = c div 4096" by (simp flip: div_mult2_eq)
    moreover have "c < 0x10000" using t(2,3,6) 3 by (simp add: cont_def) linarith
    ultimately have e: "0xE0 + c div 4096 = unat a" "0x80 + c div 64 mod 64 = unat b"
      "0x80 + c mod 64 = unat d" "0x80 \<le> c" "0x800 \<le> c" "c < 0x10000"
      using 3 t(2-4) q(2) by (auto simp: cont_def)
    have "enc_char c = [a, b, d]" unfolding enc_char_def using e(4-6) by (simp add: e(1-3) w)
    then show ?thesis using t(1,5) by (simp add: bs)
  next
    case 4
    with assms obtain b d e where t: "t = b # d # e # r" "cont b" "cont d" "cont e" "0x10000 \<le> c" "scalar c"
      "c = (unat a - 0xF0) * 262144 + (unat b - 0x80) * 4096 + (unat d - 0x80) * 64 + (unat e - 0x80)"
      by (auto simp: dec_char_def bs Let_def split: list.splits if_splits)
    have c7: "c = (((unat a - 0xF0) * 64 + (unat b - 0x80)) * 64 + (unat d - 0x80)) * 64 + (unat e - 0x80)"
      by (simp add: t(7))
    have q: "c div 64 = ((unat a - 0xF0) * 64 + (unat b - 0x80)) * 64 + (unat d - 0x80)"
      "c mod 64 = unat e - 0x80"
      unfolding c7 by (rule s64, use t(4) in \<open>fastforce simp: cont_def\<close>)+
    have q2: "c div 64 div 64 = (unat a - 0xF0) * 64 + (unat b - 0x80)" "c div 64 mod 64 = unat d - 0x80"
      unfolding q(1) by (rule s64, use t(3) in \<open>fastforce simp: cont_def\<close>)+
    have "c div 64 div 64 div 64 = unat a - 0xF0" "c div 64 div 64 mod 64 = unat b - 0x80"
      unfolding q2(1) by (rule s64, use t(2) in \<open>fastforce simp: cont_def\<close>)+
    moreover have "c div 64 div 64 = c div 4096" "c div 4096 div 64 = c div 262144" by (simp_all flip: div_mult2_eq)
    ultimately have e: "0xF0 + c div 262144 = unat a" "0x80 + c div 4096 mod 64 = unat b"
      "0x80 + c div 64 mod 64 = unat d" "0x80 + c mod 64 = unat e" "0x10000 \<le> c"
      using 4 t(2-5) q(2) q2(2) by (auto simp: cont_def)
    have "enc_char c = [a, b, d, e]" unfolding enc_char_def using e(5) by (simp add: e(1-4) w)
    then show ?thesis using t(1,6) by (simp add: bs)
  qed
qed

lemma as_from_bytes: "from_utf8 bs = Some s \<Longrightarrow> as_bytes s = bs \<and> list_all scalar s"
proof (induction bs arbitrary: s rule: from_utf8.induct)
  case (1 bs)
  show ?case
  proof (cases "bs = []")
    case True
    with 1 show ?thesis by (simp add: from_utf8.simps as_bytes_def)
  next
    case False
    with 1(2) obtain c r s' where d: "dec_char bs = Some (c, r)" "from_utf8 r = Some s'" "s = c # s'"
      by (subst (asm) from_utf8.simps) (auto split: option.splits)
    from 1(1) [OF False d(1) refl d(2)] enc_dec_char [OF d(1)] d(3)
    show ?thesis by (simp add: as_bytes_def)
  qed
qed


section \<open>Searching, trimming, splitting\<close>

text \<open>The first position of a pattern, as \<^verbatim>\<open>str::find\<close> returns it.\<close>

definition find_sub :: "'a list \<Rightarrow> 'a list \<Rightarrow> nat option" where
  "find_sub pat s =
     (if pat = [] \<or> length pat > length s then None
      else find (\<lambda>i. take (length pat) (drop i s) = pat) [0..<Suc (length s - length pat)])"

definition white_space :: "nat \<Rightarrow> bool" where
  "white_space c \<longleftrightarrow> (9 \<le> c \<and> c \<le> 13) \<or> c = 32 \<or> c = 0x85 \<or> c = 0xA0 \<or> c = 0x1680
     \<or> (0x2000 \<le> c \<and> c \<le> 0x200A) \<or> c = 0x2028 \<or> c = 0x2029 \<or> c = 0x202F \<or> c = 0x205F \<or> c = 0x3000"

definition trim :: "str \<Rightarrow> str" where
  "trim s = rev (dropWhile white_space (rev (dropWhile white_space s)))"

definition strip_cr :: "str \<Rightarrow> str" where
  "strip_cr s = (if s \<noteq> [] \<and> last s = 13 then butlast s else s)"

function str_lines :: "str \<Rightarrow> str list" where
  "str_lines s =
     (if s = [] then []
      else let l = takeWhile (\<lambda>c. c \<noteq> 10) s; r = dropWhile (\<lambda>c. c \<noteq> 10) s in
        if r = [] then [l] else strip_cr l # str_lines (tl r))"
  by pat_completeness auto
termination
proof (relation "measure length")
  fix s x xa assume "s \<noteq> []" "xa = dropWhile (\<lambda>c. c \<noteq> (10 :: nat)) s" "xa \<noteq> []"
  then show "(tl xa, s) \<in> measure length"
    using length_dropWhile_le [of "\<lambda>c. c \<noteq> 10" s] by (simp add: less_le_trans [of _ "length xa"])
qed simp

declare str_lines.simps [simp del]

definition ascii_space :: "nat \<Rightarrow> bool" where
  "ascii_space c \<longleftrightarrow> c = 32 \<or> c = 9 \<or> c = 10 \<or> c = 12 \<or> c = 13"

fun split_ascii_whitespace :: "str \<Rightarrow> str list" where
  "split_ascii_whitespace [] = []"
| "split_ascii_whitespace (c # s) =
     (if ascii_space c then split_ascii_whitespace s
      else if s = [] \<or> ascii_space (hd s) then [c] # split_ascii_whitespace s
      else (c # hd (split_ascii_whitespace s)) # tl (split_ascii_whitespace s))"

definition ascii_lower :: "nat \<Rightarrow> nat" where
  "ascii_lower c = (if 65 \<le> c \<and> c \<le> 90 then c + 32 else c)"

definition eq_ignore_ascii_case :: "str \<Rightarrow> str \<Rightarrow> bool" where
  "eq_ignore_ascii_case a b \<longleftrightarrow> map ascii_lower a = map ascii_lower b"

text \<open>A literal of the source.\<close>

definition lit :: "string \<Rightarrow> str" where
  "lit s = map of_char s"

lemma find_sub_Some:
  assumes "find_sub pat s = Some i"
  shows "i + length pat \<le> length s \<and> take (length pat) (drop i s) = pat \<and>
    (\<forall>j < i. take (length pat) (drop j s) \<noteq> pat)"
proof -
  from assms have le: "length pat \<le> length s"
    and "find (\<lambda>i. take (length pat) (drop i s) = pat) [0..<Suc (length s - length pat)] = Some i"
    by (auto simp: find_sub_def split: if_splits)
  then show ?thesis by (auto simp: find_Some_iff simp del: upt_Suc)
qed

lemma find_sub_None: "find_sub pat s = None \<Longrightarrow> pat \<noteq> [] \<Longrightarrow>
    \<forall>i. i + length pat \<le> length s \<longrightarrow> take (length pat) (drop i s) \<noteq> pat"
  by (auto simp: find_sub_def find_None_iff simp del: upt_Suc split: if_splits)

lemma find_sub_unique:
  assumes "pat \<noteq> []" "i + length pat \<le> length s" "take (length pat) (drop i s) = pat"
    and "\<And>j. j < i \<Longrightarrow> take (length pat) (drop j s) \<noteq> pat"
  shows "find_sub pat s = Some i"
proof (cases "find_sub pat s")
  case None
  then show ?thesis using find_sub_None [OF None assms(1)] assms(2,3) by blast
next
  case (Some k)
  from find_sub_Some [OF this] assms(3,4) have "\<not> i < k" "\<not> k < i" by auto
  then show ?thesis using Some by simp
qed

text \<open>An occurrence, once in the text, stays the first one when the text grows.\<close>

lemma find_sub_append:
  assumes "find_sub pat s = Some i"
  shows "find_sub pat (s @ t) = Some i"
proof (rule find_sub_unique)
  note f = find_sub_Some [OF assms]
  show "pat \<noteq> []" using assms by (auto simp: find_sub_def)
  show "i + length pat \<le> length (s @ t)" "take (length pat) (drop i (s @ t)) = pat"
    using f by simp_all
  fix j assume j: "j < i"
  have "length pat \<le> length (drop j s)" using f j by (simp add: le_diff_conv2)
  then have "take (length pat) (drop j (s @ t)) = take (length pat) (drop j s)" by simp
  with f j show "take (length pat) (drop j (s @ t)) \<noteq> pat" by simp
qed

section \<open>Decimal numbers\<close>

definition checked_mul :: "'n::len word \<Rightarrow> 'n word \<Rightarrow> 'n word option" where
  "checked_mul a b = (if unat a * unat b < 2 ^ LENGTH('n) then Some (a * b) else None)"

definition checked_add :: "'n::len word \<Rightarrow> 'n word \<Rightarrow> 'n word option" where
  "checked_add a b = (if unat a + unat b < 2 ^ LENGTH('n) then Some (a + b) else None)"

definition digit :: "nat \<Rightarrow> bool" where
  "digit c \<longleftrightarrow> 48 \<le> c \<and> c \<le> 57"

fun parse_loop :: "'n::len word \<Rightarrow> nat list \<Rightarrow> 'n word option" where
  "parse_loop r [] = Some r"
| "parse_loop r (b # bs) =
     (if \<not> digit b then None
      else case checked_mul r 10 of None \<Rightarrow> None
        | Some m \<Rightarrow> (case checked_add m (of_nat (b - 48)) of None \<Rightarrow> None
            | Some r' \<Rightarrow> parse_loop r' bs))"

text \<open>\<^verbatim>\<open>parse_u8\<close>, \<^verbatim>\<open>parse_u16\<close> and \<^verbatim>\<open>parse_usize\<close> at their width.\<close>

definition parse_dec :: "nat list \<Rightarrow> 'n::len word option" where
  "parse_dec s = (if s = [] then None else parse_loop 0 s)"

definition dec_val :: "nat list \<Rightarrow> nat" where
  "dec_val s = foldl (\<lambda>v b. v * 10 + (b - 48)) 0 s"

lemma foldl_dec_ge: "v \<le> foldl (\<lambda>v b. v * 10 + (b - 48)) v (s :: nat list)"
proof (induction s arbitrary: v)
  case (Cons b s)
  have "v \<le> v * 10 + (b - 48)" by simp
  also have "\<dots> \<le> foldl (\<lambda>v b. v * 10 + (b - 48)) (v * 10 + (b - 48)) s" by (rule Cons)
  finally show ?case by simp
qed simp

lemma parse_loop_iff:
  fixes r n :: "'n::len word"
  assumes "4 \<le> LENGTH('n)"
  shows "parse_loop r s = Some n \<longleftrightarrow>
    list_all digit s \<and> foldl (\<lambda>v b. v * 10 + (b - 48)) (unat r) s = unat n"
proof (induction s arbitrary: r)
  case Nil
  show ?case by (auto simp: word_unat_eq_iff)
next
  case (Cons b s)
  let ?N = "2 ^ LENGTH('n) :: nat" and ?f = "foldl (\<lambda>v b. v * 10 + (b - 48))"
  have N: "16 \<le> ?N" using assms power_increasing [of 4 "LENGTH('n)" "2 :: nat"] by simp
  have ten: "take_bit LENGTH('n) 10 = (10 :: nat)" using N by (simp add: take_bit_eq_mod)
  show ?case
  proof (cases "digit b")
    case True
    have d: "unat (of_nat (b - 48) :: 'n word) = b - 48"
    proof -
      have "b - 48 < ?N" using True N by (simp add: digit_def) linarith
      then show ?thesis by (simp add: unat_of_nat del: of_nat_diff)
    qed
    show ?thesis
    proof (cases "unat r * 10 + (b - 48) < ?N")
      case fits: True
      then have m: "checked_mul r 10 = Some (r * 10)" by (simp add: checked_mul_def ten)
      have um: "unat (r * 10) = unat r * 10" using fits by (simp add: unat_word_ariths ten)
      have a: "checked_add (r * 10) (of_nat (b - 48)) = Some (r * 10 + of_nat (b - 48))"
        using fits by (simp add: checked_add_def um d del: of_nat_diff)
      have "unat (r * 10 + of_nat (b - 48)) = unat r * 10 + (b - 48)"
        using fits by (simp add: unat_word_ariths(1) um d del: of_nat_diff)
      then show ?thesis using True Cons.IH by (simp add: m a del: of_nat_diff)
    next
      case False
      have none: "parse_loop r (b # s) = None"
      proof (cases "unat r * 10 < ?N")
        case True
        then have um: "unat (r * 10) = unat r * 10" by (simp add: unat_word_ariths ten)
        have "checked_mul r 10 = Some (r * 10)" using True by (simp add: checked_mul_def ten)
        moreover have "checked_add (r * 10) (of_nat (b - 48)) = None"
          using False by (simp add: checked_add_def um d del: of_nat_diff)
        ultimately show ?thesis by simp
      next
        case False
        then show ?thesis by (simp add: checked_mul_def ten)
      qed
      have n: "unat n < ?N" by (rule unsigned_less)
      have "?N \<le> unat r * 10 + (b - 48)" using False by (simp only: not_less)
      also have "\<dots> \<le> ?f (unat r * 10 + (b - 48)) s" by (rule foldl_dec_ge)
      finally have "?f (unat r) (b # s) \<noteq> unat n" using n unfolding foldl_Cons by linarith
      then show ?thesis using none by simp
    qed
  qed simp
qed

lemma parse_dec_iff:
  fixes n :: "'n::len word"
  assumes "4 \<le> LENGTH('n)"
  shows "parse_dec s = Some n \<longleftrightarrow> s \<noteq> [] \<and> list_all digit s \<and> dec_val s = unat n"
  using parse_loop_iff [OF assms, of 0 s n] by (auto simp: parse_dec_def dec_val_def)

text \<open>Decimal digits of a number, and parsing them back.\<close>

fun show_dec :: "nat \<Rightarrow> nat list" where
  "show_dec n = (if n < 10 then [48 + n] else show_dec (n div 10) @ [48 + n mod 10])"

declare show_dec.simps [simp del]

lemma show_dec_digits: "show_dec n \<noteq> [] \<and> list_all digit (show_dec n)"
proof (induction n rule: show_dec.induct)
  case (1 n)
  then show ?case by (cases "n < 10") (simp_all add: show_dec.simps [of n] digit_def)
qed

lemma dec_val_show [simp]: "dec_val (show_dec n) = n"
proof (induction n rule: show_dec.induct)
  case (1 n)
  then show ?case by (cases "n < 10") (simp_all add: show_dec.simps [of n] dec_val_def)
qed

lemma parse_show_dec:
  assumes "4 \<le> LENGTH('n::len)" "n < 2 ^ LENGTH('n)"
  shows "parse_dec (show_dec n) = Some (of_nat n :: 'n word)"
  using show_dec_digits [of n] assms by (simp add: parse_dec_iff unat_of_nat)

end
