(* ===== verification/Http_Request.thy ===== *)
theory Http_Request
  imports Rust_Text
begin

text \<open>
  \<^verbatim>\<open>src/http.rs\<close>: the request parser. Bytes arrive in pieces and are collected in a
  fixed buffer; the parser decides when a request is complete and then hands out method,
  path and body. \<^verbatim>\<open>usize\<close> is 32 bits on the card, and its arithmetic is kept at that
  width where a header value enters it.
\<close>

unbundle bit_operations_syntax

definition MAX_REQUEST :: nat where [src_consts]: "MAX_REQUEST = 512"

datatype http_method = Get | Post | Unknown

datatype parse_state = ReadingHeaders | ReadingBody u32 nat | Complete

record http_request =
  hbuf :: "u8 list"
  hlen :: nat
  hstate :: parse_state

definition http_new :: http_request where
  "http_new = \<lparr>hbuf = replicate MAX_REQUEST 0, hlen = 0, hstate = ReadingHeaders\<rparr>"

definition http_reset :: "http_request \<Rightarrow> http_request" where
  "http_reset r = r\<lparr>hlen := 0, hstate := ReadingHeaders\<rparr>"

definition is_complete :: "http_request \<Rightarrow> bool" where
  "is_complete r \<longleftrightarrow> hstate r = Complete"

section \<open>Helpers\<close>

definition crlf2 :: "u8 list" where
  "crlf2 = [13, 10, 13, 10]"

definition find_header_end :: "u8 list \<Rightarrow> nat option" where
  "find_header_end buf = find_sub crlf2 buf"

definition bytes :: "string \<Rightarrow> u8 list" where
  "bytes s = map of_char s"

definition digit_run :: "u8 list \<Rightarrow> u8 list" where
  "digit_run bs = takeWhile (\<lambda>b. digit (unat b)) bs"

definition header_number :: "u8 list \<Rightarrow> u8 list \<Rightarrow> u32 option" where
  "header_number headers pat =
     map_option (\<lambda>pos.
       (case parse_dec (map unat (digit_run (drop (pos + length pat) headers))) of
          Some v \<Rightarrow> v | None \<Rightarrow> 0)) (find_sub pat headers)"

definition parse_content_length :: "u8 list \<Rightarrow> u32" where
  "parse_content_length headers =
     (case header_number headers (bytes ''Content-Length: '') of
        Some v \<Rightarrow> v
      | None \<Rightarrow> (case header_number headers (bytes ''content-length: '') of
          Some v \<Rightarrow> v | None \<Rightarrow> 0))"

section \<open>Feeding\<close>

definition hdata :: "http_request \<Rightarrow> u8 list" where
  "hdata r = take (hlen r) (hbuf r)"

definition store :: "u8 list \<Rightarrow> http_request \<Rightarrow> http_request" where
  "store data r =
     (let n = min (length data) (MAX_REQUEST - hlen r) in
      r\<lparr>hbuf := splice (hlen r) (take n data) (hbuf r), hlen := hlen r + n\<rparr>)"

definition advance :: "http_request \<Rightarrow> http_request" where
  "advance r =
     (case hstate r of
        ReadingHeaders \<Rightarrow>
          (case find_header_end (hdata r) of
             Some end \<Rightarrow>
               let body_start = end + 4; cl = parse_content_length (take end (hdata r)) in
               if cl > 0 \<and> of_nat (hlen r) < of_nat body_start + cl
               then r\<lparr>hstate := ReadingBody cl body_start\<rparr>
               else r\<lparr>hstate := Complete\<rparr>
           | None \<Rightarrow> if hlen r \<ge> MAX_REQUEST then r\<lparr>hstate := Complete\<rparr> else r)
      | ReadingBody cl body_start \<Rightarrow>
          if of_nat (hlen r) \<ge> of_nat body_start + cl \<or> hlen r \<ge> MAX_REQUEST
          then r\<lparr>hstate := Complete\<rparr> else r
      | Complete \<Rightarrow> r)"

definition feed :: "http_request \<Rightarrow> u8 list \<Rightarrow> http_request" where
  "feed r data = advance (store data r)"

section \<open>The parts of a request\<close>

definition req_method :: "http_request \<Rightarrow> http_method" where
  "req_method r =
     (if hlen r \<ge> 4 \<and> take 4 (hbuf r) = bytes ''GET '' then Get
      else if hlen r \<ge> 5 \<and> take 5 (hbuf r) = bytes ''POST '' then Post
      else Unknown)"

definition str_or :: "str \<Rightarrow> u8 list \<Rightarrow> str" where
  "str_or d bs = (case from_utf8 bs of Some s \<Rightarrow> s | None \<Rightarrow> d)"

definition path :: "http_request \<Rightarrow> str" where
  "path r =
     (case req_method r of
        Unknown \<Rightarrow> lit ''/''
      | m \<Rightarrow>
         let start = (if m = Get then 4 else 5) in
         str_or (lit ''/'') (takeWhile (\<lambda>b. b \<noteq> 32 \<and> b \<noteq> 13) (drop start (hdata r))))"

definition body_str :: "http_request \<Rightarrow> str" where
  "body_str r =
     (case find_header_end (hdata r) of
        Some end \<Rightarrow> if end + 4 < hlen r then str_or [] (drop (end + 4) (hdata r)) else []
      | None \<Rightarrow> [])"

section \<open>Pieces add up\<close>

definition http_wf :: "http_request \<Rightarrow> bool" where
  "http_wf r \<longleftrightarrow> length (hbuf r) = MAX_REQUEST \<and> hlen r \<le> MAX_REQUEST \<and>
     (case hstate r of
        ReadingHeaders \<Rightarrow> find_header_end (hdata r) = None
      | ReadingBody cl bs \<Rightarrow> (\<exists>end. find_header_end (hdata r) = Some end \<and> bs = end + 4 \<and>
          cl = parse_content_length (take end (hdata r)) \<and> cl > 0 \<and> of_nat (hlen r) < of_nat bs + cl)
      | Complete \<Rightarrow> True)"

lemma find_header_end_bound: "find_header_end d = Some e \<Longrightarrow> e + 4 \<le> length d"
  using find_sub_Some [of crlf2 d e] by (simp add: find_header_end_def crlf2_def)

lemma find_header_end_append: "find_header_end d = Some e \<Longrightarrow> find_header_end (d @ t) = Some e"
  by (simp add: find_header_end_def find_sub_append)

lemma length_hdata: "http_wf r \<Longrightarrow> length (hdata r) = hlen r"
  by (simp add: hdata_def http_wf_def)

lemma store_hdata:
  assumes "length (hbuf r) = MAX_REQUEST" "hlen r + length d \<le> MAX_REQUEST"
  shows "hdata (store d r) = hdata r @ d" "hlen (store d r) = hlen r + length d"
    "length (hbuf (store d r)) = MAX_REQUEST" "hstate (store d r) = hstate r"
  using assms take_splice [of "hlen r" "hbuf r" d] by (simp_all add: store_def Let_def hdata_def)

lemma store_store:
  assumes "length (hbuf r) = MAX_REQUEST" "hlen r + length a + length b \<le> MAX_REQUEST"
  shows "store b (store a r) = store (a @ b) r"
proof -
  have m: "min (length a) (MAX_REQUEST - hlen r) = length a"
    "min (length b) (MAX_REQUEST - (hlen r + length a)) = length b"
    "min (length a + length b) (MAX_REQUEST - hlen r) = length a + length b"
    using assms(2) by simp_all
  have "splice (hlen r + length a) b (splice (hlen r) a (hbuf r)) = splice (hlen r) (a @ b) (hbuf r)"
    using assms by (intro splice_splice) simp
  then show ?thesis by (simp add: store_def Let_def m)
qed

lemma advance_upd: "advance r = r\<lparr>hstate := hstate (advance r)\<rparr>"
  by (simp add: advance_def Let_def split: parse_state.splits option.splits)

lemma hdata_state [simp]: "hdata (r\<lparr>hstate := s\<rparr>) = hdata r"
  by (simp add: hdata_def)

lemma http_wf_new: "http_wf http_new"
  by (simp add: http_wf_def http_new_def hdata_def find_header_end_def find_sub_def crlf2_def)

text \<open>The state after \<open>advance\<close>, as a function of the bytes collected so far.\<close>

definition state_of :: "u8 list \<Rightarrow> parse_state" where
  "state_of d =
     (case find_header_end d of
        Some e \<Rightarrow>
          let cl = parse_content_length (take e d) in
          if cl > 0 \<and> of_nat (length d) < of_nat (e + 4) + cl then ReadingBody cl (e + 4) else Complete
      | None \<Rightarrow> ReadingHeaders)"

lemma feed_state_of:
  assumes wf: "http_wf r" and nc: "hstate r \<noteq> Complete" and fits: "hlen r + length d < MAX_REQUEST"
  shows "feed r d = (store d r)\<lparr>hstate := state_of (hdata r @ d)\<rparr>"
proof -
  have b: "length (hbuf r) = MAX_REQUEST" using wf by (simp add: http_wf_def)
  note s = store_hdata [OF b less_imp_le [OF fits]]
  have len: "length (hdata r @ d) = hlen r + length d" using wf by (simp add: length_hdata)
  show ?thesis
  proof (cases "hstate r")
    case ReadingHeaders
    then show ?thesis using fits s len
      by (auto simp: feed_def advance_def state_of_def Let_def split: option.splits)
  next
    case (ReadingBody cl bs)
    with wf obtain e where e: "find_header_end (hdata r) = Some e" "bs = e + 4"
      "cl = parse_content_length (take e (hdata r))" "cl > 0" by (auto simp: http_wf_def)
    have t: "take e (hdata r @ d) = take e (hdata r)" using find_header_end_bound [OF e(1)] by simp
    have "state_of (hdata r @ d) =
        (if of_nat (hlen r + length d) < of_nat bs + cl then ReadingBody cl bs else Complete)"
      using find_header_end_append [OF e(1), of d] e(2-4) len unfolding state_of_def
      by (simp add: Let_def t del: take_append)
    moreover have "feed r d = (if of_nat (hlen r + length d) < of_nat bs + cl then store d r
        else (store d r)\<lparr>hstate := Complete\<rparr>)"
      using fits s ReadingBody by (simp add: feed_def advance_def not_less)
    ultimately show ?thesis using s(4) ReadingBody by (simp add: store_def Let_def)
  qed (use nc in simp)
qed

lemma state_of_wf:
  assumes "http_wf r" "hlen r + length d < MAX_REQUEST"
  shows "http_wf ((store d r)\<lparr>hstate := state_of (hdata r @ d)\<rparr>)"
proof -
  have "length (hdata r) = hlen r" "length (hbuf r) = MAX_REQUEST"
    using assms by (simp_all add: length_hdata http_wf_def)
  with store_hdata [of r d] assms show ?thesis
    by (auto simp: http_wf_def state_of_def Let_def split: option.splits if_splits)
qed

text \<open>A request that was complete stays complete when bytes follow.\<close>

lemma state_of_complete:
  assumes "state_of d = Complete" and "length d + length t < MAX_REQUEST"
  shows "state_of (d @ t) = Complete"
proof -
  obtain e where e: "find_header_end d = Some e"
    using assms by (auto simp: state_of_def split: option.splits)
  have le: "e \<le> length d" using find_header_end_bound [OF e] by simp
  let ?cl = "parse_content_length (take e d)"
  have "\<not> (?cl > 0 \<and> of_nat (length d) < of_nat (e + 4) + ?cl)"
    using assms e by (auto simp: state_of_def Let_def split: if_splits)
  moreover have "(of_nat (length d) :: u32) \<le> of_nat (length d + length t)"
    using assms(2) by (simp add: word_le_nat_alt unat_of_nat MAX_REQUEST_def del: of_nat_add)
  ultimately show ?thesis using find_header_end_append [OF e, of t] le
    by (auto simp: state_of_def Let_def simp del: of_nat_add)
qed

lemma feed_feed:
  assumes wf: "http_wf r" and fits: "hlen r + length a + length b < MAX_REQUEST"
  shows "feed (feed r a) b = feed r (a @ b)"
proof (cases "hstate r = Complete")
  case True
  have b: "length (hbuf r) = MAX_REQUEST" using wf by (simp add: http_wf_def)
  have "feed r x = store x r" if "hlen r + length x < MAX_REQUEST" for x
    using True store_hdata(4) [OF b, of x] that by (simp add: feed_def advance_def)
  moreover have "feed (store a r) b = store b (store a r)"
    using True fits b store_hdata [OF b, of a] store_hdata(4) [of "store a r" b]
    by (simp add: feed_def advance_def)
  ultimately show ?thesis using fits store_store [OF b, of a b] by simp
next
  case False
  let ?r = "(store a r)\<lparr>hstate := state_of (hdata r @ a)\<rparr>"
  have b: "length (hbuf r) = MAX_REQUEST" using wf by (simp add: http_wf_def)
  have ra: "feed r a = ?r" using feed_state_of [OF wf False] fits by simp
  have wfa: "http_wf ?r" using state_of_wf [OF wf] fits by simp
  have ha: "hdata ?r = hdata r @ a" "hlen ?r = hlen r + length a"
    using store_hdata [OF b, of a] fits by simp_all
  have st: "(store b ?r)\<lparr>hstate := s\<rparr> = (store (a @ b) r)\<lparr>hstate := s\<rparr>" for s
    using store_store [OF b, of a b] fits by (simp add: store_def Let_def)
  show ?thesis
  proof (cases "hstate ?r = Complete")
    case True
    then have c: "state_of (hdata r @ a) = Complete" by simp
    have l: "length (hdata r @ a) = hlen r + length a" using wf by (simp add: length_hdata)
    have "state_of (hdata r @ a @ b) = Complete"
      using state_of_complete [OF c, of b] fits l by simp
    moreover have "feed ?r b = (store b ?r)\<lparr>hstate := Complete\<rparr>"
      using c by (simp add: feed_def advance_def store_def Let_def)
    ultimately show ?thesis using ra st feed_state_of [OF wf False, of "a @ b"] fits by simp
  next
    case nc: False
    then show ?thesis
      using ra ha st feed_state_of [OF wfa nc, of b] feed_state_of [OF wf False, of "a @ b"] fits by simp
  qed
qed


lemma feed_nil:
  assumes "http_wf r" "hlen r < MAX_REQUEST"
  shows "feed r [] = r"
proof -
  have b: "length (hbuf r) = MAX_REQUEST" using assms by (simp add: http_wf_def)
  have "store [] r = r" by (simp add: store_def Let_def splice_def)
  moreover have "advance r = r"
    using assms(1,2) by (auto simp: advance_def http_wf_def Let_def not_le split: parse_state.splits option.splits)
  ultimately show ?thesis by (simp add: feed_def)
qed

lemma feed_keeps_wf:
  assumes "http_wf r" "hlen r + length d < MAX_REQUEST"
  shows "http_wf (feed r d) \<and> hlen (feed r d) = hlen r + length d"
proof (cases "hstate r = Complete")
  case False
  with feed_state_of [OF assms(1) False assms(2)] state_of_wf [OF assms] store_hdata(2) [of r d] assms
  show ?thesis by (simp add: http_wf_def)
next
  case True
  with store_hdata [of r d] assms show ?thesis by (simp add: feed_def advance_def http_wf_def)
qed

definition feeds :: "http_request \<Rightarrow> u8 list list \<Rightarrow> http_request" where
  "feeds r chunks = foldl feed r chunks"

lemma feeds_concat:
  "http_wf r \<Longrightarrow> hlen r + length (concat chunks) < MAX_REQUEST \<Longrightarrow> feeds r chunks = feed r (concat chunks)"
proof (induction chunks arbitrary: r)
  case Nil
  then show ?case by (simp add: feeds_def feed_nil)
next
  case (Cons c cs)
  have "feeds (feed r c) cs = feed (feed r c) (concat cs)"
    using feed_keeps_wf [OF Cons.prems(1), of c] Cons.prems(2) by (intro Cons.IH) auto
  moreover have "feed (feed r c) (concat cs) = feed r (c @ concat cs)"
    using Cons.prems by (intro feed_feed) auto
  ultimately show ?case by (simp add: feeds_def)
qed

lemma feeds_new:
  assumes "length (concat chunks) < MAX_REQUEST"
  shows "hdata (feeds http_new chunks) = concat chunks"
    "hstate (feeds http_new chunks) = state_of (concat chunks)"
    "hlen (feeds http_new chunks) = length (concat chunks)"
    "length (hbuf (feeds http_new chunks)) = MAX_REQUEST"
proof -
  have n: "hlen http_new = 0" "hstate http_new \<noteq> Complete" "hdata http_new = []"
    "length (hbuf http_new) = MAX_REQUEST"
    by (simp_all add: http_new_def hdata_def)
  have "feeds http_new chunks = feed http_new (concat chunks)"
    using assms by (intro feeds_concat http_wf_new) (simp add: n)
  then show "hdata (feeds http_new chunks) = concat chunks"
    "hstate (feeds http_new chunks) = state_of (concat chunks)"
    "hlen (feeds http_new chunks) = length (concat chunks)"
    "length (hbuf (feeds http_new chunks)) = MAX_REQUEST"
    using feed_state_of [OF http_wf_new n(2), of "concat chunks"] store_hdata [of http_new "concat chunks"] assms n
    by simp_all
qed

section \<open>A request, whatever way it is cut\<close>

text \<open>
  A request in order: its head ends where the first blank line is, and announces the length of
  the body that follows.
\<close>

definition request :: "u8 list \<Rightarrow> u8 list \<Rightarrow> u8 list" where
  "request head body = head @ crlf2 @ body"

definition well_formed :: "u8 list \<Rightarrow> u8 list \<Rightarrow> bool" where
  "well_formed head body \<longleftrightarrow>
     find_header_end (head @ crlf2) = Some (length head) \<and>
     parse_content_length head = of_nat (length body) \<and>
     length (request head body) < MAX_REQUEST"

lemma state_of_request:
  assumes wf: "well_formed head body"
  shows "state_of (request head body) = Complete"
proof -
  have "find_header_end (request head body) = Some (length head)"
    using wf find_header_end_append [of "head @ crlf2" "length head" body]
    by (simp add: well_formed_def request_def)
  then show ?thesis using wf
    by (simp add: state_of_def well_formed_def request_def Let_def crlf2_def add.commute add.left_commute)
qed

lemma state_of_strict_prefix:
  assumes wf: "well_formed head body" and pre: "request head body = d @ t" "t \<noteq> []"
  shows "state_of d \<noteq> Complete"
proof (cases "find_header_end d")
  case (Some e)
  have fe: "find_header_end (request head body) = Some (length head)"
    using wf find_header_end_append [of "head @ crlf2" "length head" body]
    by (simp add: well_formed_def request_def)
  have e: "e = length head" using find_header_end_append [OF Some, of t] fe pre(1) by simp
  have b: "e + 4 \<le> length d" by (rule find_header_end_bound [OF Some])
  have len: "length d + length t = length head + 4 + length body"
    using arg_cong [OF pre(1), of length] by (simp add: request_def crlf2_def)
  have "take e d = head"
    using arg_cong [OF pre(1), of "take e"] b e by (simp add: request_def)
  then have cl: "parse_content_length (take e d) = of_nat (length body)"
    using wf by (simp add: well_formed_def)
  have small: "length head + 4 + length body < 512"
    using wf by (simp add: well_formed_def request_def crlf2_def MAX_REQUEST_def)
  have lt: "length d < e + 4 + length body" using len e pre(2) by (cases t) simp_all
  have "(0 :: u32) < of_nat (length body)"
  proof -
    have "0 < length body" using lt b by linarith
    then show ?thesis using small by (simp add: word_less_nat_alt unat_of_nat)
  qed
  moreover have "(of_nat (length d) :: u32) < of_nat (e + 4 + length body)"
    using lt small e by (simp add: word_less_nat_alt unat_of_nat del: of_nat_add)
  ultimately show ?thesis using Some cl by (simp add: state_of_def Let_def)
qed (simp add: state_of_def)

lemma path_takeWhile:
  "\<forall>b \<in> set p. b \<noteq> 32 \<and> b \<noteq> 13 \<Longrightarrow> takeWhile (\<lambda>b. b \<noteq> 32 \<and> b \<noteq> (13 :: u8)) (p @ 32 # rest) = p"
  by (simp add: takeWhile_append2)

text \<open>
  C10. However TCP cuts a request of fewer than 512 bytes into pieces, the parser reports it
  complete exactly when its last byte has been fed, and not before.
\<close>

theorem request_complete_iff:
  assumes "well_formed head body" and "request head body = concat chunks @ t"
  shows "is_complete (feeds http_new chunks) \<longleftrightarrow> t = []"
proof -
  have "length (concat chunks) < MAX_REQUEST"
    using arg_cong [OF assms(2), of length] assms(1) by (simp add: well_formed_def)
  then have "is_complete (feeds http_new chunks) \<longleftrightarrow> state_of (concat chunks) = Complete"
    by (simp add: is_complete_def feeds_new)
  then show ?thesis
    using state_of_request [OF assms(1)] state_of_strict_prefix [OF assms] assms(2) by auto
qed

definition sample_head :: "u8 list" where
  "sample_head = bytes ''POST /a HTTP/1.1'' @ [13, 10] @ bytes ''Content-Length: 2''"

lemma sample_well_formed: "well_formed sample_head [104, 105]"
  unfolding well_formed_def
proof (intro conjI)
  show "find_header_end (sample_head @ crlf2) = Some (length sample_head)"
    by (simp add: find_header_end_def find_sub_def sample_head_def bytes_def crlf2_def upt_rec)
  show "parse_content_length sample_head = of_nat (length [104, 105 :: u8])"
    by (simp add: parse_content_length_def header_number_def find_sub_def sample_head_def bytes_def
        upt_rec digit_run_def parse_dec_def checked_mul_def checked_add_def digit_def)
  show "length (request sample_head [104, 105]) < MAX_REQUEST"
    by (simp add: request_def sample_head_def bytes_def crlf2_def MAX_REQUEST_def)
qed

lemma request_complete_iff_witness:
  "is_complete (feeds http_new [take 10 (request sample_head [104, 105]), drop 10 (request sample_head [104, 105])])"
  using request_complete_iff [OF sample_well_formed,
      of "[take 10 (request sample_head [104, 105]), drop 10 (request sample_head [104, 105])]" "[]"]
  by simp

lemma parts_of_request:
  assumes "well_formed head body" and "concat chunks = request head body"
    and "head = bytes (if m = Get then ''GET '' else ''POST '') @ p @ 32 # rest" and "m \<noteq> Unknown"
    and "\<forall>b \<in> set p. b \<noteq> 32 \<and> b \<noteq> 13" and "from_utf8 p = Some ps" and "from_utf8 body = Some bs"
  shows "req_method (feeds http_new chunks) = m \<and> path (feeds http_new chunks) = ps \<and>
    body_str (feeds http_new chunks) = bs"
proof -
  let ?r = "feeds http_new chunks"
  have len: "length (concat chunks) < MAX_REQUEST" using assms(1,2) by (simp add: well_formed_def)
  note f = feeds_new [OF len, unfolded assms(2)]
  have hb: "take n (hbuf ?r) = take n (request head body)" if "n \<le> length (request head body)" for n
    using arg_cong [OF f(1), of "take n"] f(3) that by (simp add: hdata_def min_def)
  have pre: "length (bytes ''GET '') = 4" "length (bytes ''POST '') = 5" by (simp_all add: bytes_def)
  have m: "req_method ?r = m"
  proof (cases "m = Get")
    case True
    then show ?thesis using hb [of 4] f(3) assms(3) pre
      by (simp add: req_method_def request_def)
  next
    case False
    then have "m = Post" using assms(4) by (cases m) auto
    moreover have "take 4 (bytes ''POST '') \<noteq> bytes ''GET ''" by (simp add: bytes_def)
    ultimately show ?thesis using hb [of 4] hb [of 5] f(3) assms(3) pre
      by (simp add: req_method_def request_def)
  qed
  have "takeWhile (\<lambda>b. b \<noteq> 32 \<and> b \<noteq> 13) (drop (if m = Get then 4 else 5) (hdata ?r)) = p"
    using path_takeWhile [OF assms(5)] f(1) pre assms(3) by (auto simp: request_def)
  then have "path ?r = ps"
    using m assms(4,6) by (cases m) (simp_all add: path_def str_or_def)
  moreover have "find_header_end (request head body) = Some (length head)"
    using assms(1) find_header_end_append [of "head @ crlf2" "length head" body]
    by (simp add: well_formed_def request_def)
  then have "body_str ?r = bs"
    using f(1,3) assms(7) by (cases body)
      (simp_all add: body_str_def request_def crlf2_def str_or_def from_utf8.simps)
  ultimately show ?thesis using m by simp
qed

text \<open>
  C11. From a complete request the parser hands out the method, the path between the method and
  the next space, and the body, decoded from UTF-8.
\<close>

theorem request_parts:
  assumes "well_formed head body" and "concat chunks = request head body"
    and "head = bytes (if m = Get then ''GET '' else ''POST '') @ p @ 32 # rest" and "m \<noteq> Unknown"
    and "\<forall>b \<in> set p. b \<noteq> 32 \<and> b \<noteq> 13" and "from_utf8 p = Some ps" and "from_utf8 body = Some bs"
  shows "req_method (feeds http_new chunks) = m \<and> path (feeds http_new chunks) = ps \<and>
    body_str (feeds http_new chunks) = bs"
  by (rule parts_of_request [OF assms])

lemma request_parts_witness:
  "path (feeds http_new [request sample_head [104, 105]]) = [47, 97] \<and>
   body_str (feeds http_new [request sample_head [104, 105]]) = [104, 105]"
proof -
  have "from_utf8 [47, 97] = Some [47, 97]" "from_utf8 [104, 105] = Some [104, 105]" by code_simp+
  then show ?thesis
    using request_parts [OF sample_well_formed, of "[request sample_head [104, 105]]" Post "[47, 97]"
        "bytes ''HTTP/1.1'' @ [13, 10] @ bytes ''Content-Length: 2''" "[47, 97]" "[104, 105]"]
    by (simp add: sample_head_def bytes_def)
qed

end
