(* ===== verification/Layout.thy ===== *)
theory Layout
  imports Rust_Text
begin

text \<open>
  \<^verbatim>\<open>src/layout.rs\<close>: the panel layout and its text form. Parsing never fails; a line
  it does not understand leaves the layout as it was.
\<close>

unbundle bit_operations_syntax

definition MAX_OUTPUTS :: nat where [src_consts]: "MAX_OUTPUTS = 8"
definition MAX_CHAIN :: nat where [src_consts]: "MAX_CHAIN = 2"
definition MAX_GROUPS :: nat where [src_consts]: "MAX_GROUPS = 4"
definition POS_UNIT :: u16 where [src_consts]: "POS_UNIT = 16"
definition MAX_PROGRAM_NAME :: nat where [src_consts]: "MAX_PROGRAM_NAME = 24"

datatype display_mode = StreamMode | ProgramMode

record layout =
  panel_width :: u16
  panel_height :: u16
  grid_cols :: u8
  grid_rows :: u8
  assignments :: "(u8 \<times> u8) option list list"
  lmode :: display_mode
  lprogram :: "u8 list"
  program_len :: nat
  drive :: "u8 list"
  drive_len :: nat
  clk_div :: u8
  write_throttle :: u8
  rgb_order :: u8
  group_origins :: "(u16 \<times> u16) list"
  group_origins_len :: nat

definition RGB_ORDERS :: "str list" where
  "RGB_ORDERS = map lit [''RGB'', ''RBG'', ''GRB'', ''GBR'', ''BRG'', ''BGR'']"

definition scan_rows :: "layout \<Rightarrow> u16" where
  "scan_rows cfg = max 1 (panel_height cfg div 2)"

definition no_assignments :: "(u8 \<times> u8) option list list" where
  "no_assignments = replicate MAX_OUTPUTS (replicate MAX_CHAIN None)"

definition single_panel :: "u16 \<Rightarrow> u16 \<Rightarrow> layout" where
  "single_panel width height =
     \<lparr>panel_width = width, panel_height = height, grid_cols = 1, grid_rows = 1,
      assignments = no_assignments[0 := (no_assignments ! 0)[0 := Some (0, 0)]],
      lmode = StreamMode, lprogram = replicate MAX_PROGRAM_NAME 0, program_len = 0,
      drive = replicate MAX_PROGRAM_NAME 0, drive_len = 0, clk_div = 0, write_throttle = 0,
      rgb_order = 0, group_origins = replicate MAX_GROUPS (0, 0), group_origins_len = 0\<rparr>"

definition program_name :: "layout \<Rightarrow> str" where
  "program_name cfg =
     (case from_utf8 (take (program_len cfg) (lprogram cfg)) of Some s \<Rightarrow> s | None \<Rightarrow> [])"

definition drive_name :: "layout \<Rightarrow> str" where
  "drive_name cfg =
     (case from_utf8 (take (drive_len cfg) (drive cfg)) of Some s \<Rightarrow> s | None \<Rightarrow> [])"

definition virtual_width :: "layout \<Rightarrow> u16" where
  "virtual_width cfg = panel_width cfg * ucast (grid_cols cfg)"

definition virtual_height :: "layout \<Rightarrow> u16" where
  "virtual_height cfg = panel_height cfg * ucast (grid_rows cfg)"

definition virtual_length :: "layout \<Rightarrow> u32" where
  "virtual_length cfg = ucast (virtual_width cfg) * ucast (virtual_height cfg)"

section \<open>Values\<close>

definition parse_u8 :: "str \<Rightarrow> u8 option" where "parse_u8 s = parse_dec s"

definition parse_u16 :: "str \<Rightarrow> u16 option" where "parse_u16 s = parse_dec s"

definition split_at :: "nat \<Rightarrow> str \<Rightarrow> (str \<times> str) option" where
  "split_at c s = map_option (\<lambda>pos. (take pos s, drop (pos + 1) s)) (find_sub [c] s)"

definition both :: "('a \<Rightarrow> 'b option) \<Rightarrow> ('a \<times> 'a) option \<Rightarrow> ('b \<times> 'b) option" where
  "both p ab = Option.bind ab (\<lambda>(a, b). Option.bind (p a) (\<lambda>x. map_option (Pair x) (p b)))"

definition parse_grid :: "str \<Rightarrow> (u8 \<times> u8) option" where
  "parse_grid s = both parse_u8 (split_at 120 s)"

definition parse_pos16 :: "str \<Rightarrow> (u16 \<times> u16) option" where
  "parse_pos16 s = both parse_u16 (split_at 44 s)"

definition parse_pos :: "str \<Rightarrow> (u8 \<times> u8) option" where
  "parse_pos s = both parse_u8 (split_at 44 s)"

section \<open>Lines\<close>

definition copy_name :: "str \<Rightarrow> u8 list \<Rightarrow> u8 list" where
  "copy_name value buf = splice 0 (take MAX_PROGRAM_NAME (as_bytes value)) buf"

definition name_len :: "str \<Rightarrow> nat" where
  "name_len value = min (length (as_bytes value)) MAX_PROGRAM_NAME"

text \<open>\<^verbatim>\<open>group_origins:\<close> counts the positions that parse, four at most.\<close>

fun group_loop :: "nat \<Rightarrow> str list \<Rightarrow> (u16 \<times> u16) list \<Rightarrow> nat \<times> (u16 \<times> u16) list" where
  "group_loop n [] g = (n, g)"
| "group_loop n (t # ts) g =
     (if n \<ge> MAX_GROUPS then (n, g)
      else case parse_pos16 t of
        Some xy \<Rightarrow> group_loop (n + 1) ts (g[n := xy])
      | None \<Rightarrow> group_loop n ts g)"

fun chain_loop :: "nat \<Rightarrow> str list \<Rightarrow> (u8 \<times> u8) option list \<Rightarrow> (u8 \<times> u8) option list" where
  "chain_loop chain [] slots = slots"
| "chain_loop chain (t # ts) slots =
     (if chain \<ge> MAX_CHAIN then slots
      else chain_loop (chain + 1) ts
        (case parse_pos t of Some p \<Rightarrow> slots[chain := Some p] | None \<Rightarrow> slots))"

definition order_index :: "str \<Rightarrow> nat" where
  "order_index want =
     (case find (\<lambda>i. eq_ignore_ascii_case (RGB_ORDERS ! i) want) [0..<length RGB_ORDERS] of
        Some i \<Rightarrow> i | None \<Rightarrow> 0)"

definition apply_connector :: "str \<Rightarrow> str \<Rightarrow> layout \<Rightarrow> layout" where
  "apply_connector rest value cfg =
     (case parse_u8 rest of
        None \<Rightarrow> cfg
      | Some n \<Rightarrow>
         if 1 \<le> unat n \<and> unat n \<le> MAX_OUTPUTS
         then let idx = unat n - 1 in
           cfg\<lparr>assignments := (assignments cfg)
             [idx := chain_loop 0 (split_ascii_whitespace value) (assignments cfg ! idx)]\<rparr>
         else cfg)"

definition apply_kv :: "str \<Rightarrow> str \<Rightarrow> layout \<Rightarrow> layout" where
  "apply_kv key value cfg =
     (if key = lit ''grid'' then
        (case parse_grid value of Some (c, r) \<Rightarrow> cfg\<lparr>grid_cols := c, grid_rows := r\<rparr> | None \<Rightarrow> cfg)
      else if key = lit ''panel_width'' then
        (case parse_u16 value of Some w \<Rightarrow> cfg\<lparr>panel_width := w\<rparr> | None \<Rightarrow> cfg)
      else if key = lit ''mode'' then
        cfg\<lparr>lmode := if eq_ignore_ascii_case value (lit ''program'') then ProgramMode else StreamMode\<rparr>
      else if key = lit ''program'' then
        cfg\<lparr>lprogram := copy_name value (lprogram cfg), program_len := name_len value\<rparr>
      else if key \<in> {lit ''rgb_order'', lit ''color_order'', lit ''colour_order''} then
        cfg\<lparr>rgb_order := of_nat (order_index (trim value))\<rparr>
      else if key \<in> {lit ''drive'', lit ''drive_type'', lit ''chip''} then
        cfg\<lparr>drive := copy_name value (drive cfg), drive_len := name_len value\<rparr>
      else if key \<in> {lit ''clk_div'', lit ''clock_div''} then
        (case parse_u16 value of Some v \<Rightarrow> cfg\<lparr>clk_div := ucast (min v 255)\<rparr> | None \<Rightarrow> cfg)
      else if key \<in> {lit ''write_throttle'', lit ''dma_throttle''} then
        (case parse_u16 value of Some v \<Rightarrow> cfg\<lparr>write_throttle := ucast (min v 15)\<rparr> | None \<Rightarrow> cfg)
      else if key = lit ''panel_height'' then
        (case parse_u16 value of Some h \<Rightarrow> cfg\<lparr>panel_height := h\<rparr> | None \<Rightarrow> cfg)
      else if key \<in> {lit ''group_origins'', lit ''groups''} then
        (case group_loop 0 (split_ascii_whitespace value) (group_origins cfg) of
           (n, g) \<Rightarrow> cfg\<lparr>group_origins := g, group_origins_len := n\<rparr>)
      else if key \<noteq> [] \<and> hd key = 74 then apply_connector (tl key) value cfg
      else cfg)"

definition split_kv :: "str \<Rightarrow> (str \<times> str) option" where
  "split_kv line =
     (case (case find_sub [61] line of Some pos \<Rightarrow> Some pos | None \<Rightarrow> find_sub [58, 32] line) of
        None \<Rightarrow> None
      | Some pos \<Rightarrow>
          let skip = (if line ! pos = 58 then 2 else 1) in
          Some (trim (take pos line), trim (drop (pos + skip) line)))"

definition apply_line :: "str \<Rightarrow> layout \<Rightarrow> layout" where
  "apply_line raw cfg =
     (let line = trim raw in
      if line = [] \<or> hd line = 35 then cfg
      else case split_kv line of None \<Rightarrow> cfg | Some (key, value) \<Rightarrow> apply_kv key value cfg)"

definition layout_parse :: "str \<Rightarrow> layout option" where
  "layout_parse text =
     Some (fold apply_line (str_lines text) ((single_panel 96 48)\<lparr>assignments := no_assignments\<rparr>))"

definition parse_grid_spec :: "str \<Rightarrow> (u8 \<times> u8) option" where
  "parse_grid_spec s = parse_grid s"

definition parse_pos_spec :: "str \<Rightarrow> (u8 \<times> u8) option" where
  "parse_pos_spec s = parse_pos s"

section \<open>Bounds\<close>

text \<open>What the rest of the firmware relies on: arrays of their size, lengths inside them,
  and values in the range of the register they go to.\<close>

definition layout_inv :: "layout \<Rightarrow> bool" where
  "layout_inv cfg \<longleftrightarrow>
     length (assignments cfg) = MAX_OUTPUTS \<and> (\<forall>s \<in> set (assignments cfg). length s = MAX_CHAIN) \<and>
     length (lprogram cfg) = MAX_PROGRAM_NAME \<and> program_len cfg \<le> MAX_PROGRAM_NAME \<and>
     length (drive cfg) = MAX_PROGRAM_NAME \<and> drive_len cfg \<le> MAX_PROGRAM_NAME \<and>
     unat (write_throttle cfg) \<le> 15 \<and> unat (rgb_order cfg) < length RGB_ORDERS \<and>
     length (group_origins cfg) = MAX_GROUPS \<and> group_origins_len cfg \<le> MAX_GROUPS"

lemma length_chain_loop [simp]: "length (chain_loop k ts slots) = length slots"
  by (induction k ts slots rule: chain_loop.induct) (auto split: option.splits)

lemma group_loop_bound:
  "n \<le> MAX_GROUPS \<Longrightarrow> fst (group_loop n ts g) \<le> MAX_GROUPS \<and> length (snd (group_loop n ts g)) = length g"
  by (induction n ts g rule: group_loop.induct) (auto split: option.splits)

lemma order_index_less: "order_index want < length RGB_ORDERS"
proof -
  have "0 < length RGB_ORDERS" by (simp add: RGB_ORDERS_def)
  then show ?thesis by (auto simp: order_index_def find_Some_iff split: option.splits)
qed

lemma length_copy_name [simp]:
  "length buf = MAX_PROGRAM_NAME \<Longrightarrow> length (copy_name value buf) = MAX_PROGRAM_NAME"
  by (simp add: copy_name_def)

lemma unat_min_ucast: "unat (ucast (min v 15 :: u16) :: u8) \<le> 15"
proof -
  have "unat (min v 15) \<le> 15" by (simp add: min_def word_le_nat_alt)
  then show ?thesis by (simp add: unsigned_ucast_eq take_bit_eq_mod)
qed

lemma layout_inv_if: "layout_inv x \<Longrightarrow> layout_inv y \<Longrightarrow> layout_inv (if b then x else y)"
  by simp

lemma apply_kv_inv: "layout_inv cfg \<Longrightarrow> layout_inv (apply_kv key value cfg)"
proof -
  assume inv: "layout_inv cfg"
  have rgb: "unat (of_nat (order_index (trim value)) :: u8) < length RGB_ORDERS"
    using order_index_less [of "trim value"] by (simp add: RGB_ORDERS_def unat_of_nat)
  have grp: "layout_inv (case group_loop 0 (split_ascii_whitespace value) (group_origins cfg) of
           (n, g) \<Rightarrow> cfg\<lparr>group_origins := g, group_origins_len := n\<rparr>)"
    using group_loop_bound [of 0 "split_ascii_whitespace value" "group_origins cfg"] inv
    by (auto simp: layout_inv_def split: prod.splits)
  have con: "layout_inv (apply_connector rest value cfg)" for rest
    using inv by (auto simp: apply_connector_def layout_inv_def Let_def MAX_OUTPUTS_def
        split: option.splits dest!: set_update_subset_insert [THEN subsetD])
  have names: "name_len value \<le> MAX_PROGRAM_NAME" by (simp add: name_len_def)
  show ?thesis
    unfolding apply_kv_def
    apply (intro layout_inv_if)
    subgoal using inv by (auto simp: layout_inv_def split: option.splits)
    subgoal using inv by (auto simp: layout_inv_def split: option.splits)
    subgoal using inv by (auto simp: layout_inv_def)
    subgoal using inv names by (auto simp: layout_inv_def)
    subgoal using inv rgb by (auto simp: layout_inv_def)
    subgoal using inv names by (auto simp: layout_inv_def)
    subgoal using inv by (auto simp: layout_inv_def split: option.splits)
    subgoal using inv unat_min_ucast by (auto simp: layout_inv_def split: option.splits)
    subgoal using inv by (auto simp: layout_inv_def split: option.splits)
    subgoal using grp .
    subgoal by (rule con)
    subgoal by (rule inv)
    done
qed

lemma apply_line_inv: "layout_inv cfg \<Longrightarrow> layout_inv (apply_line raw cfg)"
  by (auto simp: apply_line_def Let_def apply_kv_inv split: option.splits)

lemma layout_start_inv: "layout_inv ((single_panel w h)\<lparr>assignments := no_assignments\<rparr>)"
  by (simp add: layout_inv_def single_panel_def no_assignments_def RGB_ORDERS_def)

lemma fold_lines_inv: "layout_inv cfg \<Longrightarrow> layout_inv (fold apply_line ls cfg)"
  by (induction ls arbitrary: cfg) (simp_all add: apply_line_inv)


section \<open>Reading back what was written\<close>

definition tight :: "str \<Rightarrow> bool" where
  "tight s \<longleftrightarrow> s \<noteq> [] \<and> \<not> white_space (hd s) \<and> \<not> white_space (last s)"

lemma trim_tight: "tight s \<Longrightarrow> trim s = s"
  by (simp add: trim_def tight_def hd_rev dropWhile_eq_self_iff [THEN iffD2])

lemma find_sub_single:
  assumes "c \<notin> set k"
  shows "find_sub [c] (k @ c # v) = Some (length k)"
proof (rule find_sub_unique)
  fix j assume "j < length k"
  then show "take (length [c]) (drop j (k @ c # v)) \<noteq> [c]"
    using assms by (auto simp: take_Suc_conv_app_nth nth_append Cons_nth_drop_Suc [symmetric])
qed simp_all

lemma split_at_append: "c \<notin> set a \<Longrightarrow> split_at c (a @ c # b) = Some (a, b)"
  by (simp add: split_at_def find_sub_single)

lemma split_kv_append:
  "61 \<notin> set k \<Longrightarrow> split_kv (k @ 61 # v) = Some (trim k, trim v)"
  by (simp add: split_kv_def find_sub_single Let_def nth_append)

lemma split_ws_single:
  "a \<noteq> [] \<Longrightarrow> \<forall>c \<in> set a. \<not> ascii_space c \<Longrightarrow> split_ascii_whitespace a = [a]"
proof (induction a)
  case (Cons c a)
  then show ?case by (cases a) auto
qed simp

lemma split_ws_append:
  "a \<noteq> [] \<Longrightarrow> \<forall>c \<in> set a. \<not> ascii_space c \<Longrightarrow>
     split_ascii_whitespace (a @ 32 # b) = a # split_ascii_whitespace b"
proof (induction a)
  case (Cons c a)
  then show ?case by (cases a) (auto simp: ascii_space_def)
qed simp

lemma show_dec_set: "c \<in> set (show_dec n) \<Longrightarrow> 48 \<le> c \<and> c \<le> 57"
  using show_dec_digits [of n] by (auto simp: list_all_iff digit_def)

lemma show_dec_ne [simp]: "show_dec n \<noteq> []"
  using show_dec_digits by blast

lemma parse_u8_show: "parse_u8 (show_dec (unat c)) = Some c"
  using parse_show_dec [of "unat c", where 'n = 8] unat_u8_less [of c] by (simp add: parse_u8_def)

lemma parse_u16_show: "parse_u16 (show_dec (unat c)) = Some c"
  using parse_show_dec [of "unat c", where 'n = 16] unat_u16_less [of c] by (simp add: parse_u16_def)

fun render_pos :: "(u8 \<times> u8) option \<Rightarrow> str" where
  "render_pos (Some (c, r)) = show_dec (unat c) @ [44] @ show_dec (unat r)"
| "render_pos None = [45]"

lemma render_pos_chars: "c \<in> set (render_pos p) \<Longrightarrow> 44 \<le> c \<and> c \<le> 57"
  by (cases p rule: render_pos.cases) (auto dest!: show_dec_set)

lemma render_pos_ne [simp]: "render_pos p \<noteq> []"
  by (cases p rule: render_pos.cases) simp_all

lemma parse_render_pos: "parse_pos (render_pos p) = p"
proof (cases p rule: render_pos.cases)
  case (1 c r)
  have "44 \<notin> set (show_dec (unat c))" by (auto dest: show_dec_set)
  then show ?thesis using 1 split_at_append [of 44 "show_dec (unat c)" "show_dec (unat r)"]
    by (simp add: parse_pos_def both_def parse_u8_show)
next
  case 2
  then show ?thesis by (simp add: parse_pos_def both_def split_at_def find_sub_def)
qed

definition grid_line :: "u8 \<Rightarrow> u8 \<Rightarrow> str" where
  "grid_line c r = lit ''grid='' @ show_dec (unat c) @ [120] @ show_dec (unat r)"

definition width_line :: "u16 \<Rightarrow> str" where
  "width_line w = lit ''panel_width='' @ show_dec (unat w)"

definition height_line :: "u16 \<Rightarrow> str" where
  "height_line h = lit ''panel_height='' @ show_dec (unat h)"

definition connector_line :: "(u8 \<times> u8) option list list \<Rightarrow> nat \<Rightarrow> str" where
  "connector_line asg i =
     [74] @ show_dec (i + 1) @ [61] @ render_pos (asg ! i ! 0) @ [32] @ render_pos (asg ! i ! 1)"

definition render :: "str list \<Rightarrow> str" where
  "render ls = concat (map (\<lambda>l. l @ [10]) ls)"

lemma str_lines_cons:
  "10 \<notin> set l \<Longrightarrow> str_lines (l @ 10 # s) = strip_cr l # str_lines s"
proof -
  assume l: "10 \<notin> set l"
  have "takeWhile (\<lambda>c. c \<noteq> 10) (l @ 10 # s) = l" using l by (induction l) auto
  moreover have "dropWhile (\<lambda>c. c \<noteq> 10) (l @ 10 # s) = 10 # s" using l by (induction l) auto
  ultimately show ?thesis by (subst str_lines.simps) (simp add: Let_def)
qed

lemma str_lines_render:
  "\<forall>l \<in> set ls. tight l \<and> 10 \<notin> set l \<Longrightarrow> str_lines (render ls) = ls"
proof (induction ls)
  case Nil
  show ?case by (simp add: render_def str_lines.simps)
next
  case (Cons l ls)
  then have "\<not> white_space (last l)" by (simp add: tight_def)
  moreover have "white_space 13" by (simp add: white_space_def)
  ultimately have "last l \<noteq> 13" by metis
  with Cons show ?case by (simp add: render_def str_lines_cons strip_cr_def)
qed

lemma tight_digits: "tight (show_dec n)"
  using show_dec_set [of "hd (show_dec n)" n] show_dec_set [of "last (show_dec n)" n]
  by (simp add: tight_def white_space_def)

lemma tight_append: "tight a \<Longrightarrow> tight b \<Longrightarrow> tight (a @ m @ b)"
  by (simp add: tight_def)

lemma tight_render_pos: "tight (render_pos p)"
  using render_pos_chars [of "hd (render_pos p)" p] render_pos_chars [of "last (render_pos p)" p]
  by (simp add: tight_def white_space_def)

text \<open>A line of the form \<^verbatim>\<open>key=value\<close>.\<close>

lemma apply_line_kv:
  assumes "tight k" "tight v" "61 \<notin> set k" "hd k \<noteq> 35"
  shows "apply_line (k @ 61 # v) cfg = apply_kv k v cfg"
proof -
  have "tight (k @ 61 # v)" using tight_append [OF assms(1,2), of "[61]"] by simp
  then show ?thesis using assms
    by (simp add: apply_line_def trim_tight split_kv_append tight_def)
qed

lemma apply_grid_line: "apply_line (grid_line c r) cfg = cfg\<lparr>grid_cols := c, grid_rows := r\<rparr>"
proof -
  let ?v = "show_dec (unat c) @ [120] @ show_dec (unat r)"
  have v: "tight ?v" by (intro tight_append tight_digits)
  have "120 \<notin> set (show_dec (unat c))" by (auto dest: show_dec_set)
  then have g: "parse_grid ?v = Some (c, r)"
    using split_at_append [of 120 "show_dec (unat c)" "show_dec (unat r)"]
    by (simp add: parse_grid_def both_def parse_u8_show)
  have "apply_line (lit ''grid'' @ 61 # ?v) cfg = apply_kv (lit ''grid'') ?v cfg"
    using v by (intro apply_line_kv) (simp_all add: tight_def lit_def white_space_def)
  then show ?thesis using g by (simp add: grid_line_def apply_kv_def lit_def)
qed

lemma apply_width_line: "apply_line (width_line w) cfg = cfg\<lparr>panel_width := w\<rparr>"
proof -
  have "apply_line (lit ''panel_width'' @ 61 # show_dec (unat w)) cfg =
      apply_kv (lit ''panel_width'') (show_dec (unat w)) cfg"
    using tight_digits by (intro apply_line_kv) (simp_all add: tight_def lit_def white_space_def)
  then show ?thesis by (simp add: width_line_def apply_kv_def lit_def parse_u16_show)
qed

lemma apply_height_line: "apply_line (height_line h) cfg = cfg\<lparr>panel_height := h\<rparr>"
proof -
  have "apply_line (lit ''panel_height'' @ 61 # show_dec (unat h)) cfg =
      apply_kv (lit ''panel_height'') (show_dec (unat h)) cfg"
    using tight_digits by (intro apply_line_kv) (simp_all add: tight_def lit_def white_space_def)
  then show ?thesis by (simp add: height_line_def apply_kv_def lit_def parse_u16_show)
qed

lemma apply_connector_line:
  assumes "i < MAX_OUTPUTS" "length (asg ! i) = MAX_CHAIN" "length (assignments cfg) = MAX_OUTPUTS"
    and "assignments cfg ! i = replicate MAX_CHAIN None"
  shows "apply_line (connector_line asg i) cfg = cfg\<lparr>assignments := (assignments cfg)[i := asg ! i]\<rparr>"
proof -
  let ?a = "asg ! i ! 0" and ?b = "asg ! i ! 1" and ?k = "74 # show_dec (i + 1)"
  let ?v = "render_pos ?a @ [32] @ render_pos ?b"
  have len: "i + 1 \<le> 8" using assms(1) by (simp add: MAX_OUTPUTS_def)
  have "48 \<le> last (show_dec (i + 1)) \<and> last (show_dec (i + 1)) \<le> 57"
    by (rule show_dec_set [OF last_in_set [OF show_dec_ne]])
  then have k: "tight ?k" by (simp add: tight_def white_space_def)
  have eq: "61 \<notin> set ?k" by (auto dest: show_dec_set)
  have "apply_line (?k @ 61 # ?v) cfg = apply_kv ?k ?v cfg"
    by (rule apply_line_kv [OF k tight_append [OF tight_render_pos tight_render_pos] eq]) simp
  also have "\<dots> = apply_connector (show_dec (i + 1)) ?v cfg"
    by (simp add: apply_kv_def lit_def)
  also have "\<dots> = cfg\<lparr>assignments := (assignments cfg)[i := chain_loop 0 (split_ascii_whitespace ?v) (assignments cfg ! i)]\<rparr>"
  proof -
    have u: "unat (of_nat (i + 1) :: u8) = i + 1" using len by (simp add: unat_of_nat del: of_nat_add of_nat_Suc)
    have "parse_u8 (show_dec (i + 1)) = Some (of_nat (i + 1))"
      using parse_u8_show [of "of_nat (i + 1)"] u by (simp del: of_nat_add of_nat_Suc)
    then show ?thesis using u len by (simp add: apply_connector_def Let_def MAX_OUTPUTS_def del: of_nat_add of_nat_Suc)
  qed
  also have "chain_loop 0 (split_ascii_whitespace ?v) (assignments cfg ! i) = asg ! i"
  proof -
    have ns: "\<forall>c \<in> set (render_pos p). \<not> ascii_space c" for p
      by (auto simp: ascii_space_def dest!: render_pos_chars)
    have "split_ascii_whitespace ?v = [render_pos ?a, render_pos ?b]"
      using split_ws_append [OF render_pos_ne ns, of ?a "render_pos ?b"] split_ws_single [OF render_pos_ne ns]
      by simp
    moreover have "asg ! i = [?a, ?b]"
      using assms(2) by (auto simp: MAX_CHAIN_def length_Suc_conv numeral_2_eq_2)
    moreover have "chain_loop 0 [render_pos ?a, render_pos ?b] [None, None] = [?a, ?b]"
      by (simp add: parse_render_pos MAX_CHAIN_def split: option.splits)
    ultimately show ?thesis using assms(4) by (simp add: MAX_CHAIN_def numeral_2_eq_2)
  qed
  finally show ?thesis by (simp add: connector_line_def)
qed


lemma fold_connector_lines:
  assumes shape: "length asg = MAX_OUTPUTS" "\<forall>s \<in> set asg. length s = MAX_CHAIN"
    and cfg: "assignments cfg = no_assignments" and k: "k \<le> MAX_OUTPUTS"
  shows "fold apply_line (map (connector_line asg) [0..<k]) cfg =
    cfg\<lparr>assignments := take k asg @ drop k no_assignments\<rparr>"
  using k
proof (induction k)
  case 0
  then show ?case by (simp add: cfg [symmetric])
next
  case (Suc k)
  let ?cfg = "cfg\<lparr>assignments := take k asg @ drop k no_assignments\<rparr>"
  have k: "k < MAX_OUTPUTS" using Suc.prems by simp
  have na: "length no_assignments = MAX_OUTPUTS" "no_assignments ! k = replicate MAX_CHAIN None"
    using k by (simp_all add: no_assignments_def)
  have "length (asg ! k) = MAX_CHAIN" using shape k by (metis nth_mem)
  then have "apply_line (connector_line asg k) ?cfg =
      ?cfg\<lparr>assignments := (take k asg @ drop k no_assignments)[k := asg ! k]\<rparr>"
    using apply_connector_line [of k asg ?cfg] k shape(1) na by (simp add: nth_append)
  moreover have "(take k asg @ drop k no_assignments)[k := asg ! k] = take (Suc k) asg @ drop (Suc k) no_assignments"
    using k shape(1) na(1)
    by (simp add: list_update_append take_Suc_conv_app_nth Cons_nth_drop_Suc [symmetric])
  ultimately show ?case using Suc by simp
qed

text \<open>The other lines. A name that is not given and an empty list of origins have no line.\<close>

definition mode_line :: "display_mode \<Rightarrow> str" where
  "mode_line m = lit ''mode='' @ (case m of ProgramMode \<Rightarrow> lit ''program'' | StreamMode \<Rightarrow> lit ''stream'')"

definition rgb_line :: "u8 \<Rightarrow> str" where
  "rgb_line n = lit ''rgb_order='' @ RGB_ORDERS ! unat n"

definition clk_line :: "u8 \<Rightarrow> str" where
  "clk_line n = lit ''clk_div='' @ show_dec (unat n)"

definition throttle_line :: "u8 \<Rightarrow> str" where
  "throttle_line n = lit ''write_throttle='' @ show_dec (unat n)"

definition program_lines :: "str \<Rightarrow> str list" where
  "program_lines name = (if name = [] then [] else [lit ''program='' @ name])"

definition drive_lines :: "str \<Rightarrow> str list" where
  "drive_lines name = (if name = [] then [] else [lit ''drive='' @ name])"

definition render_origin :: "u16 \<times> u16 \<Rightarrow> str" where
  "render_origin = (\<lambda>(x, y). show_dec (unat x) @ [44] @ show_dec (unat y))"

fun spaced :: "str list \<Rightarrow> str" where
  "spaced [] = []"
| "spaced [t] = t"
| "spaced (t # u # ts) = t @ 32 # spaced (u # ts)"

definition group_lines :: "(u16 \<times> u16) list \<Rightarrow> str list" where
  "group_lines gs = (if gs = [] then [] else [lit ''group_origins='' @ spaced (map render_origin gs)])"

definition layout_lines :: "layout \<Rightarrow> str list" where
  "layout_lines cfg =
     [grid_line (grid_cols cfg) (grid_rows cfg), width_line (panel_width cfg), height_line (panel_height cfg),
      mode_line (lmode cfg), rgb_line (rgb_order cfg), clk_line (clk_div cfg), throttle_line (write_throttle cfg)]
     @ program_lines (program_name cfg) @ drive_lines (drive_name cfg)
     @ group_lines (take (group_origins_len cfg) (group_origins cfg))
     @ map (connector_line (assignments cfg)) [0..<MAX_OUTPUTS]"

text \<open>
  The layouts that text can express: names without a line break or white space around them, in
  valid UTF-8, and nothing in the arrays behind what their lengths count.
\<close>

definition name_ok :: "u8 list \<Rightarrow> nat \<Rightarrow> bool" where
  "name_ok buf n \<longleftrightarrow> drop n buf = replicate (MAX_PROGRAM_NAME - n) 0 \<and>
     (case from_utf8 (take n buf) of None \<Rightarrow> False | Some s \<Rightarrow> s = [] \<or> tight s \<and> 10 \<notin> set s)"

definition expressible :: "layout \<Rightarrow> bool" where
  "expressible cfg \<longleftrightarrow> layout_inv cfg \<and> name_ok (lprogram cfg) (program_len cfg) \<and> name_ok (drive cfg) (drive_len cfg) \<and>
     drop (group_origins_len cfg) (group_origins cfg) = replicate (MAX_GROUPS - group_origins_len cfg) (0, 0)"

lemma apply_mode_line: "apply_line (mode_line m) cfg = cfg\<lparr>lmode := m\<rparr>"
proof -
  let ?v = "case m of ProgramMode \<Rightarrow> lit ''program'' | StreamMode \<Rightarrow> lit ''stream''"
  have "apply_line (lit ''mode'' @ 61 # ?v) cfg = apply_kv (lit ''mode'') ?v cfg"
    by (intro apply_line_kv) (cases m; simp add: tight_def lit_def white_space_def)+
  moreover have "eq_ignore_ascii_case ?v (lit ''program'') \<longleftrightarrow> m = ProgramMode"
    by (cases m) (simp_all add: eq_ignore_ascii_case_def lit_def ascii_lower_def)
  ultimately show ?thesis by (cases m) (simp_all add: mode_line_def apply_kv_def lit_def)
qed

lemma orders_found:
  assumes "i < 6"
  shows "order_index (RGB_ORDERS ! i) = i \<and> tight (RGB_ORDERS ! i)"
proof -
  have "i = 0 \<or> i = 1 \<or> i = 2 \<or> i = 3 \<or> i = 4 \<or> i = 5" using assms by linarith
  moreover have "[0..<6] = [0, 1, 2, 3, 4, 5 :: nat]" by (simp add: upt_rec)
  ultimately show ?thesis
    by (elim disjE) (simp_all add: order_index_def RGB_ORDERS_def lit_def eq_ignore_ascii_case_def ascii_lower_def tight_def white_space_def)
qed

lemma ucast_wide [simp]: "ucast (ucast (n :: u8) :: u16) = n"
  by (rule bit_word_eqI) (simp add: bit_ucast_iff)

lemma apply_rgb_line:
  assumes "unat n < length RGB_ORDERS"
  shows "apply_line (rgb_line n) cfg = cfg\<lparr>rgb_order := n\<rparr>" "tight (RGB_ORDERS ! unat n)"
proof -
  let ?v = "RGB_ORDERS ! unat n"
  have "unat n < 6" using assms by (simp add: RGB_ORDERS_def)
  then have v: "order_index (trim ?v) = unat n" "tight ?v" using orders_found [of "unat n"] by (simp_all add: trim_tight)
  then show "tight (RGB_ORDERS ! unat n)" by simp
  have "apply_line (lit ''rgb_order'' @ 61 # ?v) cfg = apply_kv (lit ''rgb_order'') ?v cfg"
    using v(2) by (intro apply_line_kv) (simp_all add: tight_def lit_def white_space_def)
  then show "apply_line (rgb_line n) cfg = cfg\<lparr>rgb_order := n\<rparr>"
    using v(1) by (simp add: rgb_line_def apply_kv_def lit_def)
qed

lemma apply_clk_line: "apply_line (clk_line n) cfg = cfg\<lparr>clk_div := n\<rparr>"
proof -
  have u: "unat (ucast n :: u16) = unat n" using unat_u8_less [of n] by (simp add: unsigned_ucast_eq take_bit_nat_eq_self)
  have p: "parse_u16 (show_dec (unat n)) = Some (ucast n)" using parse_u16_show [of "ucast n"] by (simp only: u)
  have m: "(ucast (min (ucast n) 255 :: u16) :: u8) = n"
    using u unat_u8_less [of n] by (simp add: min_def word_le_nat_alt)
  have "apply_line (lit ''clk_div'' @ 61 # show_dec (unat n)) cfg = apply_kv (lit ''clk_div'') (show_dec (unat n)) cfg"
    using tight_digits by (intro apply_line_kv) (simp_all add: tight_def lit_def white_space_def)
  then show ?thesis using m by (simp add: clk_line_def apply_kv_def lit_def p)
qed

lemma apply_throttle_line:
  assumes "unat n \<le> 15"
  shows "apply_line (throttle_line n) cfg = cfg\<lparr>write_throttle := n\<rparr>"
proof -
  have u: "unat (ucast n :: u16) = unat n" using unat_u8_less [of n] by (simp add: unsigned_ucast_eq take_bit_nat_eq_self)
  have p: "parse_u16 (show_dec (unat n)) = Some (ucast n)" using parse_u16_show [of "ucast n"] by (simp only: u)
  have m: "(ucast (min (ucast n) 15 :: u16) :: u8) = n"
    using u assms by (simp add: min_def word_le_nat_alt)
  have "apply_line (lit ''write_throttle'' @ 61 # show_dec (unat n)) cfg = apply_kv (lit ''write_throttle'') (show_dec (unat n)) cfg"
    using tight_digits by (intro apply_line_kv) (simp_all add: tight_def lit_def white_space_def)
  then show ?thesis using m by (simp add: throttle_line_def apply_kv_def lit_def p)
qed

lemma named_copied:
  assumes ok: "name_ok buf n" and n: "n \<le> MAX_PROGRAM_NAME" "length buf = MAX_PROGRAM_NAME"
    and s: "from_utf8 (take n buf) = Some s"
  shows "copy_name s (replicate MAX_PROGRAM_NAME 0) = buf" "name_len s = n" "s = [] \<longleftrightarrow> n = 0" "s = [] \<or> tight s \<and> 10 \<notin> set s"
proof -
  have b: "as_bytes s = take n buf" using as_from_bytes [OF s] by simp
  have l: "length (as_bytes s) = n" using b n by simp
  have "buf = take n buf @ replicate (MAX_PROGRAM_NAME - n) 0" using ok append_take_drop_id [of n buf] by (simp add: name_ok_def)
  then show "copy_name s (replicate MAX_PROGRAM_NAME 0) = buf" using l n b by (simp add: copy_name_def splice_def)
  show "name_len s = n" using l n by (simp add: name_len_def)
  have "enc_char c \<noteq> []" for c by (simp add: enc_char_def)
  then show "s = [] \<longleftrightarrow> n = 0" using l by (cases s) (auto simp: as_bytes_def)
  show "s = [] \<or> tight s \<and> 10 \<notin> set s" using ok s by (simp add: name_ok_def)
qed

lemma apply_program_lines:
  assumes "s = [] \<or> tight s"
  shows "fold apply_line (program_lines s) cfg =
    (if s = [] then cfg else cfg\<lparr>lprogram := copy_name s (lprogram cfg), program_len := name_len s\<rparr>)"
proof (cases "s = []")
  case False
  have "apply_line (lit ''program'' @ 61 # s) cfg = apply_kv (lit ''program'') s cfg"
    using assms False by (intro apply_line_kv) (simp_all add: tight_def lit_def white_space_def)
  then show ?thesis using False by (simp add: program_lines_def apply_kv_def lit_def)
qed (simp add: program_lines_def)

lemma apply_drive_lines:
  assumes "s = [] \<or> tight s"
  shows "fold apply_line (drive_lines s) cfg =
    (if s = [] then cfg else cfg\<lparr>drive := copy_name s (drive cfg), drive_len := name_len s\<rparr>)"
proof (cases "s = []")
  case False
  have "apply_line (lit ''drive'' @ 61 # s) cfg = apply_kv (lit ''drive'') s cfg"
    using assms False by (intro apply_line_kv) (simp_all add: tight_def lit_def white_space_def)
  then show ?thesis using False by (simp add: drive_lines_def apply_kv_def lit_def)
qed (simp add: drive_lines_def)

lemma render_origin_chars: "c \<in> set (render_origin g) \<Longrightarrow> 44 \<le> c \<and> c \<le> 57"
  by (cases g) (auto simp: render_origin_def dest!: show_dec_set)

lemma render_origin_ne [simp]: "render_origin g \<noteq> []"
  by (cases g) (simp add: render_origin_def)

lemma parse_render_origin: "parse_pos16 (render_origin g) = Some g"
proof (cases g)
  case (Pair x y)
  have "44 \<notin> set (show_dec (unat x))" by (auto dest: show_dec_set)
  then show ?thesis using Pair split_at_append [of 44 "show_dec (unat x)" "show_dec (unat y)"]
    by (simp add: render_origin_def parse_pos16_def both_def parse_u16_show)
qed

lemma split_spaced: "split_ascii_whitespace (spaced (map render_origin gs)) = map render_origin gs"
proof (induction gs rule: induct_list012)
  case (2 g)
  have "\<forall>c \<in> set (render_origin g). \<not> ascii_space c" by (auto simp: ascii_space_def dest!: render_origin_chars)
  then show ?case using split_ws_single [OF render_origin_ne, of g] by simp
next
  case (3 g g' gs)
  have "\<forall>c \<in> set (render_origin g). \<not> ascii_space c" by (auto simp: ascii_space_def dest!: render_origin_chars)
  then show ?case using split_ws_append [OF render_origin_ne] 3(2) by simp
qed simp

lemma spaced_chars: "c \<in> set (spaced (map render_origin gs)) \<Longrightarrow> c = 32 \<or> 44 \<le> c \<and> c \<le> 57"
  by (induction gs rule: induct_list012) (auto dest: render_origin_chars)

lemma tight_render_origin: "tight (render_origin g)"
  using render_origin_chars [of "hd (render_origin g)" g] render_origin_chars [of "last (render_origin g)" g]
  by (simp add: tight_def white_space_def)

lemma tight_spaced: "gs \<noteq> [] \<Longrightarrow> tight (spaced (map render_origin gs))"
proof (induction gs rule: induct_list012)
  case (3 g g' gs)
  then show ?case using tight_append [OF tight_render_origin [of g] 3(2), of "[32]"] by simp
qed (simp_all add: tight_render_origin)

lemma group_loop_fills:
  assumes "n + length gs \<le> MAX_GROUPS" "length buf = MAX_GROUPS"
  shows "group_loop n (map render_origin gs) buf = (n + length gs, take n buf @ gs @ drop (n + length gs) buf)"
  using assms
proof (induction gs arbitrary: n buf)
  case (Cons g gs)
  have "group_loop (n + 1) (map render_origin gs) (buf[n := g]) =
      (n + 1 + length gs, take (n + 1) (buf[n := g]) @ gs @ drop (n + 1 + length gs) (buf[n := g]))"
    using Cons by simp
  moreover have "take (n + 1) (buf[n := g]) = take n buf @ [g]"
    using Cons.prems by (simp add: take_Suc_conv_app_nth)
  ultimately show ?case using Cons.prems by (simp add: parse_render_origin)
qed simp

lemma apply_group_lines:
  assumes "length gs \<le> MAX_GROUPS" "group_origins cfg = replicate MAX_GROUPS (0, 0)" "group_origins_len cfg = 0"
  shows "fold apply_line (group_lines gs) cfg =
    cfg\<lparr>group_origins := gs @ replicate (MAX_GROUPS - length gs) (0, 0), group_origins_len := length gs\<rparr>"
proof (cases "gs = []")
  case True
  have "cfg\<lparr>group_origins := group_origins cfg, group_origins_len := group_origins_len cfg\<rparr> = cfg" by simp
  then show ?thesis using True assms by (simp add: group_lines_def)
next
  case False
  let ?v = "spaced (map render_origin gs)"
  have "apply_line (lit ''group_origins'' @ 61 # ?v) cfg = apply_kv (lit ''group_origins'') ?v cfg"
    using tight_spaced [OF False] by (intro apply_line_kv) (simp_all add: tight_def lit_def white_space_def)
  moreover have "group_loop 0 (split_ascii_whitespace ?v) (group_origins cfg) =
      (length gs, gs @ replicate (MAX_GROUPS - length gs) (0, 0))"
    using group_loop_fills [of 0 gs "group_origins cfg"] assms unfolding split_spaced by simp
  ultimately show ?thesis using False by (simp add: group_lines_def apply_kv_def lit_def)
qed

text \<open>Every line comes out of the text as it went in.\<close>

definition whole :: "str \<Rightarrow> bool" where
  "whole l \<longleftrightarrow> tight l \<and> 10 \<notin> set l"

lemma whole_keyed: "whole (lit k) \<Longrightarrow> whole v \<Longrightarrow> whole (lit k @ v)"
  using tight_append [of "lit k" v "[]"] by (simp add: whole_def)

lemma whole_digits: "whole (show_dec n)"
  by (auto simp: whole_def tight_digits dest: show_dec_set)

lemma whole_keys:
  "list_all (\<lambda>k. whole (lit k)) [''grid='', ''panel_width='', ''panel_height='', ''mode='', ''rgb_order='',
     ''clk_div='', ''write_throttle='', ''program='', ''drive='', ''group_origins='', ''program'', ''stream'']"
  by (simp add: whole_def tight_def lit_def white_space_def)

lemma whole_grid: "whole (show_dec a @ [120] @ show_dec b)"
  using tight_append [OF tight_digits tight_digits, of a "[120]" b] by (auto simp: whole_def dest: show_dec_set)

lemma whole_connector: "whole (connector_line asg i)"
  using tight_render_pos by (auto simp: whole_def connector_line_def tight_def white_space_def dest: render_pos_chars show_dec_set)

lemma whole_spaced: "gs \<noteq> [] \<Longrightarrow> whole (spaced (map render_origin gs))"
  using tight_spaced [of gs] by (auto simp: whole_def dest: spaced_chars)

lemma whole_orders: "i < length RGB_ORDERS \<Longrightarrow> whole (RGB_ORDERS ! i)"
proof -
  assume "i < length RGB_ORDERS"
  moreover have "list_all whole RGB_ORDERS" by (simp add: whole_def RGB_ORDERS_def lit_def tight_def white_space_def)
  ultimately show ?thesis by (simp add: list_all_length)
qed

lemma whole_lines:
  "whole (grid_line a b)" "whole (width_line w)" "whole (height_line w)" "whole (mode_line m)" "whole (clk_line n)"
  "whole (throttle_line n)" "unat n < length RGB_ORDERS \<Longrightarrow> whole (rgb_line n)"
  "whole s \<Longrightarrow> whole (lit ''program='' @ s)" "whole s \<Longrightarrow> whole (lit ''drive='' @ s)"
  "gs \<noteq> [] \<Longrightarrow> whole (lit ''group_origins='' @ spaced (map render_origin gs))"
  unfolding grid_line_def width_line_def height_line_def mode_line_def clk_line_def throttle_line_def rgb_line_def
  using whole_keys whole_digits whole_grid whole_orders whole_spaced by (auto intro!: whole_keyed split: display_mode.split)

lemma lines_whole:
  assumes "expressible cfg" "l \<in> set (layout_lines cfg)"
  shows "tight l \<and> 10 \<notin> set l"
proof -
  have inv: "layout_inv cfg" and nm: "name_ok (lprogram cfg) (program_len cfg)" "name_ok (drive cfg) (drive_len cfg)"
    using assms(1) by (simp_all add: expressible_def)
  have names: "s = [] \<or> whole s" if "name_ok b n" "s = (case from_utf8 (take n b) of Some s \<Rightarrow> s | None \<Rightarrow> [])" for b n s
    using that by (auto simp: name_ok_def whole_def split: option.splits)
  have pn: "program_name cfg = [] \<or> whole (program_name cfg)" "drive_name cfg = [] \<or> whole (drive_name cfg)"
    using names [OF nm(1)] names [OF nm(2)] by (simp_all add: program_name_def drive_name_def)
  have rgb: "whole (rgb_line (rgb_order cfg))" using inv by (simp add: layout_inv_def whole_lines)
  have "whole l"
    using assms(2) pn rgb
    by (auto simp: layout_lines_def program_lines_def drive_lines_def group_lines_def whole_lines whole_connector split: if_splits
        simp del: append.simps)
  then show ?thesis by (simp add: whole_def)
qed

section \<open>Properties\<close>

text \<open>
  C12. Whatever text the configuration server sends, parsing returns a layout whose arrays have
  their size, whose lengths lie inside them and whose register values are in range.
\<close>

theorem layout_parse_safe: "\<exists>cfg. layout_parse text = Some cfg \<and> layout_inv cfg"
  by (simp add: layout_parse_def fold_lines_inv layout_start_inv)

text \<open>
  C13. A layout written out as \<^verbatim>\<open>key=value\<close> lines, one for each of its settings, parses back to
  itself, every field of it: the grid, the panel size, mode, colour order, clock divider, write
  throttle, program and driver names, group origins and the eight connectors. The names have no
  line break and no white space around them, and the arrays hold nothing behind what their
  lengths count, as parsing leaves them.
\<close>

theorem layout_roundtrip:
  assumes "expressible cfg"
  shows "layout_parse (render (layout_lines cfg)) = Some cfg"
proof -
  have inv: "layout_inv cfg" and nm: "name_ok (lprogram cfg) (program_len cfg)" "name_ok (drive cfg) (drive_len cfg)"
    and go: "drop (group_origins_len cfg) (group_origins cfg) = replicate (MAX_GROUPS - group_origins_len cfg) (0, 0)"
    using assms by (simp_all add: expressible_def)
  have b: "unat (rgb_order cfg) < length RGB_ORDERS" "unat (write_throttle cfg) \<le> 15" "program_len cfg \<le> MAX_PROGRAM_NAME"
    "length (lprogram cfg) = MAX_PROGRAM_NAME" "drive_len cfg \<le> MAX_PROGRAM_NAME" "length (drive cfg) = MAX_PROGRAM_NAME"
    "group_origins_len cfg \<le> MAX_GROUPS" "length (group_origins cfg) = MAX_GROUPS"
    "length (assignments cfg) = MAX_OUTPUTS" "\<forall>s \<in> set (assignments cfg). length s = MAX_CHAIN"
    using inv by (simp_all add: layout_inv_def)
  obtain p where p: "from_utf8 (take (program_len cfg) (lprogram cfg)) = Some p" using nm(1) by (auto simp: name_ok_def split: option.splits)
  obtain d where d: "from_utf8 (take (drive_len cfg) (drive cfg)) = Some d" using nm(2) by (auto simp: name_ok_def split: option.splits)
  note P = named_copied [OF nm(1) b(3,4) p] and D = named_copied [OF nm(2) b(5,6) d]
  let ?g = "take (group_origins_len cfg) (group_origins cfg)"
  let ?z = "(single_panel 96 48)\<lparr>assignments := no_assignments, grid_cols := grid_cols cfg, grid_rows := grid_rows cfg,
     panel_width := panel_width cfg, panel_height := panel_height cfg, lmode := lmode cfg, rgb_order := rgb_order cfg,
     clk_div := clk_div cfg, write_throttle := write_throttle cfg\<rparr>"
  let ?y = "?z\<lparr>lprogram := lprogram cfg, program_len := program_len cfg\<rparr>"
  let ?x = "?y\<lparr>drive := drive cfg, drive_len := drive_len cfg\<rparr>"
  let ?w = "?x\<lparr>group_origins := group_origins cfg, group_origins_len := group_origins_len cfg\<rparr>"
  have z: "lprogram ?z = replicate MAX_PROGRAM_NAME 0" "program_len ?z = 0" "drive ?y = replicate MAX_PROGRAM_NAME 0" "drive_len ?y = 0"
    "group_origins ?x = replicate MAX_GROUPS (0, 0)" "group_origins_len ?x = 0" "assignments ?w = no_assignments"
    by (simp_all add: single_panel_def)
  have "lprogram cfg = replicate MAX_PROGRAM_NAME 0" if "p = []" using nm(1) P(3) that by (simp add: name_ok_def)
  then have fp: "fold apply_line (program_lines p) ?z = ?y"
    using apply_program_lines [of p ?z] P z(1,2) by (cases "p = []") (simp_all add: single_panel_def)
  have "drive cfg = replicate MAX_PROGRAM_NAME 0" if "d = []" using nm(2) D(3) that by (simp add: name_ok_def)
  then have fd: "fold apply_line (drive_lines d) ?y = ?x"
    using apply_drive_lines [of d ?y] D z(3,4) by (cases "d = []") (simp_all add: single_panel_def)
  have "?g @ replicate (MAX_GROUPS - group_origins_len cfg) (0, 0) = group_origins cfg" "length ?g = group_origins_len cfg"
    using go append_take_drop_id [of "group_origins_len cfg" "group_origins cfg"] b(7,8) by simp_all
  then have fg: "fold apply_line (group_lines ?g) ?x = ?w" using apply_group_lines [of ?g ?x] z(5,6) b(7) by simp
  have fc: "fold apply_line (map (connector_line (assignments cfg)) [0..<MAX_OUTPUTS]) ?w = cfg"
    using fold_connector_lines [OF b(9,10) z(7), of MAX_OUTPUTS] b(9) by (simp add: no_assignments_def single_panel_def)
  have "fold apply_line (layout_lines cfg) ((single_panel 96 48)\<lparr>assignments := no_assignments\<rparr>) =
      fold apply_line (program_lines p @ drive_lines d @ group_lines ?g @ map (connector_line (assignments cfg)) [0..<MAX_OUTPUTS]) ?z"
    by (simp add: layout_lines_def program_name_def drive_name_def p d apply_grid_line apply_width_line apply_height_line apply_mode_line
        apply_rgb_line(1) [OF b(1)] apply_clk_line apply_throttle_line [OF b(2)] single_panel_def)
  also have "\<dots> = cfg" by (simp only: fold_append comp_apply fp fd fg fc)
  finally show ?thesis using str_lines_render [of "layout_lines cfg"] lines_whole [OF assms] by (simp add: layout_parse_def)
qed

text \<open>A layout with every setting away from its default.\<close>

definition demo_layout :: layout where
  "demo_layout = \<lparr>panel_width = 128, panel_height = 64, grid_cols = 2, grid_rows = 1,
     assignments = [Some (0, 0), Some (1, 0)] # replicate 7 [None, None],
     lmode = ProgramMode, lprogram = as_bytes (lit ''clock'') @ replicate 19 0, program_len = 5,
     drive = as_bytes (lit ''dp3264s'') @ replicate 17 0, drive_len = 7, clk_div = 6, write_throttle = 9,
     rgb_order = 4, group_origins = [(128, 0), (128, 64), (0, 0), (0, 0)], group_origins_len = 2\<rparr>"

lemma name_ok_padded:
  assumes "list_all scalar s" "tight s" "10 \<notin> set s"
  shows "name_ok (as_bytes s @ replicate (MAX_PROGRAM_NAME - length (as_bytes s)) 0) (length (as_bytes s))"
  using assms by (simp add: name_ok_def from_as_bytes)

lemma demo_expressible: "expressible demo_layout"
proof -
  have l: "length (as_bytes (lit ''clock'')) = 5" "length (as_bytes (lit ''dp3264s'')) = 7"
    by (simp_all add: as_bytes_def enc_char_def lit_def)
  have "list_all scalar (lit n) \<and> tight (lit n) \<and> 10 \<notin> set (lit n)" if "n = ''clock'' \<or> n = ''dp3264s''" for n
    using that by (auto simp: lit_def scalar_def tight_def white_space_def)
  then have "name_ok (as_bytes (lit ''clock'') @ replicate 19 0) 5" "name_ok (as_bytes (lit ''dp3264s'') @ replicate 17 0) 7"
    using name_ok_padded [of "lit ''clock''"] name_ok_padded [of "lit ''dp3264s''"] unfolding l MAX_PROGRAM_NAME_def by simp_all
  then have "name_ok (lprogram demo_layout) (program_len demo_layout)" "name_ok (drive demo_layout) (drive_len demo_layout)"
    by (simp_all add: demo_layout_def)
  moreover have "layout_inv demo_layout"
    by (simp add: layout_inv_def demo_layout_def l MAX_PROGRAM_NAME_def MAX_OUTPUTS_def MAX_CHAIN_def MAX_GROUPS_def RGB_ORDERS_def)
  moreover have "drop (group_origins_len demo_layout) (group_origins demo_layout) = replicate (MAX_GROUPS - group_origins_len demo_layout) (0, 0)"
    by (simp add: demo_layout_def MAX_GROUPS_def numeral_2_eq_2)
  ultimately show ?thesis by (simp add: expressible_def)
qed

lemma layout_roundtrip_witness: "layout_parse (render (layout_lines demo_layout)) = Some demo_layout"
  by (rule layout_roundtrip [OF demo_expressible])

end
