(* ===== verification/Tftp_Config.thy ===== *)
theory Tftp_Config
  imports Udp_Port Layout
begin

text \<open>
  \<^verbatim>\<open>src/tftp_config.rs\<close>: the client that fetches the layout configuration at boot,
  and what it makes of the bytes.
\<close>

unbundle bit_operations_syntax

definition CFG_TIMEOUT_MS :: int where [src_consts]: "CFG_TIMEOUT_MS = 3000"
definition MAX_CONFIG_SIZE :: nat where [src_consts]: "MAX_CONFIG_SIZE = 2048"
definition CFG_PORT :: u16 where [src_consts]: "CFG_PORT = 6900"

datatype tftp_state = CIdle | CSendRrq | CWaitData | CDone | CFailed

record config_loader =
  c_state :: tftp_state
  c_gateway :: u32
  c_tid :: u16
  c_block :: u16
  c_deadline :: int
  c_buf :: "u8 list"
  c_len :: nat
  c_overflowed :: bool
  c_filename :: "u8 list"
  c_filename_len :: nat

definition config_new :: config_loader where
  "config_new = \<lparr>c_state = CIdle, c_gateway = 0, c_tid = 0, c_block = 0, c_deadline = 0,
     c_buf = replicate MAX_CONFIG_SIZE 0, c_len = 0, c_overflowed = False,
     c_filename = replicate 32 0, c_filename_len = 0\<rparr>"

definition config_start :: "u32 \<Rightarrow> u8 list \<Rightarrow> config_loader \<Rightarrow> config_loader" where
  "config_start gateway name l =
     (let n = min (length name) 32 in
      l\<lparr>c_gateway := gateway, c_tid := 0, c_block := 1, c_len := 0,
        c_filename := splice 0 (take n name) (c_filename l), c_filename_len := n,
        c_state := CSendRrq\<rparr>)"

definition config_is_active :: "config_loader \<Rightarrow> bool" where
  "config_is_active l \<longleftrightarrow> c_state l = CSendRrq \<or> c_state l = CWaitData"

definition config_is_done :: "config_loader \<Rightarrow> bool" where
  "config_is_done l \<longleftrightarrow> c_state l = CDone"

definition config_send_rrq :: "udp_env \<Rightarrow> int \<Rightarrow> config_loader \<Rightarrow> config_loader \<times> udp_act list" where
  "config_send_rrq env time_ms l =
     (if \<not> is_open env \<and> \<not> bind_ok env then (l\<lparr>c_state := CFailed\<rparr>, [UBind CFG_PORT])
      else
       let acts = (if is_open env then [] else [UBind CFG_PORT]) in
       if can_send env then
         (let pkt = rrq_packet (take (c_filename_len l) (c_filename l));
              acts' = acts @ [USend pkt \<lparr>ep_addr = Ipv4 (c_gateway l), ep_port = TFTP_PORT\<rparr>] in
          if send_ok env
          then (l\<lparr>c_deadline := time_ms + CFG_TIMEOUT_MS, c_state := CWaitData\<rparr>, acts')
          else (l, acts'))
       else (l, acts))"

text \<open>The bytes of a block in sequence: what does not fit is dropped, and noted.\<close>

definition config_take :: "u8 list \<Rightarrow> config_loader \<Rightarrow> config_loader" where
  "config_take payload l =
     (let n = min (length payload) (MAX_CONFIG_SIZE - c_len l) in
      l\<lparr>c_overflowed := (c_overflowed l \<or> n < length payload),
        c_buf := splice (c_len l) (take n payload) (c_buf l), c_len := c_len l + n\<rparr>)"

definition config_wait_data ::
  "udp_env \<Rightarrow> int \<Rightarrow> config_loader \<Rightarrow> bool \<times> config_loader \<times> udp_act list" where
  "config_wait_data env time_ms l =
     (if time_ms > c_deadline l then (False, l\<lparr>c_state := CFailed\<rparr>, [UClose])
      else if \<not> can_recv env then (False, l, [])
      else case recv env of
        None \<Rightarrow> (False, l, [URecv])
      | Some (data, ep) \<Rightarrow>
         if length data < 4 then (False, l, [URecv])
         else if data ! 1 = OPCODE_DATA \<and> u16_be (data ! 2) (data ! 3) = c_block l then
          (let payload = drop 4 data;
               l1 = config_take payload l;
               l2 = (if c_tid l1 = 0 then l1\<lparr>c_tid := ep_port ep\<rparr> else l1);
               ack = USend [0, OPCODE_ACK, data ! 2, data ! 3]
                       \<lparr>ep_addr = ep_addr ep, ep_port = c_tid l2\<rparr> in
           if length payload < 512 then (True, l2\<lparr>c_state := CDone\<rparr>, [URecv, ack])
           else (False, l2\<lparr>c_block := c_block l2 + 1, c_deadline := time_ms + CFG_TIMEOUT_MS\<rparr>,
                  [URecv, ack]))
         else if data ! 1 = OPCODE_ERROR
           then (False, l\<lparr>c_state := CFailed\<rparr>, [URecv, UClose])
         else (False, l, [URecv]))"

definition config_poll ::
  "udp_env \<Rightarrow> int \<Rightarrow> config_loader \<Rightarrow> bool \<times> config_loader \<times> udp_act list" where
  "config_poll env time_ms l =
     (case c_state l of
        CSendRrq \<Rightarrow> (case config_send_rrq env time_ms l of (l', acts) \<Rightarrow> (False, l', acts))
      | CWaitData \<Rightarrow> config_wait_data env time_ms l
      | _ \<Rightarrow> (False, l, []))"

definition parse_config :: "config_loader \<Rightarrow> layout option" where
  "parse_config l =
     (if c_len l = 0 \<or> c_overflowed l then None
      else Option.bind (from_utf8 (take (c_len l) (c_buf l))) layout_parse)"

section \<open>What a fetch collects\<close>

text \<open>The loader after \<open>acc\<close> has arrived, in terms of \<open>acc\<close> alone.\<close>

definition collected :: "u8 list \<Rightarrow> config_loader \<Rightarrow> bool" where
  "collected acc l \<longleftrightarrow> length (c_buf l) = MAX_CONFIG_SIZE \<and> c_len l = min (length acc) MAX_CONFIG_SIZE \<and>
     take (c_len l) (c_buf l) = take MAX_CONFIG_SIZE acc \<and>
     (c_overflowed l \<longleftrightarrow> MAX_CONFIG_SIZE < length acc)"

lemma collected_take:
  assumes "collected acc l"
  shows "collected (acc @ p) (config_take p l)"
proof -
  let ?n = "min (length p) (MAX_CONFIG_SIZE - c_len l)"
  have c: "length (c_buf l) = MAX_CONFIG_SIZE" "c_len l = min (length acc) MAX_CONFIG_SIZE"
    "take (c_len l) (c_buf l) = take MAX_CONFIG_SIZE acc"
    using assms unfolding collected_def by blast+
  have n: "c_len l + length (take ?n p) = c_len l + ?n" by simp
  have fits: "c_len l + length (take ?n p) \<le> length (c_buf l)" using c by simp
  have "take (c_len l + ?n) (splice (c_len l) (take ?n p) (c_buf l)) = take (c_len l) (c_buf l) @ take ?n p"
    using take_splice [of "c_len l" "c_buf l" "take ?n p"] c(1,2) n by simp
  also have "\<dots> = take MAX_CONFIG_SIZE (acc @ p)"
    using c(2,3) by (cases "length acc \<le> MAX_CONFIG_SIZE") (simp_all add: min_def)
  finally show ?thesis
    using fits c assms by (auto simp: collected_def config_take_def Let_def)
qed

lemma collected_upd [simp]:
  "collected acc (l\<lparr>c_state := s\<rparr>) = collected acc l"
  "collected acc (l\<lparr>c_tid := t\<rparr>) = collected acc l"
  "collected acc (l\<lparr>c_deadline := d\<rparr>) = collected acc l"
  "collected acc (l\<lparr>c_block := b\<rparr>) = collected acc l"
  by (simp_all add: collected_def)

lemma config_take_upd [simp]:
  "c_state (config_take p l) = c_state l" "c_block (config_take p l) = c_block l"
  by (simp_all add: config_take_def Let_def)

definition config_inv :: "u8 list \<Rightarrow> config_loader \<Rightarrow> bool" where
  "config_inv F l \<longleftrightarrow>
     (config_is_active l \<longrightarrow> (\<exists>k. collected (take (k * 512) F) l \<and> k * 512 \<le> length F \<and>
        c_block l = of_nat (k + 1) \<and> (c_state l = CSendRrq \<longrightarrow> k = 0))) \<and>
     (c_state l = CDone \<longrightarrow> collected F l)"

inductive config_fetch :: "u8 list \<Rightarrow> config_loader \<Rightarrow> bool" for F where
  config_from_start: "length (c_buf l) = MAX_CONFIG_SIZE \<Longrightarrow> \<not> c_overflowed l \<Longrightarrow>
     config_fetch F (config_start gateway name l)"
| config_from_poll: "config_fetch F l \<Longrightarrow> serves F env \<Longrightarrow> config_poll env t l = (d, l', acts) \<Longrightarrow>
     config_fetch F l'"

lemma config_send_shape:
  "config_send_rrq env t l = (l', acts) \<Longrightarrow>
     l' = l \<or> l' = l\<lparr>c_state := CFailed\<rparr> \<or> l' = l\<lparr>c_deadline := t + CFG_TIMEOUT_MS, c_state := CWaitData\<rparr>"
  by (auto simp: config_send_rrq_def Let_def split: if_splits)

lemma config_wait_inv:
  assumes small: "length F < 65535 * 512" and inv: "config_inv F l" and st: "c_state l = CWaitData"
    and srv: "serves F env" and p: "config_wait_data env t l = (d, l', acts)"
  shows "config_inv F l'"
proof (cases "\<exists>data ep. recv env = Some (data, ep) \<and> t \<le> c_deadline l \<and> can_recv env \<and>
    4 \<le> length data \<and> data ! 1 = OPCODE_DATA \<and> u16_be (data ! 2) (data ! 3) = c_block l")
  case False
  then have "l' = l \<or> c_state l' = CFailed"
    using p by (auto simp: config_wait_data_def Let_def split: if_splits option.splits)
  then show ?thesis using inv by (auto simp: config_inv_def config_is_active_def)
next
  case True
  then obtain data ep where r: "recv env = Some (data, ep)" "t \<le> c_deadline l" "can_recv env"
    "4 \<le> length data" "data ! 1 = OPCODE_DATA" "u16_be (data ! 2) (data ! 3) = c_block l" by blast
  obtain k where k: "collected (take (k * 512) F) l" "k * 512 \<le> length F" "c_block l = of_nat (k + 1)"
    using inv st by (auto simp: config_inv_def config_is_active_def)
  let ?p = "drop 4 data" and ?tid = "if c_tid l = 0 then ep_port ep else c_tid l"
  have "unat (c_block l) = k + 1"
    using k(2) small unfolding k(3) by (simp add: unat_of_nat del: of_nat_add of_nat_Suc)
  then have pc: "?p = chunk F (k + 1)" using srv r by (auto simp: serves_def Let_def)
  have app: "take (k * 512) F @ ?p = take ((k + 1) * 512) F"
    unfolding pc by (simp add: chunk_def take_add [symmetric] add.commute)
  have len: "length ?p = min 512 (length F - k * 512)" unfolding pc by (simp add: chunk_def)
  have c: "collected (take ((k + 1) * 512) F) (config_take ?p l)"
    using collected_take [OF k(1), of ?p] by (simp only: app)
  let ?l2 = "if c_tid (config_take ?p l) = 0 then (config_take ?p l)\<lparr>c_tid := ep_port ep\<rparr> else config_take ?p l"
  have c2: "collected (take ((k + 1) * 512) F) ?l2" "c_state ?l2 = CWaitData" "c_block ?l2 = of_nat (k + 1)"
    using c st k(3) by simp_all
  show ?thesis
  proof (cases "length ?p < 512")
    case True
    then have "l' = ?l2\<lparr>c_state := CDone\<rparr>" using p r by (auto simp: config_wait_data_def Let_def)
    moreover have "take ((k + 1) * 512) F = F" using True len by simp
    ultimately show ?thesis using c2(1) by (simp only: config_inv_def config_is_active_def) simp
  next
    case False
    then have l': "l' = ?l2\<lparr>c_block := c_block ?l2 + 1, c_deadline := t + CFG_TIMEOUT_MS\<rparr>"
      using p r by (auto simp: config_wait_data_def Let_def)
    have "(k + 1) * 512 \<le> length F" using False len by simp
    moreover have "collected (take ((k + 1) * 512) F) l'" unfolding l' using c2(1) by simp
    moreover have "c_block l' = of_nat (k + 1 + 1)" "c_state l' = CWaitData" unfolding l' using c2 by simp_all
    ultimately show ?thesis unfolding config_inv_def
      by (intro conjI impI exI [of _ "k + 1"]) simp_all
  qed
qed


lemma config_poll_inv:
  assumes "length F < 65535 * 512" "config_inv F l" "serves F env" "config_poll env t l = (d, l', acts)"
  shows "config_inv F l'"
proof (cases "c_state l")
  case CWaitData
  with assms config_wait_inv show ?thesis by (simp add: config_poll_def)
next
  case CSendRrq
  obtain l2 a2 where r: "config_send_rrq env t l = (l2, a2)" by fastforce
  with assms(4) CSendRrq have "l' = l2" by (simp add: config_poll_def)
  with config_send_shape [OF r] assms(2) CSendRrq show ?thesis
    by (auto simp: config_inv_def config_is_active_def intro!: exI [of _ 0])
qed (use assms in \<open>auto simp: config_poll_def\<close>)

lemma config_fetch_inv:
  assumes "config_fetch F l" and "length F < 65535 * 512"
  shows "config_inv F l"
  using assms(1)
proof induction
  case (config_from_start l gateway name)
  then show ?case
    by (simp add: config_start_def Let_def config_inv_def config_is_active_def collected_def)
next
  case (config_from_poll l env t d l' acts)
  then show ?case using config_poll_inv [OF assms(2)] by blast
qed

text \<open>Once the overflow mark is set, neither a poll nor a new fetch clears it.\<close>

lemma overflow_sticks:
  "c_overflowed l \<Longrightarrow> c_overflowed (config_start gateway name l)"
  "c_overflowed l \<Longrightarrow> c_overflowed (fst (snd (config_poll env t l)))"
proof -
  show "c_overflowed l \<Longrightarrow> c_overflowed (config_start gateway name l)"
    by (simp add: config_start_def Let_def)
  show "c_overflowed l \<Longrightarrow> c_overflowed (fst (snd (config_poll env t l)))"
    by (auto simp: config_poll_def config_wait_data_def config_send_rrq_def config_take_def Let_def
        split: tftp_state.splits option.splits prod.splits)
qed

lemma fetched_config:
  assumes "config_fetch F l" and "length F < 65535 * 512" and "c_state l = CDone"
  shows "parse_config l =
    (if F = [] \<or> MAX_CONFIG_SIZE < length F then None else Option.bind (from_utf8 F) layout_parse)"
  using config_fetch_inv [OF assms(1,2)] assms(3)
  by (auto simp: config_inv_def collected_def parse_config_def MAX_CONFIG_SIZE_def min_def)

section \<open>Properties\<close>

text \<open>
  The layout a completed fetch applies is that of the whole file the server sent: a file
  that does not fit the buffer, or is empty, is refused, never applied in part. The file is one
  whose block numbers do not wrap, and the loader one no earlier file has overflowed.
\<close>

theorem config_is_whole_file:
  assumes "config_fetch F l" and "length F < 65535 * 512" and "c_state l = CDone"
  shows "parse_config l =
    (if F = [] \<or> MAX_CONFIG_SIZE < length F then None else Option.bind (from_utf8 F) layout_parse)"
  using assms by (rule fetched_config)

definition cfg_env :: "u8 list option \<Rightarrow> udp_env" where
  "cfg_env d = \<lparr>is_open = True, bind_ok = True, can_send = True, send_ok = True, can_recv = True,
     recv = map_option (\<lambda>b. (b, \<lparr>ep_addr = Ipv4 0, ep_port = 40000\<rparr>)) d\<rparr>"

lemma cfg_env_last:
  "c_state l = CWaitData \<Longrightarrow> 0 \<le> c_deadline l \<Longrightarrow> c_block l = 1 \<Longrightarrow>
     c_state (fst (snd (config_poll (cfg_env (Some [0, 3, 0, 1, 35])) 0 l))) = CDone"
  by (simp add: config_poll_def config_wait_data_def cfg_env_def OPCODE_DATA_def u16_be_def Let_def)

lemma config_is_whole_file_witness:
  "\<exists>l. c_state l = CDone \<and> parse_config l = Option.bind (from_utf8 [35]) layout_parse"
proof -
  let ?l0 = "config_start 1 [99] config_new"
  let ?l1 = "fst (snd (config_poll (cfg_env None) 0 ?l0))"
  let ?l2 = "fst (snd (config_poll (cfg_env (Some [0, 3, 0, 1, 35])) 0 ?l1))"
  have s: "serves [35] (cfg_env None)" "serves [35] (cfg_env (Some [0, 3, 0, 1, 35]))"
    by (simp_all add: serves_def cfg_env_def Let_def chunk_def u16_be_def)
  have "config_fetch [35] ?l0" by (rule config_from_start) (simp_all add: config_new_def)
  from config_from_poll [OF this s(1)] have "config_fetch [35] ?l1" by (metis prod.collapse)
  from config_from_poll [OF this s(2)] have f: "config_fetch [35] ?l2" by (metis prod.collapse)
  have l1: "c_state ?l1 = CWaitData" "c_deadline ?l1 = 3000" "c_block ?l1 = 1"
    by (simp_all add: config_poll_def config_start_def config_send_rrq_def cfg_env_def Let_def CFG_TIMEOUT_MS_def)
  have "c_state ?l2 = CDone"
    by (rule cfg_env_last) (simp_all add: l1)
  with config_is_whole_file [OF f] show ?thesis
    by (intro exI [of _ ?l2]) (simp add: MAX_CONFIG_SIZE_def)
qed

end
