(* ===== verification/Hub75_Dev.thy ===== *)
theory Hub75_Dev
  imports LW_Prelude
begin

text \<open>
  \<^verbatim>\<open>src/hub75.rs\<close>: the two framebuffers, the palette banks and the registers of
  the output stage. The registers the firmware writes are fields of the state; what it only
  reads back from the gateware is the parameter \<open>hub_hw\<close>, one snapshot for each call.
\<close>

unbundle bit_operations_syntax

definition CHAIN_LENGTH :: u8 where [src_consts]: "CHAIN_LENGTH = 1"
definition OUTPUTS :: u8 where [src_consts]: "OUTPUTS = 4"
definition FB_SDRAM_OFFSET_BYTES :: u32 where [src_consts]: "FB_SDRAM_OFFSET_BYTES = 0x140000"
definition FB_TOTAL_WORDS :: nat where [src_consts]: "FB_TOTAL_WORDS = 2 * (0x140000 div 4)"
definition FB_HALF_WORDS :: nat where [src_consts]: "FB_HALF_WORDS = FB_TOTAL_WORDS div 2"
definition MAX_IMG_PIXELS :: nat where [src_consts]: "MAX_IMG_PIXELS = FB_HALF_WORDS"
definition FB_BASE_WORDS :: u32 where [src_consts]: "FB_BASE_WORDS = FB_SDRAM_OFFSET_BYTES div 4"

datatype output_mode = FullColor | Indexed

record hub_hw =
  hw_palette_banks :: u32
  hw_fb_base_now :: u32
  hw_has_rgb_order :: bool
  hw_columns :: u32
  hw_rows :: u32
  hw_config :: u32
  hw_driver :: u32
  hw_frame_id :: u32
  hw_total_chunks :: u32
  hw_indexed :: u32
  hw_arrival :: "u32 list"
  hw_done :: "u32 list"
  hw_done_frame_id :: u32
  hw_done_total :: u32
  hw_done_indexed :: u32
  hw_done_seq :: "u32 \<times> u32"
  hw_last_chunk :: u32

record hub75 =
  fb_back :: "u32 list"
  fb_front :: "u32 list"
  hlength :: u32
  active_buf :: nat
  palette_shadow :: "u32 list"
  palette_gen :: u32
  bank_gen :: "u32 list"
  auto_swap :: bool
  r_enabled :: bool
  r_indexed :: bool
  r_width :: u16
  r_rgb_order :: u32
  r_auto_swap :: u32
  r_fb_base :: u32
  r_panels :: "u32 list"
  r_group_origins :: "(u8 \<times> u8) list"
  palette_ram :: "u32 list"
  dma_limit :: u32
  dma_on :: bool

text \<open>The state after \<^verbatim>\<open>new\<close>: whatever was in memory and registers, and the fields it sets.\<close>

definition hub_new :: "hub75 \<Rightarrow> hub75" where
  "hub_new h = h\<lparr>r_fb_base := FB_BASE_WORDS, hlength := 0, active_buf := 0,
     palette_shadow := replicate 256 0, palette_gen := 0, bank_gen := [0, 0], auto_swap := False\<rparr>"

definition hub_on :: "hub75 \<Rightarrow> hub75" where "hub_on h = h\<lparr>r_enabled := True\<rparr>"
definition hub_is_on :: "hub75 \<Rightarrow> bool" where "hub_is_on h = r_enabled h"
definition hub_off :: "hub75 \<Rightarrow> hub75" where "hub_off h = h\<lparr>r_enabled := False\<rparr>"

definition set_mode :: "output_mode \<Rightarrow> hub75 \<Rightarrow> hub75" where
  "set_mode m h = h\<lparr>r_indexed := (case m of FullColor \<Rightarrow> False | Indexed \<Rightarrow> True)\<rparr>"

definition get_mode :: "hub75 \<Rightarrow> output_mode" where
  "get_mode h = (if r_indexed h then Indexed else FullColor)"

section \<open>Pixels\<close>

definition img_len :: "hub75 \<Rightarrow> nat" where
  "img_len h = min (unat (hlength h)) (length (fb_back h))"

definition buffers :: "hub75 \<Rightarrow> u32 list \<times> u32 list" where
  "buffers h = (let limit = min (img_len h) (length (fb_front h)) in (take limit (fb_front h), take limit (fb_back h)))"

definition back_buffer :: "hub75 \<Rightarrow> u32 list" where
  "back_buffer h = take (img_len h) (fb_back h)"

definition write_img_data :: "nat \<Rightarrow> u32 list \<Rightarrow> hub75 \<Rightarrow> hub75" where
  "write_img_data offset data h =
     (let limit = img_len h in
      if offset \<ge> limit then h
      else h\<lparr>fb_back := splice offset (take (limit - offset) data) (fb_back h)\<rparr>)"

text \<open>The little-endian word at an aligned position of the packet.\<close>

definition le_word :: "u8 list \<Rightarrow> nat \<Rightarrow> u32" where
  "le_word src k =
     ucast (src ! (4 * k)) OR push_bit 8 (ucast (src ! (4 * k + 1)))
     OR push_bit 16 (ucast (src ! (4 * k + 2))) OR push_bit 24 (ucast (src ! (4 * k + 3)))"

definition indexed_group :: "u8 list \<Rightarrow> nat \<Rightarrow> u32 list" where
  "indexed_group src g =
     (let w = le_word src g in
      [w AND 0xFF, drop_bit 8 w AND 0xFF, drop_bit 16 w AND 0xFF, drop_bit 24 w AND 0xFF])"

definition indexed_bytes :: "u8 list \<Rightarrow> nat \<Rightarrow> nat \<Rightarrow> u32 list" where
  "indexed_bytes src i j = map (\<lambda>k. ucast (src ! k)) [i..<j]"

definition write_img_indexed :: "bool \<Rightarrow> nat \<Rightarrow> u8 list \<Rightarrow> hub75 \<Rightarrow> nat \<times> hub75" where
  "write_img_indexed aligned offset src h =
     (let limit = img_len h in
      if offset \<ge> limit then (0, h)
      else let n_px = min (length src) (limit - offset) in
      if n_px = 0 then (0, h)
      else let dst =
        (if aligned then
           (let groups = n_px div 4 in
            concat (map (indexed_group src) [0..<groups]) @ indexed_bytes src (groups * 4) n_px)
         else indexed_bytes src 0 n_px) in
      (n_px, h\<lparr>fb_back := splice offset dst (fb_back h)\<rparr>))"

definition rgb_group :: "u8 list \<Rightarrow> nat \<Rightarrow> u32 list" where
  "rgb_group src g =
     (let w0 = le_word src (g * 3); w1 = le_word src (g * 3 + 1); w2 = le_word src (g * 3 + 2) in
      [push_bit 16 (drop_bit 16 w0 AND 0xFF) OR push_bit 8 (drop_bit 8 w0 AND 0xFF) OR (w0 AND 0xFF),
       push_bit 16 (drop_bit 8 w1 AND 0xFF) OR push_bit 8 (w1 AND 0xFF) OR (drop_bit 24 w0 AND 0xFF),
       push_bit 16 (w2 AND 0xFF) OR push_bit 8 (drop_bit 24 w1 AND 0xFF) OR (drop_bit 16 w1 AND 0xFF),
       push_bit 16 (drop_bit 24 w2 AND 0xFF) OR push_bit 8 (drop_bit 16 w2 AND 0xFF) OR (drop_bit 8 w2 AND 0xFF)])"

definition rgb_px :: "u8 list \<Rightarrow> nat \<Rightarrow> u32" where
  "rgb_px src i =
     push_bit 16 (ucast (src ! (i * 3 + 2))) OR push_bit 8 (ucast (src ! (i * 3 + 1))) OR ucast (src ! (i * 3))"

definition rgb_bytes :: "u8 list \<Rightarrow> nat \<Rightarrow> nat \<Rightarrow> u32 list" where
  "rgb_bytes src i j = map (rgb_px src) [i..<j]"

definition write_img_rgb888 :: "bool \<Rightarrow> nat \<Rightarrow> u8 list \<Rightarrow> hub75 \<Rightarrow> nat \<times> hub75" where
  "write_img_rgb888 aligned offset src h =
     (let limit = img_len h in
      if offset \<ge> limit then (0, h)
      else let n_px = min (length src div 3) (limit - offset) in
      if n_px = 0 then (0, h)
      else let dst =
        (if aligned then
           (let groups = n_px div 4 in
            concat (map (rgb_group src) [0..<groups]) @ rgb_bytes src (groups * 4) n_px)
         else rgb_bytes src 0 n_px) in
      (n_px, h\<lparr>fb_back := splice offset dst (fb_back h)\<rparr>))"

definition repair_from_front :: "nat \<Rightarrow> nat \<Rightarrow> hub75 \<Rightarrow> hub75" where
  "repair_from_front offset len h =
     (let limit = min (img_len h) (length (fb_front h)) in
      if offset \<ge> limit \<or> len = 0 then h
      else let end = min (offset + len) limit in
        h\<lparr>fb_back := splice offset (take (end - offset) (drop offset (fb_front h))) (fb_back h)\<rparr>)"

definition read_img_data :: "hub75 \<Rightarrow> u32 list" where
  "read_img_data h = take (min (unat (hlength h)) (length (fb_front h))) (fb_front h)"

section \<open>Which half is live\<close>

definition set_rgb_order :: "hub_hw \<Rightarrow> u8 \<Rightarrow> hub75 \<Rightarrow> bool \<times> hub75" where
  "set_rgb_order hw order h =
     (let ord = (if order > 5 then 0 else order);
          h' = (if hw_has_rgb_order hw then h\<lparr>r_rgb_order := ucast ord\<rparr> else h) in
      (ord = 0 \<or> (ucast (if hw_has_rgb_order hw then r_rgb_order h' else 0) :: u8) = ord, h'))"

definition get_rgb_order :: "hub_hw \<Rightarrow> hub75 \<Rightarrow> u8" where
  "get_rgb_order hw h = ucast (if hw_has_rgb_order hw then r_rgb_order h else 0)"

definition set_auto_swap :: "bool \<Rightarrow> hub75 \<Rightarrow> hub75" where
  "set_auto_swap on h = h\<lparr>auto_swap := on, r_auto_swap := (if on then 1 else 0)\<rparr>"

definition swap_halves :: "hub75 \<Rightarrow> hub75" where
  "swap_halves h = h\<lparr>fb_back := fb_front h, fb_front := fb_back h\<rparr>"

definition sync_buffers_from_hw :: "hub_hw \<Rightarrow> hub75 \<Rightarrow> hub75" where
  "sync_buffers_from_hw hw h =
     (let hw_active = (if hw_fb_base_now hw = FB_BASE_WORDS then 0 else 1) in
      if hw_active \<noteq> active_buf h then (swap_halves h)\<lparr>active_buf := hw_active\<rparr> else h)"

definition base_of :: "nat \<Rightarrow> u32" where
  "base_of b = (if b = 1 then FB_BASE_WORDS + of_nat FB_HALF_WORDS else FB_BASE_WORDS)"

definition swap_buffers :: "hub75 \<Rightarrow> hub75" where
  "swap_buffers h =
     (let a = (if active_buf h = 0 then 1 else 0) in
      (swap_halves h)\<lparr>active_buf := a, r_fb_base := base_of a\<rparr>)"

section \<open>Image and DMA bounds\<close>

definition publish_dma_limit :: "hub75 \<Rightarrow> hub75" where
  "publish_dma_limit h = h\<lparr>dma_limit := of_nat (img_len h)\<rparr>"

definition set_dma_enabled :: "bool \<Rightarrow> hub75 \<Rightarrow> hub75" where
  "set_dma_enabled on h = (publish_dma_limit h)\<lparr>dma_on := on\<rparr>"

definition dma_enabled :: "hub75 \<Rightarrow> bool" where
  "dma_enabled h = dma_on h"

definition dma_arrival :: "hub_hw \<Rightarrow> hub75 \<Rightarrow> (u32 list \<times> u16) option" where
  "dma_arrival hw h = (if dma_enabled h then Some (hw_arrival hw, ucast (hw_frame_id hw)) else None)"

definition dma_done_frame :: "hub_hw \<Rightarrow> hub75 \<Rightarrow> (u32 list \<times> u16 \<times> u16 \<times> bool \<times> u16) option" where
  "dma_done_frame hw h =
     (if \<not> dma_enabled h then None
      else let seq0 = ucast (fst (hw_done_seq hw)) in
      if ucast (snd (hw_done_seq hw)) \<noteq> seq0 then None
      else Some (hw_done hw, ucast (hw_done_frame_id hw), ucast (hw_done_total hw),
             hw_done_indexed hw \<noteq> 0, seq0))"

definition dma_frame_identity :: "hub_hw \<Rightarrow> hub75 \<Rightarrow> (u16 \<times> u16 \<times> bool) option" where
  "dma_frame_identity hw h =
     (if dma_enabled h
      then Some (ucast (hw_frame_id hw), ucast (hw_total_chunks hw), hw_indexed hw \<noteq> 0) else None)"

definition dma_last_chunk :: "hub_hw \<Rightarrow> u8" where
  "dma_last_chunk hw = ucast (hw_last_chunk hw)"

definition set_img_param :: "u16 \<Rightarrow> u32 \<Rightarrow> hub75 \<Rightarrow> hub75" where
  "set_img_param width len h = publish_dma_limit (h\<lparr>r_width := width, hlength := len\<rparr>)"

definition get_img_param :: "hub75 \<Rightarrow> u16 \<times> u32" where
  "get_img_param h = (r_width h, hlength h)"

section \<open>Panel registers\<close>

definition get_hw_info :: "hub_hw \<Rightarrow> u16 \<times> u16 \<times> u8 \<times> u8 \<times> u8" where
  "get_hw_info hw =
     (let config = (ucast (hw_config hw) :: u16) in
      (ucast (hw_columns hw), ucast (hw_rows hw), ucast (config AND 0xFF),
       if hw_driver hw \<noteq> 0 then 0 else ucast (drop_bit 8 config AND 0xF),
       ucast (drop_bit 12 config AND 0xF)))"

definition rgb_groups :: "hub_hw \<Rightarrow> u8 option" where
  "rgb_groups hw =
     (if hw_driver hw = 0 then None
      else Some (ucast (drop_bit 8 (ucast (hw_config hw) :: u16) AND 0xF)))"

definition panel_csr_count :: "hub_hw \<Rightarrow> nat" where
  "panel_csr_count hw =
     (case get_hw_info hw of (_, _, _, cl2, n_out) \<Rightarrow>
        let fw = unat OUTPUTS * unat CHAIN_LENGTH; n = unat n_out * 2 ^ unat cl2 in
        if n = 0 then fw else min fw n)"

definition get_panel_params :: "hub_hw \<Rightarrow> hub75 \<Rightarrow> u32 list" where
  "get_panel_params hw h = take (panel_csr_count hw) (r_panels h)"

definition set_panel_params :: "hub_hw \<Rightarrow> u32 list \<Rightarrow> hub75 \<Rightarrow> hub75" where
  "set_panel_params hw params h =
     h\<lparr>r_panels := splice 0 (take (panel_csr_count hw) params) (r_panels h)\<rparr>"

text \<open>The S-PWM build has one origin register per RGB group; the plain build has none.\<close>

definition set_group_origins :: "bool \<Rightarrow> (u16 \<times> u16) list \<Rightarrow> hub75 \<Rightarrow> nat \<times> hub75" where
  "set_group_origins spwm origins h =
     (if spwm then
        let g = take 4 (map (\<lambda>(x, y). (ucast (x div 16), ucast (y div 16))) origins) in
        (length g, h\<lparr>r_group_origins := splice 0 g (r_group_origins h)\<rparr>)
      else (0, h))"

definition panel_word :: "u8 \<Rightarrow> u8 \<Rightarrow> u8 \<Rightarrow> u32" where
  "panel_word x y rot = push_bit 16 (ucast (rot AND 3)) OR push_bit 8 (ucast y) OR ucast x"

definition set_panel_param :: "hub_hw \<Rightarrow> u8 \<Rightarrow> u8 \<Rightarrow> u8 \<Rightarrow> u8 \<Rightarrow> u8 \<Rightarrow> hub75 \<Rightarrow> hub75" where
  "set_panel_param hw output chain_num x y rot h =
     (if output \<ge> OUTPUTS \<or> chain_num \<ge> CHAIN_LENGTH then h
      else let chain_offset = unat (output * CHAIN_LENGTH + chain_num) in
      if chain_offset \<ge> panel_csr_count hw then h
      else h\<lparr>r_panels := (r_panels h)[chain_offset := panel_word x y rot]\<rparr>)"

definition get_panel_param :: "hub_hw \<Rightarrow> u8 \<Rightarrow> u8 \<Rightarrow> hub75 \<Rightarrow> u8 \<times> u8 \<times> u8" where
  "get_panel_param hw output chain_num h =
     (if output \<ge> OUTPUTS \<or> chain_num \<ge> CHAIN_LENGTH then (255, 255, 255)
      else let chain_offset = unat (output * CHAIN_LENGTH + chain_num) in
      if chain_offset \<ge> panel_csr_count hw then (255, 255, 255)
      else let d = r_panels h ! chain_offset in
        (ucast (d AND 0xFF), ucast (drop_bit 8 d AND 0xFF), ucast (drop_bit 16 d AND 3)))"

section \<open>Palette banks\<close>

definition palette_banks :: "hub_hw \<Rightarrow> u8" where
  "palette_banks hw = (let n = (ucast (hw_palette_banks hw) :: u8) in if n = 0 then 1 else n)"

definition back_palette_bank :: "hub_hw \<Rightarrow> nat" where
  "back_palette_bank hw =
     (if palette_banks hw < 2 then 0 else if hw_fb_base_now hw = FB_BASE_WORDS then 1 else 0)"

definition live_palette_bank :: "hub_hw \<Rightarrow> nat" where
  "live_palette_bank hw =
     (if palette_banks hw < 2 then 0 else (if back_palette_bank hw = 0 then 1 else 0))"

definition back_index :: "hub_hw \<Rightarrow> nat" where
  "back_index hw = (if hw_fb_base_now hw = FB_BASE_WORDS then 1 else 0)"

definition palette_bank :: "hub_hw \<Rightarrow> nat \<Rightarrow> hub75 \<Rightarrow> u32 list" where
  "palette_bank hw bank h =
     (let total = 256 * unat (palette_banks hw); start = min (bank * 256) total in
      take (min (start + 256) total - start) (drop start (palette_ram h)))"

definition set_palette_bank :: "hub_hw \<Rightarrow> nat \<Rightarrow> u8 \<Rightarrow> u32 list \<Rightarrow> hub75 \<Rightarrow> hub75" where
  "set_palette_bank hw bank offset data h =
     (let total = 256 * unat (palette_banks hw); start = bank * 256 + unat offset in
      if start \<ge> total then h
      else h\<lparr>palette_ram := splice start (take (total - start) data) (palette_ram h)\<rparr>)"

definition stash :: "u8 \<Rightarrow> u32 list \<Rightarrow> hub75 \<Rightarrow> nat \<times> hub75" where
  "stash offset data h =
     (let start = unat offset; vals = take (256 - min start 256) data;
          h1 = h\<lparr>palette_shadow := splice start vals (palette_shadow h)\<rparr> in
      (length vals, if length vals > 0 then h1\<lparr>palette_gen := palette_gen h + 1\<rparr> else h1))"

definition write_bank :: "hub_hw \<Rightarrow> nat \<Rightarrow> u8 \<Rightarrow> nat \<Rightarrow> hub75 \<Rightarrow> hub75" where
  "write_bank hw bank offset count h =
     (let start = unat offset; end = min (start + count) 256 in
      set_palette_bank hw bank offset (take (end - start) (drop start (palette_shadow h))) h)"

definition mark_bank :: "nat \<Rightarrow> hub75 \<Rightarrow> hub75" where
  "mark_bank bank h = h\<lparr>bank_gen := (bank_gen h)[bank mod 2 := palette_gen h]\<rparr>"

definition set_palette :: "hub_hw \<Rightarrow> u8 \<Rightarrow> u32 list \<Rightarrow> hub75 \<Rightarrow> hub75" where
  "set_palette hw offset data h =
     (case stash offset data h of (n, h1) \<Rightarrow>
        if n = 0 then h1
        else let bank = back_palette_bank hw in mark_bank bank (write_bank hw bank offset n h1))"

definition sync_palette_bank :: "hub_hw \<Rightarrow> hub75 \<Rightarrow> hub75" where
  "sync_palette_bank hw h =
     (if palette_banks hw < 2 \<or> palette_gen h = 0 then h
      else let bank = back_palette_bank hw in
        if bank_gen h ! (bank mod 2) = palette_gen h then h
        else mark_bank bank (write_bank hw bank 0 256 h))"

definition set_palette_all :: "hub_hw \<Rightarrow> u8 \<Rightarrow> (nat \<Rightarrow> u32) \<Rightarrow> hub75 \<Rightarrow> hub75" where
  "set_palette_all hw offset f h =
     (case stash offset (map f [0..<256]) h of (n, h1) \<Rightarrow>
        fold (\<lambda>bank h. mark_bank bank (write_bank hw bank offset n h)) [0..<unat (palette_banks hw)] h1)"

definition get_palette :: "hub75 \<Rightarrow> u32 list" where
  "get_palette h = take 256 (palette_ram h)"

end
