(* ===== verification/Bitmap_Udp.thy ===== *)
theory Bitmap_Udp
  imports Hub75_Dev
begin

text \<open>
  \<^verbatim>\<open>src/bitmap_udp.rs\<close>: the receiver of streamed frames. It collects the chunks of a
  frame in any order, patches what a few lost packets left out, and swaps the buffers.
  \<^const>\<open>None\<close> is a panic: an index outside the packet or the arrival mask.
\<close>

unbundle bit_operations_syntax

definition HEADER_SIZE :: nat where [src_consts]: "HEADER_SIZE = 10"
definition HEADER_SIZE_WIDE :: nat where [src_consts]: "HEADER_SIZE_WIDE = 12"
definition MAX_PAYLOAD :: nat where [src_consts]: "MAX_PAYLOAD = 1462"
definition PIXELS_PER_CHUNK :: nat where [src_consts]: "PIXELS_PER_CHUNK = MAX_PAYLOAD div 3"
definition PIXELS_PER_CHUNK_WIDE :: nat where [src_consts]: "PIXELS_PER_CHUNK_WIDE = PIXELS_PER_CHUNK - 1"
definition MAX_CHUNKS_NARROW :: nat where [src_consts]: "MAX_CHUNKS_NARROW = 255"
definition PIXELS_PER_CHUNK_INDEXED :: nat where [src_consts]: "PIXELS_PER_CHUNK_INDEXED = 3 * PIXELS_PER_CHUNK"
definition MAX_CHUNKS :: nat where [src_consts]: "MAX_CHUNKS = 512"
definition MASK_WORDS :: nat where [src_consts]: "MASK_WORDS = MAX_CHUNKS div 64"
definition PALETTE_LEN :: nat where [src_consts]: "PALETTE_LEN = 256"
definition PALETTE_DEFER_MS :: int where [src_consts]: "PALETTE_DEFER_MS = 200"
definition MAX_REPAIR_CHUNKS :: u16 where [src_consts]: "MAX_REPAIR_CHUNKS = 2"
definition STALE_MS :: int where [src_consts]: "STALE_MS = 250"
definition STUCK_FRAMES :: u8 where [src_consts]: "STUCK_FRAMES = 8"

record bitmap_stats =
  packets_total :: u32
  packets_valid :: u32
  palette_writes :: u32
  packets_bad_magic :: u32
  packets_bad_header :: u32
  packets_bad_size :: u32
  packets_duplicate :: u32
  packets_cpu_skipped :: u32
  swap_overlap_max :: u8
  swap_overlap_last :: u8
  frames_completed :: u32
  frames_partial :: u32
  frames_dropped :: u32
  frames_stale :: u32
  chunks_repaired :: u32
  auto_swap_demoted :: u32
  last_frame_id :: u16
  last_chunk_index :: u16
  last_total_chunks :: u16
  last_width :: u16
  last_height :: u16
  last_data_len :: u16
  last_missing :: u16
  miss_buckets :: "u32 list"
  chunks_received :: u16
  frame_interval_ms :: u32
  avg_interval_ms :: u32
  jitter_ms :: u32

definition stats_new :: bitmap_stats where
  "stats_new = \<lparr>packets_total = 0, packets_valid = 0, palette_writes = 0, packets_bad_magic = 0,
     packets_bad_header = 0, packets_bad_size = 0, packets_duplicate = 0, packets_cpu_skipped = 0,
     swap_overlap_max = 0, swap_overlap_last = 0, frames_completed = 0, frames_partial = 0,
     frames_dropped = 0, frames_stale = 0, chunks_repaired = 0, auto_swap_demoted = 0,
     last_frame_id = 0, last_chunk_index = 0, last_total_chunks = 0, last_width = 0,
     last_height = 0, last_data_len = 0, last_missing = 0, miss_buckets = replicate 16 0,
     chunks_received = 0, frame_interval_ms = 0, avg_interval_ms = 0, jitter_ms = 0\<rparr>"

record receiver =
  current_frame_id :: u16
  hw_filter_on :: bool
  last_done_seq :: u16
  last_fb_base :: u32
  fb_base_stuck :: u8
  cpu_saw_packet :: bool
  cpu_pixels :: bool
  chunk_mask :: "u64 list"
  total_chunks :: nat
  indexed :: bool
  wide :: bool
  mode_indexed :: "bool option"
  hold :: bool
  pending_palette :: "u32 list"
  pending_palette_start :: u8
  pending_palette_len :: u16
  pending_palette_valid :: bool
  received :: u16
  last_packet_ms :: int
  last_complete_ms :: int
  stats :: bitmap_stats

definition receiver_new :: receiver where
  "receiver_new = \<lparr>current_frame_id = -1, hw_filter_on = False, last_done_seq = 0, last_fb_base = -1,
     fb_base_stuck = 0, cpu_saw_packet = False, cpu_pixels = True,
     chunk_mask = replicate MASK_WORDS 0, total_chunks = 0, indexed = False, wide = False,
     mode_indexed = None, hold = False, pending_palette = replicate PALETTE_LEN 0,
     pending_palette_start = 0, pending_palette_len = 0, pending_palette_valid = False,
     received = 0, last_packet_ms = 0, last_complete_ms = 0, stats = stats_new\<rparr>"

definition with_stats :: "(bitmap_stats \<Rightarrow> bitmap_stats) \<Rightarrow> receiver \<Rightarrow> receiver" where
  "with_stats f rx = rx\<lparr>stats := f (stats rx)\<rparr>"

definition ppc :: "receiver \<Rightarrow> nat" where
  "ppc rx = (if indexed rx then PIXELS_PER_CHUNK_INDEXED
     else if wide rx then PIXELS_PER_CHUNK_WIDE else PIXELS_PER_CHUNK)"

section \<open>The arrival mask\<close>

definition mask_test :: "nat \<Rightarrow> receiver \<Rightarrow> bool" where
  "mask_test idx rx \<longleftrightarrow> chunk_mask rx ! (idx div 64) AND push_bit (idx mod 64) 1 \<noteq> 0"

definition mask_set :: "nat \<Rightarrow> receiver \<Rightarrow> receiver" where
  "mask_set idx rx = rx\<lparr>chunk_mask := (chunk_mask rx)
     [idx div 64 := chunk_mask rx ! (idx div 64) OR push_bit (idx mod 64) 1]\<rparr>"

definition mask_clear :: "receiver \<Rightarrow> receiver" where
  "mask_clear rx = rx\<lparr>chunk_mask := replicate MASK_WORDS 0\<rparr>"

definition count_ones :: "u64 \<Rightarrow> nat" where
  "count_ones w = length (filter (bit w) [0..<64])"

definition mask_words :: "u32 list \<Rightarrow> u64 list" where
  "mask_words ws = map (\<lambda>i. ucast (ws ! (2 * i)) OR push_bit 32 (ucast (ws ! (2 * i + 1)))) [0..<MASK_WORDS]"

definition mask_count :: "u64 list \<Rightarrow> nat" where
  "mask_count m = sum_list (map count_ones m)"

section \<open>Palette, mode, timing\<close>

definition apply_mode :: "bool \<Rightarrow> receiver \<Rightarrow> hub75 \<Rightarrow> receiver \<times> hub75" where
  "apply_mode ix rx h =
     (if mode_indexed rx \<noteq> Some ix
      then (rx\<lparr>mode_indexed := Some ix\<rparr>, set_mode (if ix then Indexed else FullColor) h)
      else (rx, h))"

definition apply_pending_palette :: "hub_hw \<Rightarrow> receiver \<Rightarrow> hub75 \<Rightarrow> receiver \<times> hub75" where
  "apply_pending_palette hw rx h =
     (if \<not> pending_palette_valid rx then (rx, h)
      else (rx\<lparr>pending_palette_valid := False\<rparr>,
            set_palette hw (pending_palette_start rx)
              (take (unat (pending_palette_len rx)) (pending_palette rx)) h))"

definition palette_word :: "u8 list \<Rightarrow> nat \<Rightarrow> u32" where
  "palette_word body i =
     push_bit 16 (ucast (body ! (3 * i + 1))) OR push_bit 8 (ucast (body ! (3 * i))) OR ucast (body ! (3 * i + 2))"

definition stash_palette :: "hub_hw \<Rightarrow> u8 \<Rightarrow> u8 list \<Rightarrow> int \<Rightarrow> receiver \<Rightarrow> hub75 \<Rightarrow> receiver \<times> hub75" where
  "stash_palette hw start body time_ms rx h =
     (let streaming = time_ms - last_packet_ms rx < PALETTE_DEFER_MS;
          n = min (length body div 3) (PALETTE_LEN - unat start);
          rx1 = rx\<lparr>pending_palette := splice 0 (map (palette_word body) [0..<n]) (pending_palette rx),
                   pending_palette_start := start, pending_palette_len := of_nat n,
                   pending_palette_valid := True\<rparr> in
      if streaming then (rx1, h) else apply_pending_palette hw rx1 h)"

definition update_timing :: "int \<Rightarrow> receiver \<Rightarrow> receiver" where
  "update_timing time_ms rx =
     (let rx1 =
       (if last_complete_ms rx > 0 then
          let interval = of_int (time_ms - last_complete_ms rx);
              avg0 = avg_interval_ms (stats rx);
              avg = (if avg0 = 0 then interval else drop_bit 3 (avg0 * 7 + interval));
              jitter = (if interval > avg then interval - avg else avg - interval) in
          with_stats (\<lambda>s. s\<lparr>frame_interval_ms := interval, avg_interval_ms := avg, jitter_ms := jitter\<rparr>) rx
        else rx) in
      rx1\<lparr>last_complete_ms := time_ms\<rparr>)"

definition reset_frame :: "receiver \<Rightarrow> receiver" where
  "reset_frame rx = with_stats (\<lambda>s. s\<lparr>chunks_received := 0\<rparr>)
     ((mask_clear rx)\<lparr>total_chunks := 0, received := 0, cpu_saw_packet := False\<rparr>)"

section \<open>Presenting a frame\<close>

definition count_miss :: "nat \<Rightarrow> nat \<Rightarrow> bitmap_stats \<Rightarrow> bitmap_stats" where
  "count_miss expected idx s =
     (let b = idx * 16 div expected in
      if b < 16 then s\<lparr>miss_buckets := (miss_buckets s)[b := sat_add (miss_buckets s ! b) 1]\<rparr> else s)"

text \<open>One turn of the repair loop: a chunk that never arrived, patched from the displayed buffer.\<close>

definition repair_chunk :: "nat \<Rightarrow> receiver \<times> hub75 \<Rightarrow> receiver \<times> hub75" where
  "repair_chunk idx = (\<lambda>(rx, h).
     (if mask_test idx rx then (rx, h)
      else let offset = idx * ppc rx in
      if offset \<ge> img_len h then (rx, h)
      else (with_stats (\<lambda>s. s\<lparr>chunks_repaired := chunks_repaired s + 1\<rparr>) rx,
            repair_from_front offset (min (ppc rx) (img_len h - offset)) h)))"

text \<open>The flip: by the CPU, or mirrored from the gateware and taken back when it is stuck.\<close>

definition flip :: "hub_hw \<Rightarrow> receiver \<Rightarrow> hub75 \<Rightarrow> receiver \<times> hub75" where
  "flip hw rx h =
     (if auto_swap h then
        let b = hw_fb_base_now hw;
            rx1 = (if b = last_fb_base rx then rx\<lparr>fb_base_stuck := sat_add (fb_base_stuck rx) 1\<rparr>
                   else rx\<lparr>fb_base_stuck := 0, last_fb_base := b\<rparr>) in
        if fb_base_stuck rx1 \<ge> STUCK_FRAMES
        then (with_stats (\<lambda>s. s\<lparr>auto_swap_demoted := auto_swap_demoted s + 1\<rparr>) rx1\<lparr>fb_base_stuck := 0\<rparr>,
              swap_buffers (set_auto_swap False h))
        else (rx1, sync_buffers_from_hw hw h)
      else (rx, swap_buffers h))"

definition present :: "hub_hw \<Rightarrow> int \<Rightarrow> receiver \<Rightarrow> hub75 \<Rightarrow> (bool \<times> receiver \<times> hub75) option" where
  "present hw time_ms rx h =
     (if total_chunks rx = 0 then Some (False, rx, h)
      else
       let expected = (of_nat (total_chunks rx) :: u16);
           missing = sat_sub expected (received rx);
           n = unat expected;
           rx1 = with_stats (\<lambda>s. s\<lparr>last_missing := missing\<rparr>) rx in
       if missing > 0 \<and> n > MAX_CHUNKS then None
       else
        let rx2 = (if missing > 0
                   then with_stats (fold (count_miss n) (filter (\<lambda>i. \<not> mask_test i rx1) [0..<n])) rx1
                   else rx1) in
        if missing > MAX_REPAIR_CHUNKS
        then Some (False, reset_frame (with_stats (\<lambda>s. s\<lparr>frames_dropped := frames_dropped s + 1\<rparr>) rx2), h)
        else
         let (rx3, h1) =
           (if missing > 0 \<and> \<not> auto_swap h
            then (case fold repair_chunk [0..<n] (rx2, h) of (r, h') \<Rightarrow>
                   (with_stats (\<lambda>s. s\<lparr>frames_partial := frames_partial s + 1\<rparr>) r, h'))
            else (with_stats (\<lambda>s. s\<lparr>frames_completed := frames_completed s + 1\<rparr>) rx2, h));
             (rx4, h2) = apply_pending_palette hw rx3 h1;
             (rx5, h3) = flip hw rx4 h2 in
         Some (True, reset_frame (update_timing time_ms rx5), h3))"

section \<open>Frames the gateware reports\<close>

definition present_done_frame :: "hub_hw \<Rightarrow> int \<Rightarrow> receiver \<Rightarrow> hub75 \<Rightarrow> (bool \<times> receiver \<times> hub75) option" where
  "present_done_frame hw time_ms rx h =
     (case dma_done_frame hw h of
        None \<Rightarrow> Some (False, rx, h)
      | Some (words, fid, tot, ix, seq) \<Rightarrow>
          if tot = 0 \<or> seq = last_done_seq rx then Some (False, rx, h)
          else let rx1 = rx\<lparr>last_done_seq := seq\<rparr> in
          if cpu_saw_packet rx then Some (False, rx1, h)
          else
           let mask = mask_words words;
               (rx2, h2) = apply_mode ix (rx1\<lparr>chunk_mask := mask, current_frame_id := fid,
                 total_chunks := unat tot, indexed := ix,
                 wide := (\<not> ix \<and> unat tot > MAX_CHUNKS_NARROW)\<rparr>) h;
               rcv = of_nat (min (mask_count mask) (unat tot));
               overlap = dma_last_chunk hw;
               rx3 = with_stats (\<lambda>s. s\<lparr>chunks_received := rcv, swap_overlap_last := overlap,
                       swap_overlap_max := max overlap (swap_overlap_max s)\<rparr>)
                     (rx2\<lparr>received := rcv, last_packet_ms := time_ms\<rparr>) in
           present hw time_ms rx3 h2)"

definition present_done_now :: "hub_hw \<Rightarrow> int \<Rightarrow> receiver \<Rightarrow> hub75 \<Rightarrow> (bool \<times> receiver \<times> hub75) option" where
  "present_done_now hw time_ms rx h =
     (if \<not> hw_filter_on rx then Some (False, rx, h) else present_done_frame hw time_ms rx h)"

definition adopt_dma_frame :: "hub_hw \<Rightarrow> int \<Rightarrow> receiver \<Rightarrow> hub75 \<Rightarrow> (bool \<times> receiver \<times> hub75) option" where
  "adopt_dma_frame hw time_ms rx h =
     (case dma_frame_identity hw h of
        None \<Rightarrow> Some (False, rx, h)
      | Some (fid, tot, ix) \<Rightarrow>
          if tot = 0 \<or> fid = current_frame_id rx \<or> cpu_saw_packet rx then Some (False, rx, h)
          else case present hw time_ms rx h of
            None \<Rightarrow> None
          | Some (presented, rx1, h1) \<Rightarrow>
              let rx2 = with_stats (\<lambda>s. s\<lparr>chunks_received := 0\<rparr>)
                    ((mask_clear rx1)\<lparr>received := 0, current_frame_id := fid,
                      total_chunks := unat tot, indexed := ix,
                      wide := (\<not> ix \<and> unat tot > MAX_CHUNKS_NARROW)\<rparr>);
                  (rx3, h2) = apply_mode ix rx2 h1 in
              Some (presented, rx3\<lparr>last_packet_ms := time_ms\<rparr>, h2))"

definition merge_dma_arrival :: "hub_hw \<Rightarrow> hub75 \<Rightarrow> int \<Rightarrow> receiver \<Rightarrow> receiver" where
  "merge_dma_arrival hw h time_ms rx =
     (case dma_arrival hw h of
        None \<Rightarrow> rx
      | Some (words, fid) \<Rightarrow>
          if fid \<noteq> current_frame_id rx then rx
          else
           let mask = map2 (OR) (chunk_mask rx) (mask_words words);
               merged = of_nat (min (mask_count mask) (total_chunks rx));
               rx1 = rx\<lparr>chunk_mask := mask\<rparr>;
               rx2 = (if merged > received rx then rx1\<lparr>last_packet_ms := time_ms\<rparr> else rx1) in
           with_stats (\<lambda>s. s\<lparr>chunks_received := merged\<rparr>) (rx2\<lparr>received := merged\<rparr>))"

definition receiver_tick :: "hub_hw \<Rightarrow> int \<Rightarrow> receiver \<Rightarrow> hub75 \<Rightarrow> (bool \<times> receiver \<times> hub75) option" where
  "receiver_tick hw time_ms rx0 h0 =
     (let (rx, h) =
        (if pending_palette_valid rx0 \<and> time_ms - last_packet_ms rx0 \<ge> PALETTE_DEFER_MS
         then apply_pending_palette hw rx0 h0 else (rx0, h0)) in
      case present_done_frame hw time_ms rx h of
        None \<Rightarrow> None
      | Some (p1, rx1, h1) \<Rightarrow>
         if hw_filter_on rx1 then Some (p1, rx1, h1)
         else case adopt_dma_frame hw time_ms rx1 h1 of
           None \<Rightarrow> None
         | Some (p2, rx2, h2) \<Rightarrow>
            if total_chunks rx2 = 0 then Some (p1 \<or> p2, rx2, h2)
            else let rx3 = merge_dma_arrival hw h2 time_ms rx2 in
            if received rx3 \<ge> of_nat (total_chunks rx3)
            then map_option (\<lambda>(p3, r, h'). (p3 \<or> p1 \<or> p2, r, h')) (present hw time_ms rx3 h2)
            else if received rx3 = 0 \<or> time_ms - last_packet_ms rx3 < STALE_MS
            then Some (p1 \<or> p2, rx3, h2)
            else map_option (\<lambda>(p3, r, h'). (p1 \<or> p2 \<or> p3, r, h'))
              (present hw time_ms (with_stats (\<lambda>s. s\<lparr>frames_stale := frames_stale s + 1\<rparr>) rx3) h2))"


section \<open>Switches\<close>

definition set_hold :: "bool \<Rightarrow> receiver \<Rightarrow> receiver" where
  "set_hold on rx = rx\<lparr>hold := on\<rparr>"

definition forget_frame :: "receiver \<Rightarrow> receiver" where
  "forget_frame rx = with_stats (\<lambda>s. s\<lparr>chunks_received := 0\<rparr>)
     ((mask_clear rx)\<lparr>received := 0, total_chunks := 0, cpu_saw_packet := False\<rparr>)"

definition set_cpu_pixels :: "bool \<Rightarrow> receiver \<Rightarrow> receiver" where
  "set_cpu_pixels on rx =
     (let rx1 = rx\<lparr>cpu_pixels := on\<rparr> in if \<not> on then forget_frame rx1 else rx1)"

definition set_hw_filter :: "bool \<Rightarrow> receiver \<Rightarrow> receiver" where
  "set_hw_filter on rx = rx\<lparr>hw_filter_on := on\<rparr>"

definition streaming_recently :: "int \<Rightarrow> receiver \<Rightarrow> bool" where
  "streaming_recently now rx \<longleftrightarrow> last_packet_ms rx \<noteq> 0 \<and> now - last_packet_ms rx < 2000"

definition invalidate_mode_cache :: "receiver \<Rightarrow> receiver" where
  "invalidate_mode_cache rx = rx\<lparr>mode_indexed := None\<rparr>"

section \<open>Packets\<close>

definition bad_header :: "receiver \<Rightarrow> receiver" where
  "bad_header = with_stats (\<lambda>s. s\<lparr>packets_bad_header := packets_bad_header s + 1\<rparr>)"

text \<open>The last step: a chunk of the frame in progress is drawn, marked and counted.\<close>

definition place_chunk ::
  "hub_hw \<Rightarrow> bool \<Rightarrow> nat \<Rightarrow> u8 list \<Rightarrow> int \<Rightarrow> receiver \<Rightarrow> hub75 \<Rightarrow> (bool \<times> receiver \<times> hub75) option" where
  "place_chunk hw aligned idx body time_ms rx h =
     in_bounds (idx div 64) (chunk_mask rx)
     (if mask_test idx rx
      then Some (False, with_stats (\<lambda>s. s\<lparr>packets_duplicate := packets_duplicate s + 1\<rparr>)
             (rx\<lparr>last_packet_ms := time_ms\<rparr>), h)
      else
       let offset = idx * ppc rx;
           h1 = (if dma_enabled h then h
                 else snd (if indexed rx then write_img_indexed aligned offset body h
                           else write_img_rgb888 aligned offset body h));
           rcv = received rx + 1;
           rx1 = with_stats (\<lambda>s. s\<lparr>chunks_received := rcv\<rparr>)
             ((mask_set idx rx)\<lparr>received := rcv, cpu_saw_packet := True, last_packet_ms := time_ms\<rparr>);
           rx2 = (if received rx1 + 1 \<ge> of_nat (total_chunks rx1)
                  then merge_dma_arrival hw h1 time_ms rx1 else rx1) in
       if received rx2 \<ge> of_nat (total_chunks rx2) then present hw time_ms rx2 h1
       else Some (False, rx2, h1))"

text \<open>A chunk of a valid frame, of the one in progress or of a new one.\<close>

definition frame_chunk ::
  "hub_hw \<Rightarrow> bool \<Rightarrow> u16 \<Rightarrow> nat \<Rightarrow> nat \<Rightarrow> u16 \<Rightarrow> u16 \<Rightarrow> u8 list \<Rightarrow> int \<Rightarrow> receiver \<Rightarrow> hub75
    \<Rightarrow> (bool \<times> receiver \<times> hub75) option" where
  "frame_chunk hw aligned frame_id idx tot width height body time_ms rx h =
     (if frame_id \<noteq> current_frame_id rx \<or> tot \<noteq> total_chunks rx then
        (let (cur_w, cur_len) = get_img_param h;
             incoming_len = (ucast width :: u32) * ucast height in
         if cur_w \<noteq> 0 \<and> (width \<noteq> cur_w \<or> incoming_len \<noteq> cur_len) then Some (False, bad_header rx, h)
         else case present hw time_ms rx h of
           None \<Rightarrow> None
         | Some (presented, rx1, h1) \<Rightarrow>
             map_option (\<lambda>(p, r, h'). (p \<or> presented, r, h'))
               (place_chunk hw aligned idx body time_ms
                 (rx1\<lparr>current_frame_id := frame_id, total_chunks := tot\<rparr>) h1))
      else place_chunk hw aligned idx body time_ms rx h)"

text \<open>The header checks, once magic and mode are settled.\<close>

definition bitmap_packet ::
  "hub_hw \<Rightarrow> bool \<Rightarrow> u8 list \<Rightarrow> int \<Rightarrow> receiver \<Rightarrow> hub75 \<Rightarrow> (bool \<times> receiver \<times> hub75) option" where
  "bitmap_packet hw aligned data time_ms rx h =
     in_bounds 3 data
     (let frame_id = u16_le (data ! 2) (data ! 3) in
      if wide rx \<and> length data < HEADER_SIZE_WIDE then Some (False, bad_header rx, h)
      else in_bounds (if wide rx then 11 else 9) data
       (let (idx, tot, width, height, hdr_len) =
         (if wide rx
          then (unat (u16_le (data ! 4) (data ! 5)), unat (u16_le (data ! 6) (data ! 7)),
                u16_le (data ! 8) (data ! 9), u16_le (data ! 10) (data ! 11), HEADER_SIZE_WIDE)
          else (unat (data ! 4), unat (data ! 5),
                u16_le (data ! 6) (data ! 7), u16_le (data ! 8) (data ! 9), HEADER_SIZE)) in
       if tot > MAX_CHUNKS then Some (False, bad_header rx, h)
       else
        let rx1 = with_stats (\<lambda>s. s\<lparr>last_frame_id := frame_id, last_chunk_index := of_nat idx,
              last_total_chunks := of_nat tot, last_width := width, last_height := height\<rparr>) rx in
        if tot = 0 \<or> idx \<ge> tot then Some (False, bad_header rx1, h)
        else
         let len = img_len h; declared = unat width * unat height in
         if width \<noteq> 0 \<and> height \<noteq> 0 \<and> declared \<noteq> len
         then Some (False, with_stats (\<lambda>s. s\<lparr>packets_bad_size := packets_bad_size s + 1\<rparr>) rx1, h)
         else if len = 0 \<or> tot > (len + ppc rx - 1) div ppc rx then Some (False, bad_header rx1, h)
         else in_slice hdr_len data
                (frame_chunk hw aligned frame_id idx tot width height (drop hdr_len data) time_ms
                  (with_stats (\<lambda>s. s\<lparr>packets_valid := packets_valid s + 1\<rparr>) rx1) h)))"

definition process_packet ::
  "hub_hw \<Rightarrow> bool \<Rightarrow> u8 list \<Rightarrow> int \<Rightarrow> receiver \<Rightarrow> hub75 \<Rightarrow> (bool \<times> receiver \<times> hub75) option" where
  "process_packet hw aligned data time_ms rx0 h =
     (let rx = with_stats (\<lambda>s. s\<lparr>packets_total := packets_total s + 1, last_data_len := of_nat (length data)\<rparr>) rx0 in
      if hold rx then Some (False, rx, h)
      else if length data < HEADER_SIZE then Some (False, bad_header rx, h)
      else in_bounds 1 data
      (if \<not> cpu_pixels rx \<and> data ! 0 = 0x42 \<and> (data ! 1 = 0x4D \<or> data ! 1 = 0x49 \<or> data ! 1 = 0x57)
      then Some (False, with_stats (\<lambda>s. s\<lparr>packets_cpu_skipped := packets_cpu_skipped s + 1\<rparr>)
             (rx\<lparr>last_packet_ms := time_ms\<rparr>), h)
      else if data ! 0 = 0x42 \<and> data ! 1 = 0x50
      then in_bounds 4 data (in_slice HEADER_SIZE data
             (case stash_palette hw (data ! 4) (drop HEADER_SIZE data) time_ms rx h of (rx1, h1) \<Rightarrow>
               Some (False, with_stats (\<lambda>s. s\<lparr>palette_writes := palette_writes s + 1\<rparr>) rx1, h1)))
      else if \<not> (data ! 0 = 0x42 \<and> (data ! 1 = 0x4D \<or> data ! 1 = 0x49 \<or> data ! 1 = 0x57))
      then Some (False, with_stats (\<lambda>s. s\<lparr>packets_bad_magic := packets_bad_magic s + 1\<rparr>) rx, h)
      else
       let ix = (data ! 1 = 0x49); wd = (data ! 1 = 0x57);
           (rx1, h1) = apply_mode ix (rx\<lparr>indexed := ix, wide := wd\<rparr>) h in
       bitmap_packet hw aligned data time_ms rx1 h1))"

end
