(* ===== verification/Frame_Store.thy ===== *)
theory Frame_Store
  imports LW_Prelude
begin

text \<open>
  What a receiver of frames asks of a double-buffered display: pixels are put into the
  buffer being drawn, a range can be patched from the buffer being shown, and a swap
  exchanges the two. The laws speak of the pixels inside the image only.
\<close>

locale frame_store =
  fixes size :: "'s \<Rightarrow> nat" and ok :: "'s \<Rightarrow> bool"
    and drawn shown :: "'s \<Rightarrow> nat \<Rightarrow> 'p"
    and put :: "nat \<Rightarrow> 'p list \<Rightarrow> 's \<Rightarrow> 's" and patch :: "nat \<Rightarrow> nat \<Rightarrow> 's \<Rightarrow> 's"
    and swap :: "'s \<Rightarrow> 's"
  assumes ok_put: "ok s \<Longrightarrow> ok (put off ps s)" and ok_patch: "ok s \<Longrightarrow> ok (patch off n s)"
    and ok_swap: "ok s \<Longrightarrow> ok (swap s)"
    and size_put: "ok s \<Longrightarrow> size (put off ps s) = size s"
    and size_patch: "ok s \<Longrightarrow> size (patch off n s) = size s"
    and size_swap: "ok s \<Longrightarrow> size (swap s) = size s"
    and drawn_put: "ok s \<Longrightarrow> i < size s \<Longrightarrow> drawn (put off ps s) i =
      (if off \<le> i \<and> i - off < length ps then ps ! (i - off) else drawn s i)"
    and shown_put: "ok s \<Longrightarrow> i < size s \<Longrightarrow> shown (put off ps s) i = shown s i"
    and drawn_patch: "ok s \<Longrightarrow> i < size s \<Longrightarrow> drawn (patch off n s) i =
      (if off \<le> i \<and> i < off + n then shown s i else drawn s i)"
    and shown_patch: "ok s \<Longrightarrow> i < size s \<Longrightarrow> shown (patch off n s) i = shown s i"
    and drawn_swap: "ok s \<Longrightarrow> i < size s \<Longrightarrow> drawn (swap s) i = shown s i"
    and shown_swap: "ok s \<Longrightarrow> i < size s \<Longrightarrow> shown (swap s) i = drawn s i"
begin

text \<open>Chunk \<open>k\<close> of chunk size \<open>c\<close> is the range of pixels whose index divides to \<open>k\<close>.\<close>

lemma chunk_range:
  fixes c i k :: nat
  shows "0 < c \<Longrightarrow> k * c \<le> i \<and> i < k * c + c \<longleftrightarrow> i div c = k"
proof
  assume "0 < c" "k * c \<le> i \<and> i < k * c + c"
  then have "i = (i - k * c) + k * c" "i - k * c < c" by linarith+
  then show "i div c = k" by (metis add.commute div_less div_mult_self1 add_0 \<open>0 < c\<close> less_irrefl)
next
  assume "0 < c" "i div c = k"
  then show "k * c \<le> i \<and> i < k * c + c"
    using div_mult_mod_eq [of i c] mod_less_divisor [of c i] by (metis le_add1 nat_add_left_cancel_less)
qed

lemma patch_chunks:
  assumes "0 < c"
  shows "ok s \<Longrightarrow> ok (fold (\<lambda>k. patch (k * c) c) ks s) \<and>
    size (fold (\<lambda>k. patch (k * c) c) ks s) = size s \<and>
    (\<forall>i < size s. shown (fold (\<lambda>k. patch (k * c) c) ks s) i = shown s i \<and>
       drawn (fold (\<lambda>k. patch (k * c) c) ks s) i =
         (if i div c \<in> set ks then shown s i else drawn s i))"
proof (induction ks arbitrary: s)
  case (Cons k ks)
  let ?s = "patch (k * c) c s"
  have ok: "ok ?s" and size: "size ?s = size s"
    using Cons.prems by (simp_all add: ok_patch size_patch)
  show ?case
    using Cons.IH [OF ok] size Cons.prems
    by (auto simp: shown_patch drawn_patch chunk_range [OF assms])
qed simp

text \<open>A frame of which some chunks arrived is drawn; the others are patched; then it is shown.\<close>

lemma shown_frame:
  assumes c: "0 < c" and ok: "ok s" and i: "i < size s"
    and arrived: "i div c \<notin> set ks \<Longrightarrow> drawn s i = pix i"
  shows "shown (swap (fold (\<lambda>k. patch (k * c) c) ks s)) i =
    (if i div c \<in> set ks then shown s i else pix i)"
  using patch_chunks [OF c ok, of ks] i arrived by (simp add: shown_swap)

text \<open>Putting one chunk extends what has arrived.\<close>

lemma put_chunk:
  assumes "0 < c" "ok s" "i < size s"
    and old: "i div c \<in> K \<Longrightarrow> drawn s i = pix i"
    and new: "\<And>j. j < c \<Longrightarrow> k * c + j < size s \<Longrightarrow> j < length ps \<and> ps ! j = pix (k * c + j)"
    and in_chunk: "length ps \<le> c"
    and mem: "i div c \<in> insert k K"
  shows "drawn (put (k * c) ps s) i = pix i"
proof (cases "i div c = k")
  case True
  then have r: "k * c \<le> i" "i < k * c + c" using chunk_range [OF assms(1), of k i] by auto
  then have "i - k * c < c" "k * c + (i - k * c) = i" by auto
  with new [of "i - k * c"] assms(3) have "i - k * c < length ps \<and> ps ! (i - k * c) = pix i" by simp
  then show ?thesis using r assms(2,3) by (simp add: drawn_put)
next
  case False
  then have "\<not> (k * c \<le> i \<and> i < k * c + c)" using chunk_range [OF assms(1)] by simp
  then have "\<not> (k * c \<le> i \<and> i - k * c < length ps)" using in_chunk by auto
  then show ?thesis using False old mem assms(2,3) by (auto simp: drawn_put)
qed

end

end
