(* ===== verification/Hub75_Buffers.thy ===== *)
theory Hub75_Buffers
  imports Hub75_Dev Frame_Store
begin

text \<open>
  The framebuffer operations of \<open>Hub75_Dev\<close>: the word-at-a-time paths write what the
  byte-at-a-time paths write, nothing reaches past the image, and the display is a
  \<open>frame_store\<close>.
\<close>

unbundle bit_operations_syntax

section \<open>Word paths and byte paths\<close>

lemma and_ff32: "(w :: u32) AND 0xFF = take_bit 8 w"
  by (simp add: take_bit_eq_mask mask_eq_exp_minus_1)

lemma le_word_byte:
  "drop_bit 0 (le_word src k) AND 0xFF = ucast (src ! (4 * k))"
  "drop_bit 8 (le_word src k) AND 0xFF = ucast (src ! (4 * k + 1))"
  "drop_bit 16 (le_word src k) AND 0xFF = ucast (src ! (4 * k + 2))"
  "drop_bit 24 (le_word src k) AND 0xFF = ucast (src ! (4 * k + 3))"
  unfolding and_ff32 le_word_def
  by (rule bit_word_eqI; auto simp: bit_simps dest: bit_imp_le_length)+

lemma le_word_low: "le_word src k AND 0xFF = ucast (src ! (4 * k))"
  using le_word_byte(1) [of src k] by simp

lemma upt4: "[n..<n + 4] = [n, n + 1, n + 2, n + (3 :: nat)]"
  by (simp add: upt_rec)

lemma indexed_group_bytes: "indexed_group src g = indexed_bytes src (g * 4) (g * 4 + 4)"
  unfolding indexed_group_def indexed_bytes_def Let_def upt4 list.map le_word_byte le_word_low
  by (simp only: mult.commute [of g 4])

lemma rgb_group_bytes: "rgb_group src g = rgb_bytes src (g * 4) (g * 4 + 4)"
proof -
  have i: "4 * (g * 3) = g * 12" "4 * (g * 3 + 1) = g * 12 + 4" "4 * (g * 3 + 2) = g * 12 + 8"
    "g * 4 * 3 = g * 12" "(g * 4 + 1) * 3 = g * 12 + 3" "(g * 4 + 2) * 3 = g * 12 + 6"
    "(g * 4 + 3) * 3 = g * 12 + 9" by simp_all
  show ?thesis
    unfolding rgb_group_def rgb_bytes_def Let_def upt4 list.map rgb_px_def le_word_byte le_word_low i
    by (simp only: add.assoc numeral_plus_numeral numeral_plus_one add_num_simps)
qed

lemma concat_groups:
  assumes "\<And>g. grp g = map f [g * 4..<g * 4 + 4]"
  shows "concat (map grp [0..<n]) = map f [0..<n * 4]"
proof (induction n)
  case (Suc n)
  have "[0..<Suc n * 4] = [0..<n * 4] @ [n * 4..<n * 4 + 4]"
    using upt_add_eq_append [of 0 "n * 4" 4] by (simp add: add.commute)
  then show ?case using Suc assms [of n] by (simp add: upt_Suc_append del: upt_Suc)
qed simp

lemma aligned_indexed:
  "concat (map (indexed_group src) [0..<n div 4]) @ indexed_bytes src (n div 4 * 4) n = indexed_bytes src 0 n"
proof -
  have "concat (map (indexed_group src) [0..<n div 4]) = indexed_bytes src 0 (n div 4 * 4)"
    unfolding indexed_bytes_def
    by (rule concat_groups) (simp add: indexed_group_bytes indexed_bytes_def)
  moreover have "[0..<n] = [0..<n div 4 * 4] @ [n div 4 * 4..<n]"
    by (rule upt_split) simp
  ultimately show ?thesis by (simp add: indexed_bytes_def)
qed

lemma aligned_rgb:
  "concat (map (rgb_group src) [0..<n div 4]) @ rgb_bytes src (n div 4 * 4) n = rgb_bytes src 0 n"
proof -
  have "concat (map (rgb_group src) [0..<n div 4]) = rgb_bytes src 0 (n div 4 * 4)"
    unfolding rgb_bytes_def by (rule concat_groups) (simp add: rgb_group_bytes rgb_bytes_def)
  moreover have "[0..<n] = [0..<n div 4 * 4] @ [n div 4 * 4..<n]"
    by (rule upt_split) simp
  ultimately show ?thesis by (simp add: rgb_bytes_def)
qed

lemma take_bytes [simp]:
  "take m (indexed_bytes src 0 n) = indexed_bytes src 0 (min m n)"
  "take m (rgb_bytes src 0 n) = rgb_bytes src 0 (min m n)"
proof -
  have "take m [0..<n] = [0..<min m n]" by (cases "m \<le> n") simp_all
  then show "take m (indexed_bytes src 0 n) = indexed_bytes src 0 (min m n)"
    "take m (rgb_bytes src 0 n) = rgb_bytes src 0 (min m n)"
    by (simp_all add: indexed_bytes_def rgb_bytes_def take_map)
qed

lemma no_bytes [simp]: "indexed_bytes src n n = []" "rgb_bytes src n n = []"
  by (simp_all add: indexed_bytes_def rgb_bytes_def)

text \<open>Both are \<^verbatim>\<open>write_img_data\<close> of the decoded pixels.\<close>

lemma write_rgb_decoded:
  "snd (write_img_rgb888 aligned off src h) = write_img_data off (rgb_bytes src 0 (length src div 3)) h"
proof (cases "off < img_len h \<and> length src div 3 \<noteq> 0")
  case True
  then show ?thesis
    by (simp add: write_img_rgb888_def write_img_data_def Let_def aligned_rgb min.commute)
qed (auto simp: write_img_rgb888_def write_img_data_def Let_def rgb_bytes_def)

lemma write_indexed_decoded:
  "snd (write_img_indexed aligned off src h) = write_img_data off (indexed_bytes src 0 (length src)) h"
proof (cases "off < img_len h \<and> length src \<noteq> 0")
  case True
  then show ?thesis
    by (simp add: write_img_indexed_def write_img_data_def Let_def aligned_indexed min.commute)
qed (auto simp: write_img_indexed_def write_img_data_def Let_def indexed_bytes_def)

section \<open>The display is a frame store\<close>

definition same_size :: "hub75 \<Rightarrow> bool" where
  "same_size h \<longleftrightarrow> length (fb_back h) = length (fb_front h)"

definition drawn :: "hub75 \<Rightarrow> nat \<Rightarrow> u32" where "drawn h i = fb_back h ! i"

definition shown :: "hub75 \<Rightarrow> nat \<Rightarrow> u32" where "shown h i = fb_front h ! i"

lemma img_len_le: "img_len h \<le> length (fb_back h)"
  by (simp add: img_len_def)

lemma length_write_img_data [simp]: "length (fb_back (write_img_data off d h)) = length (fb_back h)"
  by (simp add: write_img_data_def Let_def img_len_def)

lemma length_repair [simp]: "length (fb_back (repair_from_front off n h)) = length (fb_back h)"
proof (cases "off < min (img_len h) (length (fb_front h))")
  case True
  let ?d = "take (min (off + n) (min (img_len h) (length (fb_front h))) - off) (drop off (fb_front h))"
  have "off + length ?d \<le> length (fb_back h)" using True img_len_le [of h] by simp
  then show ?thesis by (simp add: repair_from_front_def Let_def)
qed (auto simp: repair_from_front_def Let_def)

lemma write_img_data_frame [simp]:
  "fb_front (write_img_data off d h) = fb_front h" "hlength (write_img_data off d h) = hlength h"
  "auto_swap (write_img_data off d h) = auto_swap h" "dma_on (write_img_data off d h) = dma_on h"
  "r_width (write_img_data off d h) = r_width h"
  by (simp_all add: write_img_data_def Let_def)

lemma repair_frame [simp]:
  "fb_front (repair_from_front off n h) = fb_front h" "hlength (repair_from_front off n h) = hlength h"
  "auto_swap (repair_from_front off n h) = auto_swap h" "dma_on (repair_from_front off n h) = dma_on h"
  "r_width (repair_from_front off n h) = r_width h"
  by (simp_all add: repair_from_front_def Let_def)

lemma swap_frame [simp]:
  "fb_front (swap_buffers h) = fb_back h" "fb_back (swap_buffers h) = fb_front h"
  "hlength (swap_buffers h) = hlength h" "auto_swap (swap_buffers h) = auto_swap h"
  "dma_on (swap_buffers h) = dma_on h" "r_width (swap_buffers h) = r_width h"
  by (simp_all add: swap_buffers_def swap_halves_def Let_def)

lemma img_len_write [simp]: "img_len (write_img_data off d h) = img_len h"
  and img_len_repair [simp]: "img_len (repair_from_front off n h) = img_len h"
  by (simp_all add: img_len_def)

lemma drawn_write:
  assumes "i < img_len h"
  shows "drawn (write_img_data off d h) i =
    (if off \<le> i \<and> i - off < length d then d ! (i - off) else drawn h i)"
proof (cases "off < img_len h")
  case True
  let ?d = "take (img_len h - off) d"
  have "off + length ?d \<le> length (fb_back h)" "i < length (fb_back h)"
    using True assms img_len_le [of h] by simp_all
  from nth_splice [OF this] show ?thesis
    using True assms by (auto simp: write_img_data_def drawn_def Let_def)
qed (use assms in \<open>simp add: write_img_data_def drawn_def Let_def\<close>)

lemma drawn_repair:
  assumes "same_size h" "i < img_len h"
  shows "drawn (repair_from_front off n h) i = (if off \<le> i \<and> i < off + n then shown h i else drawn h i)"
proof (cases "off < img_len h \<and> n \<noteq> 0")
  case True
  have lim: "min (img_len h) (length (fb_front h)) = img_len h"
    using assms(1) by (simp add: same_size_def img_len_def)
  let ?d = "take (min (off + n) (img_len h) - off) (drop off (fb_front h))"
  have len: "length ?d = min (off + n) (img_len h) - off"
    using assms(1) img_len_le [of h] by (simp add: same_size_def)
  have "off + length ?d \<le> length (fb_back h)" "i < length (fb_back h)"
    using True assms(2) img_len_le [of h] unfolding len by linarith+
  from nth_splice [OF this] show ?thesis
    using True assms len img_len_le [of h]
    by (auto simp: repair_from_front_def drawn_def shown_def Let_def lim same_size_def)
qed (use assms in \<open>auto simp: repair_from_front_def drawn_def shown_def Let_def\<close>)

interpretation hub: frame_store img_len same_size drawn shown write_img_data repair_from_front swap_buffers
proof
  fix h :: hub75 and off n i :: nat and ps :: "u32 list"
  assume ok: "same_size h"
  then show "same_size (write_img_data off ps h)" "same_size (repair_from_front off n h)"
    "same_size (swap_buffers h)" "img_len (write_img_data off ps h) = img_len h"
    "img_len (repair_from_front off n h) = img_len h" "img_len (swap_buffers h) = img_len h"
    by (simp_all add: same_size_def img_len_def)
  assume i: "i < img_len h"
  show "drawn (write_img_data off ps h) i = (if off \<le> i \<and> i - off < length ps then ps ! (i - off) else drawn h i)"
    by (rule drawn_write [OF i])
  show "drawn (repair_from_front off n h) i = (if off \<le> i \<and> i < off + n then shown h i else drawn h i)"
    by (rule drawn_repair [OF ok i])
  show "shown (write_img_data off ps h) i = shown h i" "shown (repair_from_front off n h) i = shown h i"
    "drawn (swap_buffers h) i = shown h i" "shown (swap_buffers h) i = drawn h i"
    by (simp_all add: shown_def drawn_def)
qed

end
