(* ===== verification/Bitmap_Frames.thy ===== *)
theory Bitmap_Frames
  imports Bitmap_Udp Hub75_Buffers
begin

text \<open>
  The receiver's promise: the arrival mask and the count of chunks agree, a frame is shown
  when all of its chunks have come, at most two lost chunks are patched from the frame on
  the glass, and a frame missing more is not shown. These hold while the CPU draws the
  pixels and owns the swap (pixel DMA and gateware swap off).
\<close>

unbundle bit_operations_syntax

section \<open>The mask\<close>

lemma mask_test_bit: "mask_test k rx \<longleftrightarrow> bit (chunk_mask rx ! (k div 64)) (k mod 64)"
  by (simp add: mask_test_def bit_iff_and_push_bit_not_eq_0)

lemma mask_test_set:
  assumes "length (chunk_mask rx) = MASK_WORDS" "j < MAX_CHUNKS"
  shows "mask_test k (mask_set j rx) \<longleftrightarrow> k = j \<or> mask_test k rx"
proof -
  have "j div 64 < 8" using assms(2) by (simp add: MAX_CHUNKS_def div_less_iff_less_mult)
  then have j: "j div 64 < length (chunk_mask rx)"
    using assms(1) by (simp add: MASK_WORDS_def MAX_CHUNKS_def)
  have "k = j \<longleftrightarrow> k div 64 = j div 64 \<and> k mod 64 = j mod 64"
    by (metis div_mult_mod_eq)
  moreover have "bit (push_bit (j mod 64) 1 :: u64) (k mod 64) \<longleftrightarrow> k mod 64 = j mod 64"
    by (auto simp: bit_simps)
  ultimately show ?thesis using j
    by (auto simp: mask_test_bit mask_set_def bit_or_iff nth_list_update)
qed

lemma mask_test_zero: "k < MAX_CHUNKS \<Longrightarrow> chunk_mask rx = replicate MASK_WORDS 0 \<Longrightarrow> \<not> mask_test k rx"
  by (simp add: mask_test_bit MASK_WORDS_def MAX_CHUNKS_def div_less_iff_less_mult)

definition arrived :: "receiver \<Rightarrow> nat set" where
  "arrived rx = {k. k < MAX_CHUNKS \<and> mask_test k rx}"

lemma arrived_cong: "chunk_mask rx = chunk_mask rx' \<Longrightarrow> arrived rx = arrived rx'"
  by (simp add: arrived_def mask_test_def)

lemma arrived_zero: "chunk_mask rx = replicate MASK_WORDS 0 \<Longrightarrow> arrived rx = {}"
  by (auto simp: arrived_def mask_test_zero)

lemma finite_arrived [simp]: "finite (arrived rx)"
  by (rule finite_subset [of _ "{..<MAX_CHUNKS}"]) (auto simp: arrived_def)

definition rx_inv :: "receiver \<Rightarrow> bool" where
  "rx_inv rx \<longleftrightarrow> length (chunk_mask rx) = MASK_WORDS \<and> total_chunks rx \<le> MAX_CHUNKS \<and>
     arrived rx \<subseteq> {..<total_chunks rx} \<and> unat (received rx) = card (arrived rx)"

lemma rx_inv_cong:
  "chunk_mask rx' = chunk_mask rx \<Longrightarrow> total_chunks rx' = total_chunks rx \<Longrightarrow> received rx' = received rx \<Longrightarrow>
     rx_inv rx' = rx_inv rx"
  using arrived_cong [of rx' rx] by (simp add: rx_inv_def)

definition idle :: "receiver \<Rightarrow> bool" where
  "idle rx \<longleftrightarrow> total_chunks rx = 0 \<and> chunk_mask rx = replicate MASK_WORDS 0 \<and> received rx = 0"

lemma idle_inv: "idle rx \<Longrightarrow> rx_inv rx"
  by (simp add: idle_def rx_inv_def arrived_zero)

section \<open>Presenting\<close>

lemma palette_frame [simp]:
  "fb_back (set_palette hw off d h) = fb_back h" "fb_front (set_palette hw off d h) = fb_front h"
  "hlength (set_palette hw off d h) = hlength h" "auto_swap (set_palette hw off d h) = auto_swap h"
  "dma_on (set_palette hw off d h) = dma_on h" "r_width (set_palette hw off d h) = r_width h"
  by (simp_all add: set_palette_def stash_def mark_bank_def write_bank_def set_palette_bank_def Let_def)

definition same_pixels :: "hub75 \<Rightarrow> hub75 \<Rightarrow> bool" where
  "same_pixels h h' \<longleftrightarrow> fb_back h' = fb_back h \<and> fb_front h' = fb_front h \<and> hlength h' = hlength h \<and>
     auto_swap h' = auto_swap h \<and> dma_on h' = dma_on h \<and> r_width h' = r_width h"

lemma pending_same: "apply_pending_palette hw rx h = (rx', h') \<Longrightarrow> same_pixels h h' \<and>
    (\<exists>v. rx' = rx\<lparr>pending_palette_valid := v\<rparr>)"
  by (auto simp: apply_pending_palette_def same_pixels_def intro: exI [of _ "pending_palette_valid rx"] split: if_splits)

lemma repair_clamp:
  "off < img_len h \<Longrightarrow> repair_from_front off (min c (img_len h - off)) h = repair_from_front off c h"
  by (auto simp: repair_from_front_def Let_def min_def)

lemma repair_outside: "img_len h \<le> off \<Longrightarrow> repair_from_front off c h = h"
  by (auto simp: repair_from_front_def Let_def)

definition missing :: "receiver \<Rightarrow> nat" where
  "missing rx = total_chunks rx - card (arrived rx)"

lemma stats_frame [simp]:
  "ppc (rx\<lparr>stats := s\<rparr>) = ppc rx" "mask_test k (rx\<lparr>stats := s\<rparr>) = mask_test k rx"
  "arrived (rx\<lparr>stats := s\<rparr>) = arrived rx" "missing (rx\<lparr>stats := s\<rparr>) = missing rx"
  by (simp_all add: ppc_def mask_test_def arrived_def missing_def)

lemma stats_fields:
  "total_chunks (rx\<lparr>stats := s\<rparr>) = total_chunks rx" "received (rx\<lparr>stats := s\<rparr>) = received rx"
  "with_stats f (rx\<lparr>stats := s\<rparr>) = rx\<lparr>stats := f s\<rparr>"
  by (simp_all add: with_stats_def)

lemma fold_repair:
  "\<exists>st. fold repair_chunk ks (rx, h) = (rx\<lparr>stats := st\<rparr>,
     fold (\<lambda>k. repair_from_front (k * ppc rx) (ppc rx)) (filter (\<lambda>k. \<not> mask_test k rx) ks) h)"
proof (induction ks arbitrary: rx h)
  case Nil
  show ?case by (intro exI [of _ "stats rx"]) simp
next
  case (Cons k ks)
  obtain st where r: "repair_chunk k (rx, h) = (rx\<lparr>stats := st\<rparr>,
      if mask_test k rx then h else repair_from_front (k * ppc rx) (ppc rx) h)"
  proof -
    have "repair_chunk k (rx, h) = (rx\<lparr>stats := if mask_test k rx \<or> img_len h \<le> k * ppc rx then stats rx
        else (stats rx)\<lparr>chunks_repaired := chunks_repaired (stats rx) + 1\<rparr>\<rparr>,
      if mask_test k rx then h else repair_from_front (k * ppc rx) (ppc rx) h)"
      by (simp add: repair_chunk_def Let_def with_stats_def repair_clamp repair_outside)
    then show ?thesis using that by blast
  qed
  have "ppc (rx\<lparr>stats := st\<rparr>) = ppc rx" "mask_test j (rx\<lparr>stats := st\<rparr>) = mask_test j rx" for j
    by (simp_all add: ppc_def mask_test_def)
  then show ?case using Cons.IH [of "rx\<lparr>stats := st\<rparr>" "if mask_test k rx then h
      else repair_from_front (k * ppc rx) (ppc rx) h"] by (auto simp: r)
qed

lemma update_timing_frame [simp]:
  "current_frame_id (update_timing t rx) = current_frame_id rx" "indexed (update_timing t rx) = indexed rx"
  "wide (update_timing t rx) = wide rx" "hold (update_timing t rx) = hold rx"
  "cpu_pixels (update_timing t rx) = cpu_pixels rx" "mode_indexed (update_timing t rx) = mode_indexed rx"
  by (simp_all add: update_timing_def with_stats_def Let_def)

lemma reset_frame_idle [simp]: "idle (reset_frame rx)"
  by (simp add: idle_def reset_frame_def mask_clear_def with_stats_def)

lemma reset_frame_frame [simp]:
  "current_frame_id (reset_frame rx) = current_frame_id rx" "indexed (reset_frame rx) = indexed rx"
  "wide (reset_frame rx) = wide rx" "hold (reset_frame rx) = hold rx"
  "cpu_pixels (reset_frame rx) = cpu_pixels rx" "mode_indexed (reset_frame rx) = mode_indexed rx"
  by (simp_all add: reset_frame_def mask_clear_def with_stats_def)

lemma ppc_pos: "0 < ppc rx"
  by (simp add: ppc_def PIXELS_PER_CHUNK_def PIXELS_PER_CHUNK_INDEXED_def PIXELS_PER_CHUNK_WIDE_def MAX_PAYLOAD_def)

text \<open>What stays the same in the receiver across a present.\<close>

definition same_setup :: "receiver \<Rightarrow> receiver \<Rightarrow> bool" where
  "same_setup rx rx' \<longleftrightarrow> current_frame_id rx' = current_frame_id rx \<and> indexed rx' = indexed rx \<and>
     wide rx' = wide rx \<and> hold rx' = hold rx \<and> cpu_pixels rx' = cpu_pixels rx"

definition cpu_owned :: "hub75 \<Rightarrow> bool" where
  "cpu_owned h \<longleftrightarrow> same_size h \<and> \<not> auto_swap h \<and> \<not> dma_on h"

lemma missing_word:
  assumes "rx_inv rx"
  shows "unat (sat_sub (of_nat (total_chunks rx) :: u16) (received rx)) = missing rx"
    "unat (of_nat (total_chunks rx) :: u16) = total_chunks rx"
  using assms by (simp_all add: unat_sat_sub unat_of_nat missing_def rx_inv_def MAX_CHUNKS_def)

lemma missing_zero: "rx_inv rx \<Longrightarrow> missing rx = 0 \<longleftrightarrow> arrived rx = {..<total_chunks rx}"
proof
  assume inv: "rx_inv rx" and "missing rx = 0"
  then have "card {..<total_chunks rx} \<le> card (arrived rx)" by (simp add: missing_def)
  with inv show "arrived rx = {..<total_chunks rx}"
    by (metis card_seteq finite_lessThan rx_inv_def)
qed (simp add: missing_def)

lemma present_drop:
  assumes "rx_inv rx" "0 < total_chunks rx" "2 < missing rx"
  shows "\<exists>rx'. present hw t rx h = Some (False, rx', h) \<and> idle rx' \<and> same_setup rx rx'"
proof -
  let ?m = "sat_sub (of_nat (total_chunks rx) :: u16) (received rx)"
  note m = missing_word [OF assms(1)]
  have "?m > 0" "?m > MAX_REPAIR_CHUNKS" "\<not> total_chunks rx > MAX_CHUNKS"
    using m assms by (simp_all add: word_less_nat_alt MAX_REPAIR_CHUNKS_def rx_inv_def)
  then show ?thesis using assms(2) m(2)
    by (simp add: present_def Let_def with_stats_def same_setup_def)
qed

text \<open>The tail of a present: palette, flip, timing, a fresh frame.\<close>

definition finish :: "hub_hw \<Rightarrow> int \<Rightarrow> receiver \<Rightarrow> hub75 \<Rightarrow> (bool \<times> receiver \<times> hub75) option" where
  "finish hw t rx h = (case apply_pending_palette hw rx h of (rx1, h1) \<Rightarrow>
     case flip hw rx1 h1 of (rx2, h2) \<Rightarrow> Some (True, reset_frame (update_timing t rx2), h2))"

definition repaired :: "receiver \<Rightarrow> hub75 \<Rightarrow> hub75" where
  "repaired rx h = fold (\<lambda>k. repair_from_front (k * ppc rx) (ppc rx))
     (filter (\<lambda>k. \<not> mask_test k rx) [0..<total_chunks rx]) h"

lemma repaired_all:
  assumes "rx_inv rx" "missing rx = 0"
  shows "repaired rx h = h"
proof -
  have "arrived rx = {..<total_chunks rx}" using assms missing_zero by blast
  then have "mask_test k rx" if "k < total_chunks rx" for k
    using that by (auto simp: arrived_def)
  then have "filter (\<lambda>k. \<not> mask_test k rx) [0..<total_chunks rx] = []"
    by (simp add: filter_empty_conv)
  then show ?thesis by (simp add: repaired_def)
qed

lemma present_core:
  assumes inv: "rx_inv rx" "0 < total_chunks rx" "missing rx \<le> 2" and own: "\<not> auto_swap h"
  shows "\<exists>st. present hw t rx h = finish hw t (rx\<lparr>stats := st\<rparr>) (repaired rx h)"
proof -
  let ?m = "sat_sub (of_nat (total_chunks rx) :: u16) (received rx)" and ?n = "total_chunks rx"
  note m = missing_word [OF inv(1)]
  have nn: "\<not> MAX_CHUNKS < ?n" using inv(1) by (simp add: rx_inv_def)
  have le: "\<not> MAX_REPAIR_CHUNKS < ?m" using m(1) inv(3) by (simp add: word_less_nat_alt MAX_REPAIR_CHUNKS_def)
  have "\<forall>s. \<exists>st. fold repair_chunk [0..<?n] (rx\<lparr>stats := s\<rparr>, h) = (rx\<lparr>stats := st\<rparr>, repaired rx h)"
  proof
    fix s
    show "\<exists>st. fold repair_chunk [0..<?n] (rx\<lparr>stats := s\<rparr>, h) = (rx\<lparr>stats := st\<rparr>, repaired rx h)"
      using fold_repair [of "[0..<?n]" "rx\<lparr>stats := s\<rparr>" h] by (simp add: repaired_def)
  qed
  then obtain g where g: "\<And>s. fold repair_chunk [0..<?n] (rx\<lparr>stats := s\<rparr>, h) = (rx\<lparr>stats := g s\<rparr>, repaired rx h)"
    by metis
  note eqs = present_def Let_def finish_def stats_fields m(2) le nn inv(2) [THEN less_not_refl2] own
    if_False if_True simp_thms case_prod_conv g
  have "\<exists>st. present hw t (rx\<lparr>stats := s\<rparr>) h = finish hw t (rx\<lparr>stats := st\<rparr>) (repaired rx h)" for s
  proof (cases "0 < ?m")
    case False
    then have "missing rx = 0" using m(1) by (simp add: word_less_nat_alt)
    then have r: "repaired rx h = h" by (rule repaired_all [OF inv(1)])
    show ?thesis by (simp only: False r eqs) (rule exI, rule refl)
  next
    case True
    show ?thesis by (simp only: True eqs) (rule exI, rule refl)
  qed
  from this [of "stats rx"] show ?thesis by simp
qed

lemma finish_swaps:
  assumes "\<not> auto_swap h"
  shows "\<exists>rx' h'. finish hw t rx h = Some (True, rx', h') \<and> idle rx' \<and> same_setup rx rx' \<and>
    same_pixels (swap_buffers h) h'"
proof -
  obtain rx1 h1 where p: "apply_pending_palette hw rx h = (rx1, h1)" by fastforce
  from pending_same [OF p] have s: "same_pixels h h1" and r: "same_setup rx rx1"
    by (auto simp: same_setup_def)
  then have "same_pixels (swap_buffers h) (swap_buffers h1)" by (simp add: same_pixels_def)
  then show ?thesis using assms s r by (simp add: finish_def p flip_def same_pixels_def same_setup_def)
qed

lemma repaired_frame [simp]:
  "auto_swap (repaired rx h) = auto_swap h" "dma_on (repaired rx h) = dma_on h"
  "hlength (repaired rx h) = hlength h" "r_width (repaired rx h) = r_width h"
proof -
  have "auto_swap (fold (\<lambda>k. repair_from_front (f k) n) ks h) = auto_swap h \<and>
      dma_on (fold (\<lambda>k. repair_from_front (f k) n) ks h) = dma_on h \<and>
      hlength (fold (\<lambda>k. repair_from_front (f k) n) ks h) = hlength h \<and>
      r_width (fold (\<lambda>k. repair_from_front (f k) n) ks h) = r_width h" for f :: "nat \<Rightarrow> nat" and n ks
    by (induction ks arbitrary: h) simp_all
  then show "auto_swap (repaired rx h) = auto_swap h" "dma_on (repaired rx h) = dma_on h"
    "hlength (repaired rx h) = hlength h" "r_width (repaired rx h) = r_width h"
    by (simp_all add: repaired_def)
qed

lemma present_show:
  assumes "rx_inv rx" "0 < total_chunks rx" "missing rx \<le> 2" "\<not> auto_swap h"
  shows "\<exists>rx' h'. present hw t rx h = Some (True, rx', h') \<and> idle rx' \<and> same_setup rx rx' \<and>
    same_pixels (swap_buffers (repaired rx h)) h'"
proof -
  obtain st where "present hw t rx h = finish hw t (rx\<lparr>stats := st\<rparr>) (repaired rx h)"
    using present_core [OF assms] by blast
  then show ?thesis
    using finish_swaps [of "repaired rx h" hw t "rx\<lparr>stats := st\<rparr>"] assms(4)
    by (auto simp: same_setup_def)
qed

end
