(* ===== verification/Bitmap_Stream.thy ===== *)
theory Bitmap_Stream
  imports Bitmap_Frames
begin

text \<open>
  Whole frames through \<^verbatim>\<open>process_packet\<close>: the packets a sender cuts a picture
  into, fed in any order and with repeats, put that picture on the glass with the packet
  that completes it, and not before.
\<close>

unbundle bit_operations_syntax

section \<open>The sender\<close>

datatype wire = Rgb | Idx | Wide

record frame =
  f_wire :: wire
  f_id :: u16
  f_w :: u16
  f_h :: u16
  f_bytes :: "u8 list"

definition wire_ppc :: "wire \<Rightarrow> nat" where
  "wire_ppc w = (case w of Rgb \<Rightarrow> PIXELS_PER_CHUNK | Idx \<Rightarrow> PIXELS_PER_CHUNK_INDEXED | Wide \<Rightarrow> PIXELS_PER_CHUNK_WIDE)"

definition wire_bpp :: "wire \<Rightarrow> nat" where
  "wire_bpp w = (case w of Idx \<Rightarrow> 1 | _ \<Rightarrow> 3)"

definition decode :: "bool \<Rightarrow> u8 list \<Rightarrow> u32 list" where
  "decode ix body = (if ix then indexed_bytes body 0 (length body) else rgb_bytes body 0 (length body div 3))"

definition f_size :: "frame \<Rightarrow> nat" where
  "f_size f = unat (f_w f) * unat (f_h f)"

definition f_total :: "frame \<Rightarrow> nat" where
  "f_total f = (f_size f + wire_ppc (f_wire f) - 1) div wire_ppc (f_wire f)"

definition picture :: "frame \<Rightarrow> u32 list" where
  "picture f = decode (f_wire f = Idx) (f_bytes f)"

definition chunk_body :: "frame \<Rightarrow> nat \<Rightarrow> u8 list" where
  "chunk_body f k = (let n = wire_ppc (f_wire f) * wire_bpp (f_wire f) in take n (drop (k * n) (f_bytes f)))"

definition le16 :: "u16 \<Rightarrow> u8 list" where
  "le16 x = [ucast x, ucast (drop_bit 8 x)]"

definition chunk_packet :: "frame \<Rightarrow> nat \<Rightarrow> u8 list" where
  "chunk_packet f k =
     (case f_wire f of
        Wide \<Rightarrow> [0x42, 0x57] @ le16 (f_id f) @ le16 (of_nat k) @ le16 (of_nat (f_total f))
                 @ le16 (f_w f) @ le16 (f_h f)
      | Rgb \<Rightarrow> [0x42, 0x4D] @ le16 (f_id f) @ [of_nat k, of_nat (f_total f)] @ le16 (f_w f) @ le16 (f_h f)
      | Idx \<Rightarrow> [0x42, 0x49] @ le16 (f_id f) @ [of_nat k, of_nat (f_total f)] @ le16 (f_w f) @ le16 (f_h f))
     @ chunk_body f k"

text \<open>The picture is of the size the display is set to, and its chunk count fits its header.\<close>

definition fits :: "frame \<Rightarrow> hub75 \<Rightarrow> bool" where
  "fits f h \<longleftrightarrow> 0 < f_size f \<and> img_len h = f_size f \<and> unat (hlength h) = f_size f \<and> r_width h = f_w f \<and>
     length (f_bytes f) = f_size f * wire_bpp (f_wire f) \<and>
     f_total f \<le> (case f_wire f of Wide \<Rightarrow> MAX_CHUNKS | _ \<Rightarrow> MAX_CHUNKS_NARROW)"

text \<open>What arrives at the receiver: each packet with the hardware it meets, its alignment and time.\<close>

fun feed :: "(hub_hw \<times> bool \<times> int \<times> u8 list) list \<Rightarrow> receiver \<Rightarrow> hub75 \<Rightarrow> (bool list \<times> receiver \<times> hub75) option" where
  "feed [] rx h = Some ([], rx, h)"
| "feed ((hw, al, t, d) # es) rx h =
     (case process_packet hw al d t rx h of
        None \<Rightarrow> None
      | Some (p, rx1, h1) \<Rightarrow> map_option (\<lambda>(ps, r). (p # ps, r)) (feed es rx1 h1))"

definition sent :: "frame \<Rightarrow> hub_hw \<times> bool \<times> int \<times> nat \<Rightarrow> hub_hw \<times> bool \<times> int \<times> u8 list" where
  "sent f = (\<lambda>(hw, al, t, k). (hw, al, t, chunk_packet f k))"

definition chunk_of :: "hub_hw \<times> bool \<times> int \<times> nat \<Rightarrow> nat" where
  "chunk_of = (\<lambda>(hw, al, t, k). k)"

section \<open>Chunks and pixels\<close>

lemma wire_pos: "0 < wire_ppc w" "0 < wire_bpp w"
  by (auto simp: wire_ppc_def wire_bpp_def PIXELS_PER_CHUNK_def PIXELS_PER_CHUNK_INDEXED_def
      PIXELS_PER_CHUNK_WIDE_def MAX_PAYLOAD_def split: wire.splits)

lemma length_decode: "length (decode ix body) = length body div (if ix then 1 else 3)"
  by (simp add: decode_def indexed_bytes_def rgb_bytes_def)

lemma nth_decode:
  "j < length (decode ix body) \<Longrightarrow> decode ix body ! j = (if ix then ucast (body ! j) else rgb_px body j)"
  by (cases ix) (simp_all add: decode_def indexed_bytes_def rgb_bytes_def)

lemma wire_bpp_eq: "wire_bpp w = (if w = Idx then 1 else 3)"
  by (cases w) (simp_all add: wire_bpp_def)

lemma length_picture: "fits f h \<Longrightarrow> length (picture f) = f_size f"
  by (simp add: picture_def length_decode wire_bpp_eq fits_def)

lemma length_body: "length (decode (f_wire f = Idx) (chunk_body f k)) \<le> wire_ppc (f_wire f)"
  by (auto simp: length_decode chunk_body_def Let_def wire_bpp_eq)

lemma decode_body:
  assumes fits: "fits f h" and j: "j < wire_ppc (f_wire f)" "k * wire_ppc (f_wire f) + j < img_len h"
  shows "j < length (decode (f_wire f = Idx) (chunk_body f k)) \<and>
    decode (f_wire f = Idx) (chunk_body f k) ! j = picture f ! (k * wire_ppc (f_wire f) + j)"
proof -
  let ?c = "wire_ppc (f_wire f)" and ?b = "wire_bpp (f_wire f)" and ?ix = "f_wire f = Idx"
  let ?i = "k * ?c + j" and ?body = "chunk_body f k"
  have len: "length (f_bytes f) = f_size f * ?b" and i: "?i < f_size f" using fits j by (simp_all add: fits_def)
  have lb: "length ?body = min (?c * ?b) ((f_size f - k * ?c) * ?b)"
    by (simp add: chunk_body_def Let_def len diff_mult_distrib mult.assoc)
  have "j + 1 \<le> ?c" "j + 1 \<le> f_size f - k * ?c" using i j(1) by linarith+
  then have "(j + 1) * ?b \<le> ?c * ?b" "(j + 1) * ?b \<le> (f_size f - k * ?c) * ?b"
    by (simp_all only: mult_le_mono1)
  then have jb: "j * ?b + ?b \<le> length ?body" unfolding lb by simp
  then have jl: "j < length (decode ?ix ?body)"
    by (auto simp: length_decode wire_bpp_eq split: if_splits)
  have il: "?i < length (picture f)" using length_picture [OF fits] i by simp
  have byte: "?body ! (j * ?b + r) = f_bytes f ! (?i * ?b + r)" if "r < ?b" for r
  proof -
    have e: "k * (?c * ?b) + (j * ?b + r) = ?i * ?b + r" by (simp add: algebra_simps)
    have l: "j * ?b + r < length ?body" using jb that by linarith
    then have "k * (?c * ?b) \<le> length (f_bytes f)" by (auto simp: chunk_body_def Let_def)
    from nth_drop [OF this, of "j * ?b + r"] l e show ?thesis by (simp add: chunk_body_def Let_def)
  qed
  have "decode ?ix ?body ! j = picture f ! ?i"
  proof (cases ?ix)
    case True
    then show ?thesis using byte [of 0] jl il by (simp add: picture_def nth_decode wire_bpp_eq)
  next
    case False
    then show ?thesis using byte [of 0] byte [of 1] byte [of 2] jl il
      by (simp add: picture_def nth_decode wire_bpp_eq rgb_px_def)
  qed
  then show ?thesis using jl by simp
qed

section \<open>Into the frame\<close>

lemma same_pixels_fields:
  assumes "same_pixels h h'"
  shows "img_len h' = img_len h" "drawn h' = drawn h" "shown h' = shown h" "fits f h' = fits f h"
    "cpu_owned h' = cpu_owned h" "fb_front h' = fb_front h" "get_img_param h' = get_img_param h"
    "fb_back h' = fb_back h" "dma_on h' = dma_on h" "auto_swap h' = auto_swap h"
  using assms by (auto simp: same_pixels_def img_len_def drawn_def shown_def fits_def cpu_owned_def
      same_size_def get_img_param_def fun_eq_iff)

text \<open>The receiver up to statistics, the wire format and the palette held back.\<close>

definition same_frame :: "receiver \<Rightarrow> receiver \<Rightarrow> bool" where
  "same_frame rx rx' \<longleftrightarrow> chunk_mask rx' = chunk_mask rx \<and> total_chunks rx' = total_chunks rx \<and>
     received rx' = received rx \<and> current_frame_id rx' = current_frame_id rx \<and> hold rx' = hold rx \<and>
     cpu_pixels rx' = cpu_pixels rx"

lemma same_frame_stats:
  "same_frame rx (with_stats f rx')  \<longleftrightarrow> same_frame rx rx'"
  "same_frame rx (rx'\<lparr>indexed := i, wide := w\<rparr>) \<longleftrightarrow> same_frame rx rx'"
  "same_frame rx (rx'\<lparr>mode_indexed := m\<rparr>) \<longleftrightarrow> same_frame rx rx'"
  "same_frame rx (rx'\<lparr>last_packet_ms := t\<rparr>) \<longleftrightarrow> same_frame rx rx'"
  "same_frame rx rx"
  by (auto simp: same_frame_def with_stats_def)

lemma same_frame_fields:
  assumes "same_frame rx rx'"
  shows "arrived rx' = arrived rx" "rx_inv rx' = rx_inv rx" "idle rx' = idle rx" "missing rx' = missing rx"
    "mask_test k rx' = mask_test k rx"
proof -
  show "arrived rx' = arrived rx" using assms by (intro arrived_cong) (simp add: same_frame_def)
  then show "rx_inv rx' = rx_inv rx" "idle rx' = idle rx" "missing rx' = missing rx" "mask_test k rx' = mask_test k rx"
    using assms by (simp_all add: same_frame_def rx_inv_def idle_def missing_def mask_test_def)
qed

lemma merge_off: "\<not> dma_on h \<Longrightarrow> merge_dma_arrival hw h t rx = rx"
  by (simp add: merge_dma_arrival_def dma_arrival_def dma_enabled_def)

lemma draw_chunk:
  "(if ix then write_img_indexed al off body h else write_img_rgb888 al off body h) = p \<Longrightarrow>
     snd p = write_img_data off (decode ix body) h"
  by (auto simp: decode_def write_indexed_decoded write_rgb_decoded)

text \<open>A repeated chunk changes nothing but the counters.\<close>

lemma mask_reached: "rx_inv rx \<Longrightarrow> k < total_chunks rx \<Longrightarrow> k div 64 < length (chunk_mask rx)"
  by (auto simp: rx_inv_def MASK_WORDS_def MAX_CHUNKS_def)

lemma place_repeat:
  "mask_test k rx \<Longrightarrow> k div 64 < length (chunk_mask rx) \<Longrightarrow> \<exists>rx'. place_chunk hw al k body t rx h = Some (False, rx', h) \<and> same_frame rx rx'"
  by (simp add: place_chunk_def same_frame_def with_stats_def)

text \<open>A new one is drawn and counted; the last missing one presents the frame.\<close>

lemma count_arrived:
  assumes inv: "rx_inv rx" and k: "k < total_chunks rx" "\<not> mask_test k rx"
    and rx': "chunk_mask rx' = chunk_mask (mask_set k rx)" "total_chunks rx' = total_chunks rx"
      "received rx' = received rx + 1"
  shows "arrived rx' = insert k (arrived rx)" "rx_inv rx'" "missing rx' = missing rx - 1" "0 < missing rx"
    "received rx' \<ge> of_nat (total_chunks rx') \<longleftrightarrow> missing rx' = 0"
proof -
  have len: "length (chunk_mask rx) = MASK_WORDS" and tot: "total_chunks rx \<le> MAX_CHUNKS"
    and sub: "arrived rx \<subseteq> {..<total_chunks rx}" and cnt: "unat (received rx) = card (arrived rx)"
    using inv by (auto simp: rx_inv_def)
  have kM: "k < MAX_CHUNKS" using k tot by linarith
  have "mask_test j rx' = mask_test j (mask_set k rx)" for j using rx'(1) by (simp add: mask_test_def)
  then show arr: "arrived rx' = insert k (arrived rx)"
    using mask_test_set [OF len kM] kM by (auto simp: arrived_def)
  have kn: "k \<notin> arrived rx" using k(2) by (simp add: arrived_def)
  have "arrived rx \<subset> {..<total_chunks rx}" using sub k kn by auto
  then have less: "card (arrived rx) < total_chunks rx"
    using psubset_card_mono [of "{..<total_chunks rx}"] by simp
  have "unat (received rx + 1) = card (arrived rx) + 1"
    using cnt less tot unat_u16_less [of "received rx"] by (subst unat_add_lem [THEN iffD1]) (simp_all add: MAX_CHUNKS_def)
  then have cnt': "unat (received rx') = card (arrived rx')" using kn rx'(3) by (simp add: arr)
  show inv': "rx_inv rx'"
    using len tot sub cnt' k(1) rx' by (auto simp: rx_inv_def arr mask_set_def)
  show "missing rx' = missing rx - 1" "0 < missing rx"
    using kn less rx'(2) by (simp_all add: missing_def arr)
  have "card (arrived rx') \<le> total_chunks rx'" using less kn rx'(2) by (simp add: arr)
  then show "received rx' \<ge> of_nat (total_chunks rx') \<longleftrightarrow> missing rx' = 0"
    using cnt' tot rx'(2) by (auto simp: word_le_nat_alt unat_of_nat missing_def MAX_CHUNKS_def)
qed

lemma place_new:
  assumes inv: "rx_inv rx" and k: "k < total_chunks rx" "\<not> mask_test k rx" and dma: "\<not> dma_on h"
  shows "\<exists>rx'. place_chunk hw al k body t rx h =
      (if missing rx' = 0 then present hw t rx' (write_img_data (k * ppc rx) (decode (indexed rx) body) h)
       else Some (False, rx', write_img_data (k * ppc rx) (decode (indexed rx) body) h)) \<and>
    arrived rx' = insert k (arrived rx) \<and> rx_inv rx' \<and> missing rx' = missing rx - 1 \<and>
    total_chunks rx' = total_chunks rx \<and> same_setup rx rx'"
proof -
  let ?rx = "with_stats (\<lambda>s. s\<lparr>chunks_received := received rx + 1\<rparr>)
    ((mask_set k rx)\<lparr>received := received rx + 1, cpu_saw_packet := True, last_packet_ms := t\<rparr>)"
  have f: "chunk_mask ?rx = chunk_mask (mask_set k rx)" "total_chunks ?rx = total_chunks rx" "received ?rx = received rx + 1"
    by (simp_all add: with_stats_def mask_set_def)
  note ca = count_arrived [OF inv k f]
  have "same_setup rx ?rx" by (simp add: same_setup_def with_stats_def mask_set_def)
  moreover have "place_chunk hw al k body t rx h =
      (if missing ?rx = 0 then present hw t ?rx (write_img_data (k * ppc rx) (decode (indexed rx) body) h)
       else Some (False, ?rx, write_img_data (k * ppc rx) (decode (indexed rx) body) h))"
    using k(2) dma ca(5) mask_reached [OF inv k(1)] draw_chunk [of "indexed rx" al "k * ppc rx" body h, OF refl]
    by (simp add: place_chunk_def Let_def dma_enabled_def merge_off)
  ultimately show ?thesis using ca f(2) by blast
qed

lemma apply_mode_frame:
  assumes "apply_mode ix rx h = (rx', h')"
  shows "same_frame rx rx'" "same_pixels h h'" "indexed rx' = indexed rx" "wide rx' = wide rx"
  using assms by (auto simp: apply_mode_def same_frame_def same_pixels_def set_mode_def split: if_splits)

text \<open>The header of a narrow and of a wide packet, as the receiver reads it.\<close>

lemma chunk_header:
  assumes "k < f_total f" and "f_total f \<le> (case f_wire f of Wide \<Rightarrow> MAX_CHUNKS | _ \<Rightarrow> MAX_CHUNKS_NARROW)"
  shows "let d = chunk_packet f k; w = (f_wire f = Wide) in
    d ! 0 = 0x42 \<and> d ! 1 = (case f_wire f of Rgb \<Rightarrow> 0x4D | Idx \<Rightarrow> 0x49 | Wide \<Rightarrow> 0x57) \<and>
    u16_le (d ! 2) (d ! 3) = f_id f \<and> HEADER_SIZE \<le> length d \<and> (w \<longrightarrow> HEADER_SIZE_WIDE \<le> length d) \<and>
    (if w then (unat (u16_le (d ! 4) (d ! 5)), unat (u16_le (d ! 6) (d ! 7)),
            u16_le (d ! 8) (d ! 9), u16_le (d ! 10) (d ! 11), HEADER_SIZE_WIDE)
     else (unat (d ! 4), unat (d ! 5), u16_le (d ! 6) (d ! 7), u16_le (d ! 8) (d ! 9), HEADER_SIZE))
      = (k, f_total f, f_w f, f_h f, if w then HEADER_SIZE_WIDE else HEADER_SIZE) \<and>
    drop (if w then HEADER_SIZE_WIDE else HEADER_SIZE) d = chunk_body f k"
proof (cases "f_wire f")
  case Wide
  then have "k < 65536" "f_total f < 65536" using assms by (simp_all add: MAX_CHUNKS_def)
  then show ?thesis using Wide
    by (simp add: chunk_packet_def le16_def u16_le_split unat_of_nat HEADER_SIZE_def HEADER_SIZE_WIDE_def Let_def)
next
  case Rgb
  then have "k < 256" "f_total f < 256" using assms by (simp_all add: MAX_CHUNKS_NARROW_def)
  then show ?thesis using Rgb
    by (simp add: chunk_packet_def le16_def u16_le_split unat_of_nat HEADER_SIZE_def HEADER_SIZE_WIDE_def Let_def)
next
  case Idx
  then have "k < 256" "f_total f < 256" using assms by (simp_all add: MAX_CHUNKS_NARROW_def)
  then show ?thesis using Idx
    by (simp add: chunk_packet_def le16_def u16_le_split unat_of_nat HEADER_SIZE_def HEADER_SIZE_WIDE_def Let_def)
qed

lemma total_le_chunks: "f_total f \<le> (case f_wire f of Wide \<Rightarrow> MAX_CHUNKS | _ \<Rightarrow> MAX_CHUNKS_NARROW) \<Longrightarrow> f_total f \<le> MAX_CHUNKS"
  by (auto simp: MAX_CHUNKS_def MAX_CHUNKS_NARROW_def split: wire.splits)

lemma bitmap_packet_chunk:
  assumes fits: "fits f h" and k: "k < f_total f"
    and fmt: "wide rx \<longleftrightarrow> f_wire f = Wide" "ppc rx = wire_ppc (f_wire f)"
  shows "\<exists>rx'. bitmap_packet hw al (chunk_packet f k) t rx h =
      frame_chunk hw al (f_id f) k (f_total f) (f_w f) (f_h f) (chunk_body f k) t rx' h \<and>
    same_frame rx rx' \<and> ppc rx' = ppc rx \<and> indexed rx' = indexed rx"
proof -
  have tot: "f_total f \<le> (case f_wire f of Wide \<Rightarrow> MAX_CHUNKS | _ \<Rightarrow> MAX_CHUNKS_NARROW)"
    and sz: "0 < f_size f" "img_len h = f_size f" using fits by (simp_all add: fits_def)
  note hd = chunk_header [OF k tot, unfolded Let_def]
  let ?rx1 = "with_stats (\<lambda>s. s\<lparr>last_frame_id := f_id f, last_chunk_index := of_nat k,
              last_total_chunks := of_nat (f_total f), last_width := f_w f, last_height := f_h f\<rparr>) rx"
  let ?rx2 = "with_stats (\<lambda>s. s\<lparr>packets_valid := packets_valid s + 1\<rparr>) ?rx1"
  have p: "ppc ?rx1 = ppc rx" "ppc ?rx2 = ppc rx" by (simp_all add: with_stats_def)
  have len: "\<not> (wide rx \<and> length (chunk_packet f k) < HEADER_SIZE_WIDE)" using hd fmt(1) by auto
  have bounds: "\<not> MAX_CHUNKS < f_total f" "\<not> (f_total f = 0 \<or> f_total f \<le> k)"
    "\<not> (f_w f \<noteq> 0 \<and> f_h f \<noteq> 0 \<and> unat (f_w f) * unat (f_h f) \<noteq> f_size f)"
    using total_le_chunks [OF tot] k sz by (auto simp: f_size_def)
  have room: "\<not> (f_size f = 0 \<or> (f_size f + ppc rx - 1) div ppc rx < f_total f)"
    using sz(1) by (simp add: f_total_def fmt(2))
  have "bitmap_packet hw al (chunk_packet f k) t rx h =
      frame_chunk hw al (f_id f) k (f_total f) (f_w f) (f_h f) (chunk_body f k) t ?rx2 h"
  proof -
    have eq: "(if wide rx
          then (unat (u16_le (chunk_packet f k ! 4) (chunk_packet f k ! 5)), unat (u16_le (chunk_packet f k ! 6) (chunk_packet f k ! 7)),
                u16_le (chunk_packet f k ! 8) (chunk_packet f k ! 9), u16_le (chunk_packet f k ! 10) (chunk_packet f k ! 11), HEADER_SIZE_WIDE)
          else (unat (chunk_packet f k ! 4), unat (chunk_packet f k ! 5), u16_le (chunk_packet f k ! 6) (chunk_packet f k ! 7),
                u16_le (chunk_packet f k ! 8) (chunk_packet f k ! 9), HEADER_SIZE))
      = (k, f_total f, f_w f, f_h f, if f_wire f = Wide then HEADER_SIZE_WIDE else HEADER_SIZE)"
      using hd fmt(1) by (simp only: simp_thms)
    have fid: "u16_le (chunk_packet f k ! 2) (chunk_packet f k ! 3) = f_id f"
      and body: "drop (if f_wire f = Wide then HEADER_SIZE_WIDE else HEADER_SIZE) (chunk_packet f k) = chunk_body f k"
      using hd by blast+
    have reach: "3 < length (chunk_packet f k)" "(if wide rx then 11 else 9) < length (chunk_packet f k)"
      "(if f_wire f = Wide then HEADER_SIZE_WIDE else HEADER_SIZE) \<le> length (chunk_packet f k)"
      using hd fmt(1) by (auto simp: HEADER_SIZE_def HEADER_SIZE_WIDE_def)
    show ?thesis
      unfolding bitmap_packet_def in_bounds_ok [OF reach(1)] in_bounds_ok [OF reach(2)] eq fid Let_def
      by (simp only: len bounds room p(1) sz(2) case_prod_conv if_False body in_slice_ok [OF reach(3)])
  qed
  then show ?thesis using p(2) by (intro exI [of _ ?rx2]) (simp add: same_frame_def with_stats_def)
qed

lemma process_chunk:
  assumes fits: "fits f h" and k: "k < f_total f" and rx: "\<not> hold rx" "cpu_pixels rx"
  shows "\<exists>rx' h'. process_packet hw al (chunk_packet f k) t rx h =
      frame_chunk hw al (f_id f) k (f_total f) (f_w f) (f_h f) (chunk_body f k) t rx' h' \<and>
    same_frame rx rx' \<and> same_pixels h h' \<and> ppc rx' = wire_ppc (f_wire f) \<and> indexed rx' = (f_wire f = Idx)"
proof -
  let ?d = "chunk_packet f k"
  let ?rx0 = "with_stats (\<lambda>s. s\<lparr>packets_total := packets_total s + 1, last_data_len := of_nat (length ?d)\<rparr>) rx"
  have tot: "f_total f \<le> (case f_wire f of Wide \<Rightarrow> MAX_CHUNKS | _ \<Rightarrow> MAX_CHUNKS_NARROW)"
    using fits by (simp add: fits_def)
  note hd = chunk_header [OF k tot, unfolded Let_def]
  obtain rx1 h1 where m: "apply_mode (?d ! 1 = 0x49) (?rx0\<lparr>indexed := (?d ! 1 = 0x49), wide := (?d ! 1 = 0x57)\<rparr>) h = (rx1, h1)"
    by fastforce
  note am = apply_mode_frame [OF m]
  have magic: "?d ! 1 = (case f_wire f of Rgb \<Rightarrow> 0x4D | Idx \<Rightarrow> 0x49 | Wide \<Rightarrow> 0x57)" using hd by blast
  then have fmt: "indexed rx1 = (f_wire f = Idx)" "wide rx1 = (f_wire f = Wide)" "ppc rx1 = wire_ppc (f_wire f)"
    using am(3,4) by (auto simp: ppc_def wire_ppc_def split: wire.splits)
  have sf: "same_frame rx rx1" using am(1) by (simp add: same_frame_def with_stats_def)
  have r: "hold ?rx0 = hold rx" "cpu_pixels ?rx0 = cpu_pixels rx" by (simp_all add: with_stats_def)
  have "process_packet hw al ?d t rx h = bitmap_packet hw al ?d t rx1 h1"
  proof -
    have "?d ! 0 = 0x42" "\<not> length ?d < HEADER_SIZE" using hd by simp_all
    moreover have "\<not> (?d ! 0 = 0x42 \<and> ?d ! 1 = 0x50)" "?d ! 1 = 0x4D \<or> ?d ! 1 = 0x49 \<or> ?d ! 1 = 0x57"
      using magic by (auto split: wire.splits)
    moreover have "1 < length ?d" using hd by (auto simp: HEADER_SIZE_def)
    ultimately show ?thesis
      unfolding process_packet_def Let_def
      by (simp only: r rx if_False if_True simp_thms m case_prod_conv in_bounds_ok)
  qed
  moreover have fits1: "fits f h1" using fits am(2) by (simp add: same_pixels_fields(4))
  moreover obtain rx' where "bitmap_packet hw al ?d t rx1 h1 =
      frame_chunk hw al (f_id f) k (f_total f) (f_w f) (f_h f) (chunk_body f k) t rx' h1"
    "same_frame rx1 rx'" "ppc rx' = ppc rx1" "indexed rx' = indexed rx1"
    using bitmap_packet_chunk [OF fits1 k fmt(2,3)] by blast
  moreover have "same_frame rx rx'" using calculation(4) sf by (simp add: same_frame_def)
  ultimately show ?thesis using fmt(1,3) am(2) by (intro exI [of _ rx'] exI [of _ h1]) simp
qed

section \<open>A frame in progress\<close>

text \<open>
  The chunks \<open>K\<close> of frame \<open>f\<close> have come and are drawn, and the glass shows \<open>g\<close>; a receiver
  between frames; and what a complete frame leaves.
\<close>

definition collecting :: "frame \<Rightarrow> u32 list \<Rightarrow> nat set \<Rightarrow> receiver \<Rightarrow> hub75 \<Rightarrow> bool" where
  "collecting f g K rx h \<longleftrightarrow> rx_inv rx \<and> arrived rx = K \<and> \<not> hold rx \<and> cpu_pixels rx \<and>
     current_frame_id rx = f_id f \<and> total_chunks rx = f_total f \<and> cpu_owned h \<and> fits f h \<and> fb_front h = g \<and>
     (\<forall>i < img_len h. i div wire_ppc (f_wire f) \<in> K \<longrightarrow> drawn h i = picture f ! i)"

definition ready :: "frame \<Rightarrow> receiver \<Rightarrow> hub75 \<Rightarrow> bool" where
  "ready f rx h \<longleftrightarrow> idle rx \<and> \<not> hold rx \<and> cpu_pixels rx \<and> cpu_owned h \<and> fits f h"

definition finished :: "frame \<Rightarrow> u32 list \<Rightarrow> receiver \<Rightarrow> hub75 \<Rightarrow> bool" where
  "finished f g rx h \<longleftrightarrow> ready f rx h \<and> fb_back h = g \<and> (\<forall>i < img_len h. shown h i = picture f ! i)"

definition outcome :: "frame \<Rightarrow> u32 list \<Rightarrow> nat set \<Rightarrow> (bool \<times> receiver \<times> hub75) option \<Rightarrow> bool" where
  "outcome f g K r \<longleftrightarrow> (\<exists>rx' h'.
     if K = {..<f_total f} then r = Some (True, rx', h') \<and> finished f g rx' h'
     else r = Some (False, rx', h') \<and> collecting f g K rx' h')"

lemma collecting_cong:
  "same_frame rx rx' \<Longrightarrow> same_pixels h h' \<Longrightarrow> collecting f g K rx' h' = collecting f g K rx h"
  by (simp add: collecting_def same_frame_fields same_pixels_fields) (auto simp: same_frame_def)

lemma ready_cong: "same_frame rx rx' \<Longrightarrow> same_pixels h h' \<Longrightarrow> ready f rx' h' = ready f rx h"
  by (simp add: ready_def same_frame_fields same_pixels_fields) (auto simp: same_frame_def)

lemma fits_total_pos: "fits f h \<Longrightarrow> 0 < f_total f"
  using wire_pos(1) [of "f_wire f"] by (auto simp: fits_def f_total_def div_greater_zero_iff)

lemma chunk_in_total:
  assumes "fits f h" "i < img_len h"
  shows "i div wire_ppc (f_wire f) < f_total f"
proof -
  let ?c = "wire_ppc (f_wire f)"
  have "f_size f \<le> f_total f * ?c"
    using wire_pos(1) [of "f_wire f"] dividend_less_times_div [of ?c "f_size f + ?c - 1"]
    by (simp add: f_total_def mult.commute)
  then show ?thesis using assms wire_pos(1) by (simp add: div_less_iff_less_mult fits_def)
qed

lemma cpu_owned_write [simp]: "cpu_owned (write_img_data off d h) = cpu_owned h"
  by (simp add: cpu_owned_def same_size_def)

lemma fits_write [simp]: "fits f (write_img_data off d h) = fits f h"
  by (simp add: fits_def)

lemma swap_same [simp]:
  "cpu_owned (swap_buffers h) = cpu_owned h"
  "cpu_owned h \<Longrightarrow> img_len (swap_buffers h) = img_len h" "cpu_owned h \<Longrightarrow> fits f (swap_buffers h) = fits f h"
  by (auto simp: cpu_owned_def same_size_def img_len_def fits_def)

lemma drawn_chunk:
  assumes "collecting f g K rx h" "i < img_len h" "i div wire_ppc (f_wire f) \<in> insert k K"
  shows "drawn (write_img_data (k * wire_ppc (f_wire f)) (decode (f_wire f = Idx) (chunk_body f k)) h) i = picture f ! i"
  using assms decode_body [of f h]
  by (intro hub.put_chunk [where K = K]) (auto simp: collecting_def cpu_owned_def wire_pos length_body)

lemma present_frame:
  assumes coll: "collecting f g {..<f_total f} rx h"
  shows "\<exists>rx' h'. present hw t rx h = Some (True, rx', h') \<and> finished f g rx' h'"
proof -
  have c: "rx_inv rx" "cpu_owned h" "fits f h" "total_chunks rx = f_total f" and m: "missing rx = 0"
    using coll by (auto simp: collecting_def missing_def)
  obtain rx' h' where p: "present hw t rx h = Some (True, rx', h')" "idle rx'" "same_setup rx rx'"
      "same_pixels (swap_buffers h) h'"
    using present_show [of rx h hw t] c m fits_total_pos [OF c(3)] by (auto simp: repaired_all cpu_owned_def)
  have "finished f g rx' h'"
    using coll p(2,3) c(2,3) chunk_in_total [OF c(3)]
    by (auto simp: finished_def ready_def collecting_def same_setup_def same_pixels_fields [OF p(4)] drawn_def shown_def)
  then show ?thesis using p(1) by blast
qed

lemma placed:
  assumes coll: "collecting f g K rx h" and K: "K \<noteq> {..<f_total f}" and k: "k < f_total f"
    and fmt: "ppc rx = wire_ppc (f_wire f)" "indexed rx = (f_wire f = Idx)"
  shows "outcome f g (insert k K) (place_chunk hw al k (chunk_body f k) t rx h)"
proof (cases "mask_test k rx")
  case True
  have "k < MAX_CHUNKS" using coll k by (auto simp: collecting_def rx_inv_def)
  then have "insert k K = K" using coll True by (auto simp: collecting_def arrived_def)
  moreover have reach: "k div 64 < length (chunk_mask rx)" using mask_reached [of rx k] coll k by (simp add: collecting_def)
  moreover obtain rx' where "place_chunk hw al k (chunk_body f k) t rx h = Some (False, rx', h)" "same_frame rx rx'"
    using place_repeat [OF True reach] by blast
  moreover have "same_pixels h h" by (simp add: same_pixels_def)
  ultimately show ?thesis using coll K collecting_cong [of rx _ h h f g K] by (auto simp: outcome_def)
next
  case False
  have c: "rx_inv rx" "k < total_chunks rx" "\<not> dma_on h" "arrived rx = K" "total_chunks rx = f_total f"
    using coll k by (auto simp: collecting_def cpu_owned_def)
  let ?h = "write_img_data (k * wire_ppc (f_wire f)) (decode (f_wire f = Idx) (chunk_body f k)) h"
  obtain rx' where p: "place_chunk hw al k (chunk_body f k) t rx h =
      (if missing rx' = 0 then present hw t rx' ?h else Some (False, rx', ?h))"
    and rx': "arrived rx' = insert k K" "rx_inv rx'" "total_chunks rx' = total_chunks rx" "same_setup rx rx'"
    using place_new [OF c(1,2) False c(3), of hw al "chunk_body f k" t] unfolding c(4) fmt by blast
  have coll': "collecting f g (insert k K) rx' ?h"
    using coll rx' drawn_chunk [OF coll] by (simp add: collecting_def same_setup_def)
  have "missing rx' = 0 \<longleftrightarrow> insert k K = {..<f_total f}"
    using missing_zero [OF rx'(2)] rx'(1,3) c(5) by simp
  then show ?thesis using p coll' present_frame [of f g rx' ?h] by (auto simp: outcome_def)
qed

text \<open>A packet of another frame first settles the frame in progress.\<close>

lemma frame_chunk_next:
  assumes fits: "fits f h" and other: "f_id f \<noteq> current_frame_id rx \<or> f_total f \<noteq> total_chunks rx"
  shows "frame_chunk hw al (f_id f) k (f_total f) (f_w f) (f_h f) body t rx h =
    (case present hw t rx h of None \<Rightarrow> None
     | Some (p, rx1, h1) \<Rightarrow> map_option (\<lambda>(q, r, h'). (q \<or> p, r, h'))
        (place_chunk hw al k body t (rx1\<lparr>current_frame_id := f_id f, total_chunks := f_total f\<rparr>) h1))"
proof -
  have "unat (f_w f) * unat (f_h f) < 2 ^ 32"
    using fits unat_u32_less [of "hlength h"] by (simp add: fits_def f_size_def)
  moreover have "unat (ucast w :: u32) = unat w" for w :: u16
    using unat_u16_less [of w] by (simp add: unsigned_ucast_eq take_bit_nat_eq_self)
  ultimately have "unat (ucast (f_w f) * ucast (f_h f) :: u32) = f_size f"
    by (simp add: f_size_def unat_word_ariths)
  then have "(ucast (f_w f) * ucast (f_h f) :: u32) = hlength h"
    using fits by (intro word_unat_eq_iff [THEN iffD2]) (simp add: fits_def)
  then show ?thesis
    using fits other by (auto simp: frame_chunk_def Let_def get_img_param_def fits_def split: option.splits)
qed

lemma ppc_frame: "ppc (rx\<lparr>current_frame_id := i, total_chunks := n\<rparr>) = ppc rx"
  by (simp add: ppc_def)

definition in_progress :: "frame \<Rightarrow> u32 list \<Rightarrow> nat set \<Rightarrow> receiver \<Rightarrow> hub75 \<Rightarrow> bool" where
  "in_progress f g K rx h \<longleftrightarrow> (if K = {} then ready f rx h \<and> fb_front h = g else collecting f g K rx h)"

lemma first_collecting:
  "ready f rx h \<Longrightarrow> collecting f (fb_front h) {} (rx\<lparr>current_frame_id := f_id f, total_chunks := f_total f\<rparr>) h"
  using total_le_chunks [of f]
  by (auto simp: ready_def collecting_def rx_inv_def idle_def fits_def arrived_zero)

lemma process_step:
  assumes p: "in_progress f g K rx h" and K: "K \<noteq> {..<f_total f}" and k: "k < f_total f"
  shows "outcome f g (insert k K) (process_packet hw al (chunk_packet f k) t rx h)"
proof -
  have h: "fits f h" "\<not> hold rx" "cpu_pixels rx"
    using p by (auto simp: in_progress_def ready_def collecting_def split: if_splits)
  obtain rx1 h1 where pr: "process_packet hw al (chunk_packet f k) t rx h =
      frame_chunk hw al (f_id f) k (f_total f) (f_w f) (f_h f) (chunk_body f k) t rx1 h1"
    and sf: "same_frame rx rx1" and sp: "same_pixels h h1"
    and fmt: "ppc rx1 = wire_ppc (f_wire f)" "indexed rx1 = (f_wire f = Idx)"
    using process_chunk [OF h(1) k h(2,3)] by blast
  show ?thesis
  proof (cases "K = {}")
    case False
    then have coll: "collecting f g K rx1 h1"
      using p collecting_cong [OF sf sp] by (simp add: in_progress_def)
    then have "process_packet hw al (chunk_packet f k) t rx h = place_chunk hw al k (chunk_body f k) t rx1 h1"
      unfolding pr by (simp add: frame_chunk_def collecting_def)
    then show ?thesis using placed [OF coll K k fmt] by simp
  next
    case True
    let ?rx = "rx1\<lparr>current_frame_id := f_id f, total_chunks := f_total f\<rparr>"
    have r: "ready f rx1 h1" and g: "fb_front h1 = g"
      using p True ready_cong [OF sf sp] same_pixels_fields(6) [OF sp] by (simp_all add: in_progress_def)
    have tot: "total_chunks rx1 = 0" and fits: "fits f h1" using r by (simp_all add: ready_def idle_def)
    have "present hw t rx1 h1 = Some (False, rx1, h1)" using tot by (simp add: present_def)
    then have "process_packet hw al (chunk_packet f k) t rx h = place_chunk hw al k (chunk_body f k) t ?rx h1"
      unfolding pr using frame_chunk_next [OF fits, of rx1] fits_total_pos [OF fits] tot by (simp add: option.map_id0)
    moreover have "ppc ?rx = wire_ppc (f_wire f)" "indexed ?rx = (f_wire f = Idx)"
      using fmt by (simp_all add: ppc_frame)
    ultimately show ?thesis
      using placed [OF first_collecting [OF r] K [unfolded True] k] True g by simp
  qed
qed

lemma feed_append:
  "feed (es @ es') rx h = (case feed es rx h of None \<Rightarrow> None
     | Some (ps, rx1, h1) \<Rightarrow> map_option (\<lambda>(qs, r). (ps @ qs, r)) (feed es' rx1 h1))"
proof (induction es rx h rule: feed.induct)
  case (2 hw al t d es rx h)
  then show ?case
    by (auto simp: option.map_comp comp_def split_beta split: option.splits)
qed (auto simp: option.map_id0 split: option.splits)

lemma feed_chunks:
  assumes "in_progress f g K rx h" "K \<union> chunk_of ` set evs \<noteq> {..<f_total f}" "K \<subseteq> {..<f_total f}"
    "chunk_of ` set evs \<subseteq> {..<f_total f}"
  shows "\<exists>rx' h'. feed (map (sent f) evs) rx h = Some (replicate (length evs) False, rx', h') \<and>
    in_progress f g (K \<union> chunk_of ` set evs) rx' h'"
  using assms
proof (induction evs arbitrary: K rx h)
  case (Cons e evs)
  obtain hw al t k where e: "e = (hw, al, t, k)" by (cases e)
  have k: "k < f_total f" using Cons.prems(4) by (simp add: e chunk_of_def)
  have ne: "K \<noteq> {..<f_total f}" "insert k K \<noteq> {..<f_total f}"
    using Cons.prems(2-4) by (auto simp: e chunk_of_def)
  obtain rx1 h1 where s: "process_packet hw al (chunk_packet f k) t rx h = Some (False, rx1, h1)"
    and c: "in_progress f g (insert k K) rx1 h1"
    using process_step [OF Cons.prems(1) ne(1) k, of hw al t] ne(2) by (auto simp: outcome_def in_progress_def)
  have u: "insert k K \<union> chunk_of ` set evs = K \<union> chunk_of ` set (e # evs)" by (auto simp: e chunk_of_def)
  obtain rx' h' where "feed (map (sent f) evs) rx1 h1 = Some (replicate (length evs) False, rx', h')"
    "in_progress f g (K \<union> chunk_of ` set (e # evs)) rx' h'"
    using Cons.IH [OF c] Cons.prems(2-4) k unfolding u by auto
  then show ?case by (simp add: e sent_def s)
qed simp

section \<open>Frames with chunks missing\<close>

lemma shown_repaired:
  assumes coll: "collecting f g K rx h" and c: "ppc rx = wire_ppc (f_wire f)" and i: "i < img_len h"
  shows "shown (swap_buffers (repaired rx h)) i = (if i div wire_ppc (f_wire f) \<in> K then picture f ! i else g ! i)"
proof -
  let ?c = "wire_ppc (f_wire f)" and ?ks = "filter (\<lambda>k. \<not> mask_test k rx) [0..<total_chunks rx]"
  have "total_chunks rx \<le> MAX_CHUNKS" "fits f h" "total_chunks rx = f_total f"
    using coll by (auto simp: collecting_def rx_inv_def)
  moreover have "i div ?c < f_total f" using chunk_in_total [OF _ i] calculation(2) by blast
  ultimately have mem: "i div ?c \<in> set ?ks \<longleftrightarrow> i div ?c \<notin> K"
    using coll by (auto simp: collecting_def arrived_def)
  have "shown (swap_buffers (repaired rx h)) i = (if i div ?c \<in> set ?ks then shown h i else picture f ! i)"
    unfolding repaired_def c
    using coll i mem wire_pos(1) by (intro hub.shown_frame) (auto simp: collecting_def cpu_owned_def)
  then show ?thesis using mem coll by (auto simp: collecting_def shown_def)
qed

lemma cpu_owned_repaired [simp]: "cpu_owned (repaired rx h) = cpu_owned h"
  and fits_repaired [simp]: "fits f (repaired rx h) = fits f h"
proof -
  have "length (fb_back (fold (\<lambda>k. repair_from_front (k * c) c) ks h)) = length (fb_back h) \<and>
     length (fb_front (fold (\<lambda>k. repair_from_front (k * c) c) ks h)) = length (fb_front h)" for c ks
    by (induction ks arbitrary: h) simp_all
  then have l: "length (fb_back (repaired rx h)) = length (fb_back h)" "length (fb_front (repaired rx h)) = length (fb_front h)"
    by (simp_all add: repaired_def)
  then show "cpu_owned (repaired rx h) = cpu_owned h" "fits f (repaired rx h) = fits f h"
    by (simp_all add: cpu_owned_def same_size_def fits_def img_len_def)
qed

text \<open>What the glass shows once the next frame begins.\<close>

definition settled :: "frame \<Rightarrow> u32 list \<Rightarrow> nat set \<Rightarrow> nat \<Rightarrow> u32" where
  "settled f g K i =
     (if f_total f - card K \<le> 2 \<and> i div wire_ppc (f_wire f) \<in> K then picture f ! i else g ! i)"

lemma present_settles:
  assumes coll: "collecting f g K rx h" and c: "ppc rx = wire_ppc (f_wire f)"
  shows "\<exists>rx' h'. present hw t rx h = Some (f_total f - card K \<le> 2, rx', h') \<and> idle rx' \<and> same_setup rx rx' \<and>
    cpu_owned h' \<and> fits f h' \<and> (\<forall>i < img_len h. shown h' i = settled f g K i)"
proof -
  have h: "rx_inv rx" "0 < total_chunks rx" "cpu_owned h" "fits f h" "missing rx = f_total f - card K"
    using coll fits_total_pos [of f h] by (auto simp: collecting_def missing_def)
  show ?thesis
  proof (cases "missing rx \<le> 2")
    case True
    obtain rx' h' where p: "present hw t rx h = Some (True, rx', h')" "idle rx'" "same_setup rx rx'"
        and s: "same_pixels (swap_buffers (repaired rx h)) h'"
      using present_show [OF h(1,2) True, of h hw t] h(3) by (auto simp: cpu_owned_def)
    have "cpu_owned h'" "fits f h'" using h(3,4) by (simp_all add: same_pixels_fields [OF s])
    moreover have "\<forall>i < img_len h. shown h' i = settled f g K i"
      using True h(5) shown_repaired [OF coll c] by (simp add: same_pixels_fields [OF s] settled_def)
    ultimately show ?thesis using p True h(5) by auto
  next
    case False
    then obtain rx' where "present hw t rx h = Some (False, rx', h)" "idle rx'" "same_setup rx rx'"
      using present_drop [OF h(1,2), of hw t h] by auto
    then show ?thesis using False h coll by (auto simp: settled_def shown_def collecting_def)
  qed
qed

lemma same_setup_ppc: "same_setup rx rx' \<Longrightarrow> ppc rx' = ppc rx"
  by (simp add: same_setup_def ppc_def)

lemma next_frame:
  assumes coll: "collecting f g K rx h" and next_f: "fits f' h" "f_wire f' = f_wire f" "f_id f' \<noteq> f_id f"
    and k: "k < f_total f'" "1 < f_total f'"
  shows "\<exists>rx' h'. process_packet hw al (chunk_packet f' k) t rx h = Some (f_total f - card K \<le> 2, rx', h') \<and>
    collecting f' (fb_front h') {k} rx' h' \<and> (\<forall>i < img_len h. shown h' i = settled f g K i)"
proof -
  have rx: "\<not> hold rx" "cpu_pixels rx" using coll by (simp_all add: collecting_def)
  obtain rx1 h1 where pr: "process_packet hw al (chunk_packet f' k) t rx h =
      frame_chunk hw al (f_id f') k (f_total f') (f_w f') (f_h f') (chunk_body f' k) t rx1 h1"
    and sf: "same_frame rx rx1" and sp: "same_pixels h h1"
    and fmt: "ppc rx1 = wire_ppc (f_wire f')" "indexed rx1 = (f_wire f' = Idx)"
    using process_chunk [OF next_f(1) k(1) rx] by blast
  have coll1: "collecting f g K rx1 h1" using coll collecting_cong [OF sf sp] by simp
  have fits1: "fits f' h1" using next_f(1) by (simp add: same_pixels_fields [OF sp])
  obtain rx2 h2 where p: "present hw t rx1 h1 = Some (f_total f - card K \<le> 2, rx2, h2)" "idle rx2" "same_setup rx1 rx2"
    and h2: "cpu_owned h2" "fits f h2" and s: "\<forall>i < img_len h. shown h2 i = settled f g K i"
    using present_settles [OF coll1, of hw t] fmt(1) next_f(2) by (auto simp: same_pixels_fields [OF sp])
  let ?rx = "rx2\<lparr>current_frame_id := f_id f', total_chunks := f_total f'\<rparr>"
  have r: "ready f' rx2 h2"
    using p(2,3) h2 coll1 fits1 by (auto simp: ready_def collecting_def same_setup_def fits_def)
  have "ppc ?rx = wire_ppc (f_wire f')" "indexed ?rx = (f_wire f' = Idx)"
    using fmt p(3) same_setup_ppc [OF p(3)] by (simp_all add: same_setup_def ppc_frame)
  moreover have "0 \<in> {..<f_total f'}" "1 \<in> {..<f_total f'}" using k by simp_all
  then have "{} \<noteq> {..<f_total f'}" "{k} \<noteq> {..<f_total f'}" by (metis empty_iff, metis singletonD zero_neq_one)
  ultimately obtain rx3 h3 where pl: "place_chunk hw al k (chunk_body f' k) t ?rx h2 = Some (False, rx3, h3)"
    and c3: "collecting f' (fb_front h2) {k} rx3 h3"
    using placed [OF first_collecting [OF r] _ k(1), of hw al t] by (auto simp: outcome_def)
  have "f_id f' \<noteq> current_frame_id rx1" using coll1 next_f(3) by (simp add: collecting_def)
  then have "process_packet hw al (chunk_packet f' k) t rx h = Some (f_total f - card K \<le> 2, rx3, h3)"
    unfolding pr using frame_chunk_next [OF fits1, of rx1] p(1) pl by simp
  moreover have "fb_front h3 = fb_front h2" using c3 by (simp add: collecting_def)
  ultimately show ?thesis using c3 s by (auto simp: shown_def)
qed

end
