(* ===== verification/Bitmap_Props.thy ===== *)
theory Bitmap_Props
  imports Bitmap_Stream
begin

text \<open>
  The properties of the frame receiver: whole frames, frames with lost packets, the
  invariant of the receiver under every packet, and the two ways of writing pixels.
\<close>

unbundle bit_operations_syntax

section \<open>A display to run on\<close>

definition hub0 :: hub75 where
  "hub0 = \<lparr>fb_back = replicate 488 0, fb_front = replicate 488 7, hlength = 488, active_buf = 0,
     palette_shadow = replicate 256 0, palette_gen = 0, bank_gen = [0, 0], auto_swap = False,
     r_enabled = True, r_indexed = False, r_width = 8, r_rgb_order = 0, r_auto_swap = 0, r_fb_base = 0,
     r_panels = [], r_group_origins = [], palette_ram = replicate 256 0, dma_limit = 488, dma_on = False\<rparr>"

definition hw0 :: hub_hw where
  "hw0 = \<lparr>hw_palette_banks = 1, hw_fb_base_now = 0, hw_has_rgb_order = True, hw_columns = 8, hw_rows = 61,
     hw_config = 0, hw_driver = 0, hw_frame_id = 0, hw_total_chunks = 0, hw_indexed = 0,
     hw_arrival = replicate 16 0, hw_done = replicate 16 0, hw_done_frame_id = 0, hw_done_total = 0,
     hw_done_indexed = 0, hw_done_seq = (0, 0), hw_last_chunk = 0\<rparr>"

text \<open>A frame of 8 by 61 pixels: two chunks, the second of one pixel.\<close>

definition frame0 :: "u16 \<Rightarrow> frame" where
  "frame0 i = \<lparr>f_wire = Rgb, f_id = i, f_w = 8, f_h = 61, f_bytes = replicate 1464 5\<rparr>"

lemma frame0_size: "f_size (frame0 i) = 488" "f_total (frame0 i) = 2"
  by (simp_all add: f_size_def f_total_def frame0_def wire_ppc_def PIXELS_PER_CHUNK_def MAX_PAYLOAD_def)

lemma less_2: "{..<2} = {0, 1 :: nat}"
  by auto

lemma ready0: "ready (frame0 i) receiver_new hub0"
proof -
  have "fits (frame0 i) hub0"
    by (simp add: fits_def frame0_size) (simp add: frame0_def hub0_def img_len_def wire_bpp_def MAX_CHUNKS_NARROW_def)
  then show ?thesis
    by (simp add: ready_def idle_def receiver_new_def cpu_owned_def same_size_def hub0_def)
qed

section \<open>Whole frames\<close>

lemma frame_at_last:
  assumes "ready f rx h" and "chunk_of ` set es \<subset> {..<f_total f}"
    and "insert (chunk_of e) (chunk_of ` set es) = {..<f_total f}"
  shows "\<exists>rx' h'. feed (map (sent f) (es @ [e])) rx h = Some (replicate (length es) False @ [True], rx', h') \<and>
    ready f rx' h' \<and> fb_back h' = fb_front h \<and> (\<forall>i < img_len h. shown h' i = picture f ! i)"
proof -
  obtain hw al t k where e: "e = (hw, al, t, k)" by (cases e)
  have p: "in_progress f (fb_front h) {} rx h" using assms(1) by (simp add: in_progress_def)
  obtain rx1 h1 where s: "feed (map (sent f) es) rx h = Some (replicate (length es) False, rx1, h1)"
      "in_progress f (fb_front h) (chunk_of ` set es) rx1 h1"
    using feed_chunks [OF p, of es] psubset_imp_subset [OF assms(2)] psubset_eq [THEN iffD1, OF assms(2)] by auto
  have "k < f_total f" using assms(3) by (auto simp: e chunk_of_def)
  moreover have "chunk_of ` set es \<noteq> {..<f_total f}" "insert k (chunk_of ` set es) = {..<f_total f}"
    using assms(2,3) by (auto simp: e chunk_of_def)
  ultimately obtain rx' h' where l: "process_packet hw al (chunk_packet f k) t rx1 h1 = Some (True, rx', h')"
      "finished f (fb_front h) rx' h'"
    using process_step [OF s(2), of k hw al t] unfolding outcome_def by auto
  moreover have "img_len h' = img_len h"
    using l(2) assms(1) by (simp add: finished_def ready_def fits_def)
  ultimately show ?thesis
    using s(1) by (simp add: feed_append e sent_def finished_def)
qed





section \<open>Every packet\<close>

lemma ex_false [simp]: "\<exists>p. \<not> p"
  by (rule exI [of _ False]) simp

lemma present_auto:
  assumes "rx_inv rx" "0 < total_chunks rx" "missing rx \<le> 2" and own: "auto_swap h"
  shows "\<exists>st. present hw t rx h = finish hw t (rx\<lparr>stats := st\<rparr>) h"
proof -
  note m = missing_word [OF assms(1)]
  have nn: "\<not> MAX_CHUNKS < total_chunks rx" using assms(1) by (simp add: rx_inv_def)
  have le: "\<not> MAX_REPAIR_CHUNKS < sat_sub (of_nat (total_chunks rx) :: u16) (received rx)"
    using m(1) assms(3) by (simp add: word_less_nat_alt MAX_REPAIR_CHUNKS_def)
  have if_stats: "(if b then rx\<lparr>stats := s\<rparr> else rx\<lparr>stats := s'\<rparr>) = rx\<lparr>stats := (if b then s else s')\<rparr>" for b s s'
    by simp
  note eqs = present_def Let_def finish_def stats_fields m(2) le nn assms(2) [THEN less_not_refl2] own
    if_False if_True simp_thms case_prod_conv if_stats
  have "\<exists>st. present hw t (rx\<lparr>stats := s\<rparr>) h = finish hw t (rx\<lparr>stats := st\<rparr>) h" for s
    by (simp only: eqs) (rule exI, rule refl)
  from this [of "stats rx"] show ?thesis by simp
qed

lemma finish_total: "\<exists>rx' h'. finish hw t rx h = Some (True, rx', h') \<and> idle rx' \<and> same_setup rx rx' \<and> dma_on h' = dma_on h"
proof -
  obtain rx1 h1 where p: "apply_pending_palette hw rx h = (rx1, h1)" by fastforce
  from pending_same [OF p] have r: "same_setup rx rx1" "dma_on h1 = dma_on h"
    by (auto simp: same_setup_def same_pixels_def)
  obtain rx2 h2 where f: "flip hw rx1 h1 = (rx2, h2)" by fastforce
  then have "same_setup rx1 rx2" "dma_on h2 = dma_on h1"
    by (auto simp: flip_def same_setup_def with_stats_def set_auto_swap_def sync_buffers_from_hw_def
        swap_halves_def Let_def split: if_splits)
  then show ?thesis using r by (simp add: finish_def p f same_setup_def)
qed

lemma present_total:
  assumes inv: "rx_inv rx"
  shows "\<exists>p rx' h'. present hw t rx h = Some (p, rx', h') \<and> rx_inv rx' \<and> arrived rx' = {} \<and> dma_on h' = dma_on h"
proof -
  have id: "idle rx' \<Longrightarrow> rx_inv rx' \<and> arrived rx' = {}" for rx'
    by (simp add: idle_inv) (simp add: idle_def arrived_zero)
  consider "total_chunks rx = 0" | "0 < total_chunks rx" "2 < missing rx"
    | "0 < total_chunks rx" "missing rx \<le> 2" by linarith
  then show ?thesis
  proof cases
    case 1
    then have "arrived rx = {}" using inv by (simp add: rx_inv_def)
    then show ?thesis using 1 inv by (simp add: present_def)
  next
    case 2
    then show ?thesis using present_drop [OF inv, of hw t h] id by auto
  next
    case 3
    obtain rx0 h0 where "present hw t rx h = finish hw t rx0 h0" "dma_on h0 = dma_on h"
      using present_core [OF inv 3, of h hw t] present_auto [OF inv 3, of h hw t] repaired_frame(2) by metis
    then show ?thesis using finish_total [of hw t rx0 h0] id by auto
  qed
qed

lemma place_total:
  assumes inv: "rx_inv rx" and k: "k < total_chunks rx" and dma: "\<not> dma_on h"
  shows "\<exists>p rx' h'. place_chunk hw al k body t rx h = Some (p, rx', h') \<and> rx_inv rx' \<and> \<not> dma_on h'"
proof (cases "mask_test k rx")
  case True
  then obtain rx' where "place_chunk hw al k body t rx h = Some (False, rx', h)" "same_frame rx rx'"
    using place_repeat [OF _ mask_reached [OF inv k]] by blast
  then show ?thesis using inv dma same_frame_fields(2) [of rx rx'] by simp
next
  case False
  let ?h = "write_img_data (k * ppc rx) (decode (indexed rx) body) h"
  obtain rx' where r: "place_chunk hw al k body t rx h = (if missing rx' = 0 then present hw t rx' ?h else Some (False, rx', ?h))"
    "rx_inv rx'" using place_new [OF inv k False dma, of hw al body t] by blast
  obtain p rx2 h2 where "present hw t rx' ?h = Some (p, rx2, h2)" "rx_inv rx2" "\<not> dma_on h2"
    using present_total [OF r(2), of hw t ?h] dma by auto
  then show ?thesis using r dma by (cases "missing rx' = 0") simp_all
qed

lemma frame_chunk_total:
  assumes inv: "rx_inv rx" and k: "k < tot" "tot \<le> MAX_CHUNKS" and dma: "\<not> dma_on h"
  shows "\<exists>p rx' h'. frame_chunk hw al i k tot w ht body t rx h = Some (p, rx', h') \<and> rx_inv rx' \<and> \<not> dma_on h'"
proof (cases "i \<noteq> current_frame_id rx \<or> tot \<noteq> total_chunks rx")
  case False
  then show ?thesis using place_total [OF inv _ dma, of k hw al body t] k by (simp add: frame_chunk_def)
next
  case True
  obtain p rx1 h1 where pr: "present hw t rx h = Some (p, rx1, h1)" "rx_inv rx1" "arrived rx1 = {}" "dma_on h1 = dma_on h"
    using present_total [OF inv, of hw t h] by blast
  let ?rx = "rx1\<lparr>current_frame_id := i, total_chunks := tot\<rparr>"
  have "arrived ?rx = arrived rx1" by (rule arrived_cong) simp
  then have "rx_inv ?rx" using pr(2,3) k by (simp add: rx_inv_def)
  then obtain q rx2 h2 where "place_chunk hw al k body t ?rx h1 = Some (q, rx2, h2)" "rx_inv rx2" "\<not> dma_on h2"
    using place_total [of ?rx k h1 hw al body t] k dma pr(4) by auto
  moreover have "rx_inv (bad_header rx)" using inv rx_inv_cong [of "bad_header rx" rx] by (simp add: bad_header_def with_stats_def)
  ultimately show ?thesis using True pr(1) dma by (auto simp: frame_chunk_def get_img_param_def Let_def)
qed

lemma rx_inv_stats [simp]: "rx_inv (with_stats f rx) = rx_inv rx" "rx_inv (bad_header rx) = rx_inv rx"
  "rx_inv (rx\<lparr>pending_palette := pp\<rparr>) = rx_inv rx" "rx_inv (rx\<lparr>pending_palette_start := s\<rparr>) = rx_inv rx"
  "rx_inv (rx\<lparr>pending_palette_len := n\<rparr>) = rx_inv rx"
  "rx_inv (rx\<lparr>pending_palette_valid := v\<rparr>) = rx_inv rx"
  "rx_inv (rx\<lparr>last_packet_ms := t\<rparr>) = rx_inv rx" "rx_inv (rx\<lparr>indexed := i, wide := w\<rparr>) = rx_inv rx"
  by (rule rx_inv_cong; simp add: bad_header_def with_stats_def)+

lemma bitmap_packet_total:
  assumes inv: "rx_inv rx" and dma: "\<not> dma_on h" and len: "HEADER_SIZE \<le> length d"
  shows "\<exists>p rx' h'. bitmap_packet hw al d t rx h = Some (p, rx', h') \<and> rx_inv rx' \<and> \<not> dma_on h'"
proof -
  have fc: "\<exists>p rx' h'. frame_chunk hw al i k tot w ht body t (with_stats g (with_stats f rx)) h = Some (p, rx', h') \<and>
      rx_inv rx' \<and> \<not> dma_on h'" if "\<not> MAX_CHUNKS < tot" "\<not> (tot = 0 \<or> tot \<le> k)" for i k tot w ht body f g
    using frame_chunk_total [of "with_stats g (with_stats f rx)" k tot h] that inv dma by simp
  obtain idx tot w ht hl where hd: "(if wide rx
          then (unat (u16_le (d ! 4) (d ! 5)), unat (u16_le (d ! 6) (d ! 7)),
                u16_le (d ! 8) (d ! 9), u16_le (d ! 10) (d ! 11), HEADER_SIZE_WIDE)
          else (unat (d ! 4), unat (d ! 5), u16_le (d ! 6) (d ! 7), u16_le (d ! 8) (d ! 9), HEADER_SIZE)) = (idx, tot, w, ht, hl)"
    by (metis prod.exhaust)
  show ?thesis
  proof (cases "wide rx \<and> length d < HEADER_SIZE_WIDE")
    case False
    have b: "3 < length d" "(if wide rx then 11 else 9) < length d" using len False by (auto simp: HEADER_SIZE_def HEADER_SIZE_WIDE_def)
    have "hl = (if wide rx then HEADER_SIZE_WIDE else HEADER_SIZE)" using hd by (auto split: if_splits)
    then have s: "hl \<le> length d" using len False by auto
    show ?thesis
      unfolding bitmap_packet_def in_bounds_ok [OF b(1)] in_bounds_ok [OF b(2)] Let_def hd case_prod_conv in_slice_ok [OF s]
      using inv dma fc by simp
  qed (use inv dma len in \<open>simp add: bitmap_packet_def HEADER_SIZE_def Let_def\<close>)
qed

lemma process_packet_total:
  assumes inv: "rx_inv rx" and dma: "\<not> dma_on h"
  shows "\<exists>p rx' h'. process_packet hw al d t rx h = Some (p, rx', h') \<and> rx_inv rx' \<and> \<not> dma_on h'"
proof (cases "length d < HEADER_SIZE")
  case True
  then show ?thesis using inv dma by (simp add: process_packet_def Let_def)
next
  case False
  let ?rx = "with_stats (\<lambda>s. s\<lparr>packets_total := packets_total s + 1, last_data_len := of_nat (length d)\<rparr>) rx"
  let ?ix = "d ! 1 = 0x49" and ?wd = "d ! 1 = 0x57"
  have b: "1 < length d" "4 < length d" "HEADER_SIZE \<le> length d" using False by (auto simp: HEADER_SIZE_def)
  have inv0: "rx_inv ?rx" using inv by simp
  then have inv1: "rx_inv (?rx\<lparr>indexed := ?ix, wide := ?wd\<rparr>)" by simp
  obtain rx1 h1 where m: "apply_mode ?ix (?rx\<lparr>indexed := ?ix, wide := ?wd\<rparr>) h = (rx1, h1)" by fastforce
  have bp: "\<exists>p rx' h'. bitmap_packet hw al d t rx1 h1 = Some (p, rx', h') \<and> rx_inv rx' \<and> \<not> dma_on h'"
    using bitmap_packet_total [of rx1 h1, OF _ _ b(3)] inv1 dma same_frame_fields(2) [OF apply_mode_frame(1) [OF m]]
      same_pixels_fields(9) [OF apply_mode_frame(2) [OF m]] by simp
  obtain rx2 h2 where p: "stash_palette hw (d ! 4) (drop HEADER_SIZE d) t ?rx h = (rx2, h2)" by fastforce
  have sp: "rx_inv rx2" "\<not> dma_on h2"
    using p inv0 dma by (auto simp: stash_palette_def apply_pending_palette_def Let_def split: if_splits)
  show ?thesis
    unfolding process_packet_def Let_def in_bounds_ok [OF b(1)] in_bounds_ok [OF b(2)] in_slice_ok [OF b(3)] m p case_prod_conv
    using inv0 dma bp sp by simp
qed

section \<open>No panic, whoever moves the pixels\<close>

text \<open>
  What indexing the mask needs, whether the CPU or the gateware writes pixels and swaps: a mask
  of its eight words and a frame of no more chunks than it has bits.
\<close>

definition mask_fits :: "receiver \<Rightarrow> bool" where
  "mask_fits rx \<longleftrightarrow> length (chunk_mask rx) = MASK_WORDS \<and> total_chunks rx \<le> MAX_CHUNKS"

lemma mask_fits_inv: "rx_inv rx \<Longrightarrow> mask_fits rx"
  by (simp add: rx_inv_def mask_fits_def)

lemma mask_fits_simps [simp]:
  "mask_fits (with_stats f rx) = mask_fits rx" "mask_fits (bad_header rx) = mask_fits rx"
  "mask_fits (reset_frame rx)" "mask_fits (rx\<lparr>last_packet_ms := t\<rparr>) = mask_fits rx"
  "mask_fits (rx\<lparr>indexed := i, wide := w\<rparr>) = mask_fits rx" "mask_fits (rx\<lparr>mode_indexed := m\<rparr>) = mask_fits rx"
  "mask_fits (rx\<lparr>pending_palette := pp, pending_palette_start := s, pending_palette_len := n, pending_palette_valid := v\<rparr>) = mask_fits rx"
  "mask_fits (rx\<lparr>pending_palette_valid := v\<rparr>) = mask_fits rx"
  by (simp_all add: mask_fits_def bad_header_def with_stats_def reset_frame_def mask_clear_def)

lemma present_runs:
  assumes "mask_fits rx"
  shows "\<exists>p rx' h'. present hw t rx h = Some (p, rx', h') \<and> mask_fits rx'"
proof -
  have "unat (of_nat (total_chunks rx) :: u16) \<le> MAX_CHUNKS"
    using assms by (simp add: mask_fits_def unat_of_nat MAX_CHUNKS_def)
  then show ?thesis using assms by (auto simp: present_def Let_def not_less split: prod.split)
qed

lemma merge_fits: "mask_fits rx \<Longrightarrow> mask_fits (merge_dma_arrival hw h t rx)"
  by (auto simp: merge_dma_arrival_def mask_fits_def mask_words_def with_stats_def Let_def split: option.split)

lemma place_runs:
  assumes fits: "mask_fits rx" and k: "k < total_chunks rx"
  shows "\<exists>p rx' h'. place_chunk hw al k body t rx h = Some (p, rx', h') \<and> mask_fits rx'"
proof -
  have m: "k div 64 < length (chunk_mask rx)" using assms by (auto simp: mask_fits_def MASK_WORDS_def MAX_CHUNKS_def)
  have set: "mask_fits (with_stats f ((mask_set k rx)\<lparr>received := n, cpu_saw_packet := b, last_packet_ms := t\<rparr>))" for f n b
    using fits by (simp add: mask_fits_def mask_set_def with_stats_def)
  show ?thesis
    unfolding place_chunk_def in_bounds_ok [OF m] Let_def
    using fits set merge_fits present_runs by simp
qed

lemma frame_chunk_runs:
  assumes fits: "mask_fits rx" and k: "k < tot" "tot \<le> MAX_CHUNKS"
  shows "\<exists>p rx' h'. frame_chunk hw al i k tot w ht body t rx h = Some (p, rx', h') \<and> mask_fits rx'"
proof -
  obtain p rx1 h1 where pr: "present hw t rx h = Some (p, rx1, h1)" "mask_fits rx1"
    using present_runs [OF fits, of hw t h] by blast
  let ?rx = "rx1\<lparr>current_frame_id := i, total_chunks := tot\<rparr>"
  have "mask_fits ?rx" using pr(2) k by (simp add: mask_fits_def)
  then obtain q rx2 h2 where "place_chunk hw al k body t ?rx h1 = Some (q, rx2, h2)" "mask_fits rx2"
    using place_runs [of ?rx k hw al body t h1] k by auto
  moreover have "\<exists>p rx' h'. place_chunk hw al k body t rx h = Some (p, rx', h') \<and> mask_fits rx'" if "tot = total_chunks rx"
    using place_runs [OF fits, of k] k that by blast
  ultimately show ?thesis using pr(1) fits by (auto simp: frame_chunk_def get_img_param_def Let_def)
qed

lemma bitmap_packet_runs:
  assumes fits: "mask_fits rx" and len: "HEADER_SIZE \<le> length d"
  shows "\<exists>p rx' h'. bitmap_packet hw al d t rx h = Some (p, rx', h') \<and> mask_fits rx'"
proof -
  have fc: "\<exists>p rx' h'. frame_chunk hw al i k tot w ht body t (with_stats g (with_stats f rx)) h = Some (p, rx', h') \<and> mask_fits rx'"
    if "\<not> MAX_CHUNKS < tot" "\<not> (tot = 0 \<or> tot \<le> k)" for i k tot w ht body f g
    using frame_chunk_runs [of "with_stats g (with_stats f rx)" k tot] that fits by simp
  obtain idx tot w ht hl where hd: "(if wide rx
          then (unat (u16_le (d ! 4) (d ! 5)), unat (u16_le (d ! 6) (d ! 7)),
                u16_le (d ! 8) (d ! 9), u16_le (d ! 10) (d ! 11), HEADER_SIZE_WIDE)
          else (unat (d ! 4), unat (d ! 5), u16_le (d ! 6) (d ! 7), u16_le (d ! 8) (d ! 9), HEADER_SIZE)) = (idx, tot, w, ht, hl)"
    by (metis prod.exhaust)
  show ?thesis
  proof (cases "wide rx \<and> length d < HEADER_SIZE_WIDE")
    case False
    have b: "3 < length d" "(if wide rx then 11 else 9) < length d" using len False by (auto simp: HEADER_SIZE_def HEADER_SIZE_WIDE_def)
    have "hl = (if wide rx then HEADER_SIZE_WIDE else HEADER_SIZE)" using hd by (auto split: if_splits)
    then have s: "hl \<le> length d" using len False by auto
    show ?thesis
      unfolding bitmap_packet_def in_bounds_ok [OF b(1)] in_bounds_ok [OF b(2)] Let_def hd case_prod_conv in_slice_ok [OF s]
      using fits fc by simp
  qed (use fits len in \<open>simp add: bitmap_packet_def HEADER_SIZE_def Let_def\<close>)
qed

lemma stash_fits: "mask_fits rx \<Longrightarrow> mask_fits (fst (stash_palette hw s body t rx h))"
  by (auto simp: stash_palette_def apply_pending_palette_def Let_def mask_fits_def)

lemma process_packet_runs:
  assumes fits: "mask_fits rx"
  shows "\<exists>p rx' h'. process_packet hw al d t rx h = Some (p, rx', h') \<and> mask_fits rx'"
proof (cases "length d < HEADER_SIZE")
  case True
  then show ?thesis using fits by (simp add: process_packet_def Let_def)
next
  case False
  let ?rx = "with_stats (\<lambda>s. s\<lparr>packets_total := packets_total s + 1, last_data_len := of_nat (length d)\<rparr>) rx"
  let ?ix = "d ! 1 = 0x49" and ?wd = "d ! 1 = 0x57"
  have b: "1 < length d" "4 < length d" "HEADER_SIZE \<le> length d" using False by (auto simp: HEADER_SIZE_def)
  obtain rx1 h1 where m: "apply_mode ?ix (?rx\<lparr>indexed := ?ix, wide := ?wd\<rparr>) h = (rx1, h1)" by fastforce
  have "mask_fits rx1" using m fits by (auto simp: apply_mode_def split: if_splits)
  note bp = bitmap_packet_runs [OF this b(3), of hw al t h1]
  obtain rx2 h2 where p: "stash_palette hw (d ! 4) (drop HEADER_SIZE d) t ?rx h = (rx2, h2)" by fastforce
  have sp: "mask_fits rx2" using stash_fits [of ?rx hw "d ! 4" "drop HEADER_SIZE d" t h] fits p by simp
  show ?thesis
    unfolding process_packet_def Let_def in_bounds_ok [OF b(1)] in_bounds_ok [OF b(2)] in_slice_ok [OF b(3)] m p case_prod_conv
    using fits bp sp by simp
qed



text \<open>
  A packet whose declared size is not the display's draws nothing: both buffers, the chunks
  that have arrived and the frame they belong to stay as they were.
\<close>

theorem wrong_size_ignored:
  assumes "data ! 0 = 0x42" and "data ! 1 = 0x4D \<or> data ! 1 = 0x49" and "HEADER_SIZE \<le> length data"
    and "w = u16_le (data ! 6) (data ! 7)" and "ht = u16_le (data ! 8) (data ! 9)"
    and "w \<noteq> 0" and "ht \<noteq> 0" and "unat w * unat ht \<noteq> img_len h"
  shows "\<exists>rx' h'. process_packet hw al data t rx h = Some (False, rx', h') \<and>
    arrived rx' = arrived rx \<and> current_frame_id rx' = current_frame_id rx \<and>
    fb_back h' = fb_back h \<and> fb_front h' = fb_front h"
proof -
  let ?rx = "with_stats (\<lambda>s. s\<lparr>packets_total := packets_total s + 1, last_data_len := of_nat (length data)\<rparr>) rx"
  have b1: "1 < length data" and b3: "3 < length data" "9 < length data" using assms(3) by (simp_all add: HEADER_SIZE_def)
  have len: "\<not> length data < HEADER_SIZE" and m50: "data ! 1 \<noteq> 0x50" and nw: "data ! 1 \<noteq> 0x57"
    using assms(2,3) by auto
  obtain rx1 h1 where m: "apply_mode (data ! 1 = 0x49) (?rx\<lparr>indexed := (data ! 1 = 0x49), wide := (data ! 1 = 0x57)\<rparr>) h = (rx1, h1)"
    by fastforce
  note am = apply_mode_frame [OF m]
  have sf: "same_frame rx rx1" using am(1) by (simp add: same_frame_def with_stats_def)
  have bad: "unat w * unat ht \<noteq> img_len h1" using assms(8) by (simp add: same_pixels_fields [OF am(2)])
  have "wide rx1 = False" using am(4) nw by simp
  then have bp: "\<exists>rx2. bitmap_packet hw al data t rx1 h1 = Some (False, rx2, h1) \<and> same_frame rx1 rx2"
    using assms(4-7) bad
    unfolding bitmap_packet_def Let_def assms(4,5) [symmetric]
    by (simp add: bad_header_def same_frame_stats b3)
  then obtain rx2 where bp: "bitmap_packet hw al data t rx1 h1 = Some (False, rx2, h1)" "same_frame rx1 rx2" by blast
  have same: "same_frame rx (with_stats f (?rx\<lparr>last_packet_ms := t\<rparr>))" "same_frame rx ?rx" for f
    by (simp_all add: same_frame_def with_stats_def)
  have magic: "data ! 0 = 0x42 \<and> (data ! 1 = 0x4D \<or> data ! 1 = 0x49 \<or> data ! 1 = 0x57)"
    "\<not> (data ! 0 = 0x42 \<and> data ! 1 = 0x50)" using assms(1,2) by auto
  note eqs = process_packet_def Let_def m case_prod_conv len in_bounds_ok [OF b1] magic m50 simp_thms if_True if_False bp(1)
  consider "process_packet hw al data t rx h = Some (False, rx2, h1)"
    | rx' where "process_packet hw al data t rx h = Some (False, rx', h)" "same_frame rx rx'"
  proof (cases "hold ?rx")
    case True
    then have "process_packet hw al data t rx h = Some (False, ?rx, h)" by (simp only: eqs)
    then show ?thesis using that(2) same(2) by blast
  next
    case False
    show ?thesis
    proof (cases "cpu_pixels ?rx")
      case True
      have "process_packet hw al data t rx h = Some (False, rx2, h1)" by (simp only: eqs True False)
      then show ?thesis by (rule that(1))
    next
      case no_cpu: False
      have "\<exists>f. process_packet hw al data t rx h = Some (False, with_stats f (?rx\<lparr>last_packet_ms := t\<rparr>), h)"
        by (simp only: eqs False no_cpu) (rule exI, rule refl)
      then show ?thesis using that(2) same(1) by blast
    qed
  qed
  then show ?thesis
  proof cases
    case 1
    have "same_frame rx rx2" using sf bp(2) by (simp add: same_frame_def)
    then have "arrived rx2 = arrived rx" "current_frame_id rx2 = current_frame_id rx"
      by (simp_all add: same_frame_fields(1)) (simp add: same_frame_def)
    then show ?thesis using 1 same_pixels_fields(6,8) [OF am(2)] by simp
  next
    case 2
    then have "arrived rx' = arrived rx" "current_frame_id rx' = current_frame_id rx"
      by (simp_all add: same_frame_fields(1)) (simp add: same_frame_def)
    then show ?thesis using 2 by simp
  qed
qed

theorem wrong_size_ignored_witness:
  "\<exists>rx' h'. process_packet hw0 True [0x42, 0x4D, 1, 0, 0, 1, 8, 0, 8, 0] 0 receiver_new hub0 = Some (False, rx', h') \<and>
    arrived rx' = arrived receiver_new \<and> current_frame_id rx' = current_frame_id receiver_new \<and>
    fb_back h' = fb_back hub0 \<and> fb_front h' = fb_front hub0"
  by (rule wrong_size_ignored [where w = 8 and ht = 8])
    (simp_all add: HEADER_SIZE_def u16_le_def u16_be_def img_len_def hub0_def)

end
