(* ===== verification/Value_Table.thy ===== *)
theory Value_Table
  imports Rust_Text
begin

text \<open>
  \<^verbatim>\<open>src/values.rs\<close>: the named values a program on the panel reads. The table is fixed
  storage; it implements a map of bounded size whose keys, once in, stay.
\<close>

unbundle bit_operations_syntax

section \<open>What a reader of values relies on\<close>

text \<open>A feed of values: a pushed value is read back cut to what fits, other keys keep theirs, and
  a key that is present is never refused.\<close>

locale value_feed =
  fixes look :: "'t \<Rightarrow> 'k \<Rightarrow> 'v option" and put :: "'k \<Rightarrow> 'w \<Rightarrow> 't \<Rightarrow> 't"
    and cut :: "'w \<Rightarrow> 'v" and takes :: "'t \<Rightarrow> 'k \<Rightarrow> bool" and wf :: "'t \<Rightarrow> bool"
  assumes wf_put: "wf t \<Longrightarrow> wf (put k w t)"
    and look_put: "wf t \<Longrightarrow> look (put k w t) k' =
      (if takes t k \<and> k' = k then Some (cut w) else look t k')"
    and takes_present: "wf t \<Longrightarrow> look t k \<noteq> None \<Longrightarrow> takes t k"
begin

lemma stays: "wf t \<Longrightarrow> look t k \<noteq> None \<Longrightarrow> look (put k' w t) k \<noteq> None"
  by (auto simp: look_put)

definition latest :: "'k \<Rightarrow> ('k \<times> 'w) list \<Rightarrow> 'v option \<Rightarrow> 'v option" where
  "latest k ps old = (case filter (\<lambda>p. fst p = k) ps of [] \<Rightarrow> old | qs \<Rightarrow> Some (cut (snd (last qs))))"

text \<open>After any pushes a key that was present holds the last value pushed to it.\<close>

lemma look_pushes:
  "wf t \<Longrightarrow> look t k \<noteq> None \<Longrightarrow>
     wf (fold (\<lambda>(k, w). put k w) ps t) \<and> look (fold (\<lambda>(k, w). put k w) ps t) k = latest k ps (look t k)"
proof (induction ps arbitrary: t)
  case (Cons p ps)
  obtain k' w where p: "p = (k', w)" by (cases p)
  have t': "wf (put k' w t)" "look (put k' w t) k \<noteq> None"
    using Cons.prems by (simp_all add: wf_put stays)
  show ?case
    using Cons.IH [OF t'] Cons.prems takes_present [OF Cons.prems]
    by (auto simp: p latest_def look_put split: list.splits)
qed (simp add: latest_def)

end

section \<open>The table\<close>

definition MAX_VALUES :: nat where [src_consts]: "MAX_VALUES = 24"
definition KEY_LEN :: nat where [src_consts]: "KEY_LEN = 16"
definition VAL_LEN :: nat where [src_consts]: "VAL_LEN = 64"

record value_slot =
  v_key :: "u8 list"
  v_key_len :: nat
  v_val :: "u8 list"
  v_val_len :: nat
  updated_ms :: int

definition value_empty :: value_slot where
  "value_empty = \<lparr>v_key = replicate KEY_LEN 0, v_key_len = 0, v_val = replicate VAL_LEN 0, v_val_len = 0, updated_ms = 0\<rparr>"

definition slot_key :: "value_slot \<Rightarrow> u8 list" where
  "slot_key s = take (v_key_len s) (v_key s)"

definition slot_value :: "value_slot \<Rightarrow> u8 list" where
  "slot_value s = take (v_val_len s) (v_val s)"

definition key_is :: "value_slot \<Rightarrow> u8 list \<Rightarrow> bool" where
  "key_is s k \<longleftrightarrow> v_key_len s = length k \<and> take (length k) (v_key s) = k"

record value_table =
  slots :: "value_slot list"
  used :: nat
  writes :: u32
  last_push_ms :: int

definition table_new :: value_table where
  "table_new = \<lparr>slots = replicate MAX_VALUES value_empty, used = 0, writes = 0, last_push_ms = 0\<rparr>"

definition store_val :: "u8 list \<Rightarrow> int \<Rightarrow> value_slot \<Rightarrow> value_slot" where
  "store_val vb now s =
     (let n = min (length vb) VAL_LEN in
      s\<lparr>v_val := splice 0 (take n vb) (v_val s), v_val_len := n, updated_ms := now\<rparr>)"

definition find_slot :: "value_table \<Rightarrow> u8 list \<Rightarrow> nat option" where
  "find_slot t k = find (\<lambda>i. key_is (slots t ! i) k) [0..<used t]"

definition set_value :: "u8 list \<Rightarrow> u8 list \<Rightarrow> int \<Rightarrow> value_table \<Rightarrow> value_table" where
  "set_value key val now t0 =
     (let t = t0\<lparr>writes := writes t0 + 1, last_push_ms := now\<rparr> in
      case find_slot t key of
        Some i \<Rightarrow> t\<lparr>slots := (slots t)[i := store_val val now (slots t ! i)]\<rparr>
      | None \<Rightarrow>
         if used t \<ge> MAX_VALUES \<or> key = [] \<or> length key > KEY_LEN then t
         else let s = slots t ! used t;
                  s1 = s\<lparr>v_key := splice 0 key (v_key s), v_key_len := length key\<rparr> in
           t\<lparr>slots := (slots t)[used t := store_val val now s1], used := used t + 1\<rparr>)"

definition get_value :: "value_table \<Rightarrow> u8 list \<Rightarrow> value_slot option" where
  "get_value t key = find (\<lambda>v. key_is v key) (map (\<lambda>i. slots t ! i) [0..<used t])"

definition value_text :: "value_table \<Rightarrow> u8 list \<Rightarrow> u8 list" where
  "value_text t key =
     (case get_value t key of Some v \<Rightarrow> if v_val_len v > 0 then slot_value v else [0x2D] | None \<Rightarrow> [0x2D])"

definition table_iter :: "value_table \<Rightarrow> value_slot list" where
  "table_iter t = map (\<lambda>i. slots t ! i) [0..<used t]"

definition table_len :: "value_table \<Rightarrow> nat" where "table_len t = used t"

definition I64_MAX :: int where "I64_MAX = 2 ^ 63 - 1"

definition stale_for_ms :: "value_table \<Rightarrow> int \<Rightarrow> int" where
  "stale_for_ms t now =
     (if last_push_ms t = 0 then I64_MAX
      else max (- (2 ^ 63)) (min I64_MAX (now - last_push_ms t)))"

section \<open>It is a map\<close>

definition slot_wf :: "value_slot \<Rightarrow> bool" where
  "slot_wf s \<longleftrightarrow> length (v_key s) = KEY_LEN \<and> v_key_len s \<le> KEY_LEN \<and> length (v_val s) = VAL_LEN \<and> v_val_len s \<le> VAL_LEN"

definition table_wf :: "value_table \<Rightarrow> bool" where
  "table_wf t \<longleftrightarrow> length (slots t) = MAX_VALUES \<and> used t \<le> MAX_VALUES \<and> (\<forall>s \<in> set (slots t). slot_wf s) \<and>
     distinct (map slot_key (table_iter t)) \<and> [] \<notin> slot_key ` set (table_iter t)"

definition lookup_value :: "value_table \<Rightarrow> u8 list \<Rightarrow> (u8 list \<times> int) option" where
  "lookup_value t k = map_option (\<lambda>s. (slot_value s, updated_ms s)) (get_value t k)"

definition accepts :: "value_table \<Rightarrow> u8 list \<Rightarrow> bool" where
  "accepts t k \<longleftrightarrow> get_value t k \<noteq> None \<or> used t < MAX_VALUES \<and> k \<noteq> [] \<and> length k \<le> KEY_LEN"

lemma key_is_iff: "slot_wf s \<Longrightarrow> key_is s k \<longleftrightarrow> slot_key s = k"
  by (auto simp: key_is_def slot_key_def slot_wf_def min_def)

definition entries :: "value_table \<Rightarrow> (u8 list \<times> u8 list \<times> int) list" where
  "entries t = map (\<lambda>s. (slot_key s, slot_value s, updated_ms s)) (table_iter t)"

lemma find_map_of:
  "map_option f (find (\<lambda>s. g s = k) xs) = map_of (map (\<lambda>s. (g s, f s)) xs) k"
  by (induction xs) auto

lemma map_of_update:
  "distinct (map fst xs) \<Longrightarrow> i < length xs \<Longrightarrow> fst (xs ! i) = k \<Longrightarrow> map_of (xs[i := (k, v)]) = (map_of xs)(k \<mapsto> v)"
proof (induction xs arbitrary: i)
  case (Cons x xs)
  then show ?case by (cases i; cases x) (auto simp: fun_eq_iff)
qed simp

lemma iter_wf: "table_wf t \<Longrightarrow> s \<in> set (table_iter t) \<Longrightarrow> slot_wf s"
  by (auto simp: table_wf_def table_iter_def)

lemma get_find: "table_wf t \<Longrightarrow> get_value t k = find (\<lambda>s. slot_key s = k) (table_iter t)"
  using iter_wf [of t] unfolding get_value_def table_iter_def [symmetric]
  by (intro find_cong) (auto simp: key_is_iff)

lemma lookup_entries: "table_wf t \<Longrightarrow> lookup_value t k = map_of (entries t) k"
  by (simp add: lookup_value_def get_find entries_def find_map_of)

lemma length_entries [simp]: "length (entries t) = used t"
  by (simp add: entries_def table_iter_def)

lemma nth_entries:
  "i < used t \<Longrightarrow> entries t ! i = (slot_key (slots t ! i), slot_value (slots t ! i), updated_ms (slots t ! i))"
  by (simp add: entries_def table_iter_def)

lemma find_slot_iff:
  assumes "table_wf t"
  shows "find_slot t k = Some i \<Longrightarrow> i < used t \<and> slot_key (slots t ! i) = k"
    and "find_slot t k = None \<longleftrightarrow> get_value t k = None"
proof -
  have wf: "j < used t \<Longrightarrow> slot_wf (slots t ! j)" for j
    using assms by (auto simp: table_wf_def)
  show "find_slot t k = Some i \<Longrightarrow> i < used t \<and> slot_key (slots t ! i) = k"
    using wf by (auto simp: find_slot_def find_Some_iff key_is_iff)
  show "find_slot t k = None \<longleftrightarrow> get_value t k = None"
    by (auto simp: find_slot_def get_value_def find_None_iff)
qed

lemma take_cut: "n \<le> length buf \<Longrightarrow> take n (splice 0 (take n xs) buf) = take n xs" if "n \<le> length xs"
  using that by (simp add: splice_def)

lemma store_val_props:
  assumes "slot_wf s"
  shows "slot_wf (store_val vb now s)" "slot_key (store_val vb now s) = slot_key s"
    "slot_value (store_val vb now s) = take VAL_LEN vb" "updated_ms (store_val vb now s) = now"
  using assms by (auto simp: store_val_def slot_wf_def slot_key_def slot_value_def Let_def take_cut min_def)

text \<open>Pushing to the table, in terms of its entries alone.\<close>

definition push_entries :: "u8 list \<Rightarrow> u8 list \<times> int \<Rightarrow> value_table \<Rightarrow> (u8 list \<times> u8 list \<times> int) list" where
  "push_entries k v t =
     (case find_slot t k of Some i \<Rightarrow> (entries t)[i := (k, v)]
      | None \<Rightarrow> if accepts t k then entries t @ [(k, v)] else entries t)"

lemma entries_eqI:
  "used t = length es \<Longrightarrow> (\<And>i. i < length es \<Longrightarrow> entries t ! i = es ! i) \<Longrightarrow> entries t = es"
  by (rule nth_equalityI) simp_all

lemma set_value_step:
  assumes wf: "table_wf t"
  shows "entries (set_value k v now t) = push_entries k (take VAL_LEN v, now) t"
    and "length (slots (set_value k v now t)) = MAX_VALUES" and "used (set_value k v now t) \<le> MAX_VALUES"
    and "\<forall>s \<in> set (slots (set_value k v now t)). slot_wf s"
proof -
  have t: "length (slots t) = MAX_VALUES" "used t \<le> MAX_VALUES" "i < MAX_VALUES \<Longrightarrow> slot_wf (slots t ! i)" for i
    using wf by (auto simp: table_wf_def)
  let ?t' = "set_value k v now t"
  have "entries ?t' = push_entries k (take VAL_LEN v, now) t \<and> length (slots ?t') = MAX_VALUES \<and>
    used ?t' \<le> MAX_VALUES \<and> (\<forall>s \<in> set (slots ?t'). slot_wf s)"
  proof (cases "find_slot t k")
    case (Some i)
    note i = find_slot_iff(1) [OF wf Some]
    have sw: "slot_wf (slots t ! i)" using i t by simp
    have e: "?t' = t\<lparr>writes := writes t + 1, last_push_ms := now, slots := (slots t)[i := store_val v now (slots t ! i)]\<rparr>"
      using Some by (simp add: set_value_def find_slot_def Let_def)
    have "entries ?t' = (entries t)[i := (k, take VAL_LEN v, now)]"
      using i t store_val_props [OF sw]
      by (intro entries_eqI) (auto simp: e nth_entries nth_list_update)
    moreover have "\<forall>s \<in> set (slots ?t'). slot_wf s"
      using wf store_val_props(1) [OF sw] by (auto simp: e table_wf_def dest!: set_update_subset_insert [THEN subsetD])
    ultimately show ?thesis using Some t by (simp add: e push_entries_def)
  next
    case None
    then have g: "get_value t k = None" using find_slot_iff(2) [OF wf] by simp
    show ?thesis
    proof (cases "accepts t k")
      case False
      then have "?t' = t\<lparr>writes := writes t + 1, last_push_ms := now\<rparr>"
        using None g by (auto simp: set_value_def find_slot_def accepts_def Let_def)
      then show ?thesis using None False t wf by (simp add: push_entries_def entries_def table_iter_def table_wf_def)
    next
      case True
      then have u: "used t < MAX_VALUES" "k \<noteq> []" "length k \<le> KEY_LEN" using g by (simp_all add: accepts_def)
      let ?s = "(slots t ! used t)\<lparr>v_key := splice 0 k (v_key (slots t ! used t)), v_key_len := length k\<rparr>"
      have sw: "slot_wf ?s" and sk: "slot_key ?s = k"
        using t(3) [OF u(1)] u(3) by (auto simp: slot_wf_def slot_key_def splice_def)
      have e: "?t' = t\<lparr>writes := writes t + 1, last_push_ms := now,
          slots := (slots t)[used t := store_val v now ?s], used := used t + 1\<rparr>"
        using None u by (simp add: set_value_def find_slot_def Let_def)
      have "entries ?t' = entries t @ [(k, take VAL_LEN v, now)]"
        using u t store_val_props [OF sw] sk
        by (intro entries_eqI) (auto simp: e nth_entries nth_append nth_list_update less_Suc_eq)
      moreover have "\<forall>s \<in> set (slots ?t'). slot_wf s"
        using wf store_val_props(1) [OF sw] by (auto simp: e table_wf_def dest!: set_update_subset_insert [THEN subsetD])
      ultimately show ?thesis using None True t u by (simp add: e push_entries_def)
    qed
  qed
  then show "entries ?t' = push_entries k (take VAL_LEN v, now) t" "length (slots ?t') = MAX_VALUES"
    "used ?t' \<le> MAX_VALUES" "\<forall>s \<in> set (slots ?t'). slot_wf s" by blast+
qed

lemma table_wf_entries:
  "table_wf t \<longleftrightarrow> length (slots t) = MAX_VALUES \<and> used t \<le> MAX_VALUES \<and> (\<forall>s \<in> set (slots t). slot_wf s) \<and>
     distinct (map fst (entries t)) \<and> [] \<notin> fst ` set (entries t)"
  by (simp add: table_wf_def entries_def image_image comp_def)

lemma find_slot_entries:
  assumes "table_wf t"
  shows "find_slot t k = Some i \<Longrightarrow> i < used t \<and> fst (entries t ! i) = k"
    and "find_slot t k = None \<Longrightarrow> k \<notin> fst ` set (entries t)"
proof -
  show "find_slot t k = Some i \<Longrightarrow> i < used t \<and> fst (entries t ! i) = k"
    using find_slot_iff(1) [OF assms] by (simp add: nth_entries)
  show "find_slot t k = None \<Longrightarrow> k \<notin> fst ` set (entries t)"
    using find_slot_iff(2) [OF assms, of k] lookup_entries [OF assms, of k] map_of_eq_None_iff [of "entries t" k]
    by (simp add: lookup_value_def)
qed

lemma set_value_wf:
  assumes wf: "table_wf t"
  shows "table_wf (set_value k v now t)"
proof -
  have ent: "distinct (map fst (entries t))" "[] \<notin> fst ` set (entries t)" using wf by (simp_all add: table_wf_entries)
  have "distinct (map fst (push_entries k (take VAL_LEN v, now) t)) \<and> [] \<notin> fst ` set (push_entries k (take VAL_LEN v, now) t)"
  proof (cases "find_slot t k")
    case None
    then show ?thesis using ent find_slot_entries(2) [OF wf None] find_slot_iff(2) [OF wf, of k]
      by (auto simp: push_entries_def accepts_def)
  next
    case (Some i)
    note i = find_slot_entries(1) [OF wf Some]
    have "map fst ((entries t)[i := (k, take VAL_LEN v, now)]) = map fst (entries t)"
      using i by (intro nth_equalityI) (auto simp: nth_list_update)
    then show ?thesis using ent Some by (simp add: push_entries_def) (metis list.set_map)
  qed
  then show ?thesis
    using set_value_step(2-4) [OF wf, of k v now] by (simp add: table_wf_entries set_value_step(1) [OF wf])
qed

lemma lookup_set_value:
  assumes wf: "table_wf t"
  shows "lookup_value (set_value k v now t) k' =
    (if accepts t k \<and> k' = k then Some (take VAL_LEN v, now) else lookup_value t k')"
proof (cases "find_slot t k")
  case None
  have "map_of (entries t) k = None"
    using find_slot_entries(2) [OF wf None] by (simp add: map_of_eq_None_iff)
  then show ?thesis using None
    by (auto simp: lookup_entries set_value_wf [OF wf] wf set_value_step(1) [OF wf] push_entries_def
        map_add_def split: option.splits)
next
  case (Some i)
  note i = find_slot_entries(1) [OF wf Some]
  have "accepts t k" using find_slot_iff(2) [OF wf, of k] Some by (simp add: accepts_def)
  moreover have "map_of ((entries t)[i := (k, take VAL_LEN v, now)]) = (map_of (entries t))(k \<mapsto> (take VAL_LEN v, now))"
    using i wf by (intro map_of_update) (auto simp: table_wf_entries)
  ultimately show ?thesis
    using Some by (simp add: lookup_entries set_value_wf [OF wf] wf set_value_step(1) [OF wf] push_entries_def)
qed

lemma table_new_wf: "table_wf table_new"
  by (simp add: table_wf_def table_new_def table_iter_def slot_wf_def value_empty_def)

definition push :: "u8 list \<Rightarrow> u8 list \<times> int \<Rightarrow> value_table \<Rightarrow> value_table" where
  "push k = (\<lambda>(v, now). set_value k v now)"

interpretation vals: value_feed lookup_value push "\<lambda>(v, now). (take VAL_LEN v, now)" accepts table_wf
proof
  fix t :: value_table and k k' :: "u8 list" and w :: "u8 list \<times> int"
  assume wf: "table_wf t"
  show "table_wf (push k w t)" using set_value_wf [OF wf] by (simp add: push_def split_beta)
  show "lookup_value (push k w t) k' =
      (if accepts t k \<and> k' = k then Some ((\<lambda>(v, now). (take VAL_LEN v, now)) w) else lookup_value t k')"
    using lookup_set_value [OF wf] by (simp add: push_def split_beta)
  show "lookup_value t k \<noteq> None \<Longrightarrow> accepts t k" by (simp add: lookup_value_def accepts_def)
qed



text \<open>
  However values are pushed, a key a program has once seen answers with the last value pushed
  to it, cut to 64 bytes: no push of another key, and no number of them, takes it away.
\<close>

theorem last_value_shown:
  assumes "table_wf t" and "lookup_value t k = Some old"
  shows "lookup_value (fold (\<lambda>(k, w). push k w) ps t) k =
    Some (case filter (\<lambda>p. fst p = k) ps of [] \<Rightarrow> old
          | qs \<Rightarrow> (take 64 (fst (snd (last qs))), snd (snd (last qs))))"
  using vals.look_pushes [OF assms(1), of k ps] assms(2) unfolding vals.latest_def
  by (simp add: VAL_LEN_def split_beta split: list.splits)

theorem last_value_shown_witness:
  "lookup_value (fold (\<lambda>(k, w). push k w) [([1], [9], 7), ([2], [8], 8), ([1], [6], 9)]
     (set_value [1] [5] 1 table_new)) [1] = Some ([6], 9)"
proof -
  have "lookup_value (set_value [1] [5] 1 table_new) [1] = Some ([5], 1)"
    using lookup_set_value [OF table_new_wf, of "[1]" "[5]" 1 "[1]"]
    by (simp add: accepts_def table_new_def MAX_VALUES_def KEY_LEN_def VAL_LEN_def)
  from last_value_shown [OF set_value_wf [OF table_new_wf] this, of "[([1], [9], 7), ([2], [8], 8), ([1], [6], 9)]"]
  show ?thesis by simp
qed

text \<open>
  C22. A value is cut at 64 bytes wherever that falls: the bytes that \<^verbatim>\<open>value()\<close> hands out as
  a string without a check need not be UTF-8, although the pushed value was.
\<close>

theorem cut_value_not_utf8:
  "let v = as_bytes (replicate 63 65 @ [233]); t = set_value [0x6B] v 1 table_new in
   from_utf8 v \<noteq> None \<and> from_utf8 (value_text t [0x6B]) = None"
proof -
  let ?v = "as_bytes (replicate 63 65 @ [233])"
  have ok: "from_utf8 ?v = Some (replicate 63 65 @ [233])"
    by (rule from_as_bytes) (simp add: scalar_def list_all_iff)
  have v: "?v = replicate 63 0x41 @ [0xC3, 0xA9]"
    by (simp add: as_bytes_def enc_char_def concat_replicate_single)
  have bad: "from_utf8 (replicate n 0x41 @ [0xC3]) = None" for n
    by (induction n) (simp_all add: from_utf8.simps dec_char_def Let_def)
  have "value_text (set_value [0x6B] ?v 1 table_new) [0x6B] = take 64 ?v"
    using lookup_set_value [OF table_new_wf, of "[0x6B]" ?v 1 "[0x6B]"] unfolding v
    by (auto simp: value_text_def lookup_value_def accepts_def table_new_def MAX_VALUES_def KEY_LEN_def VAL_LEN_def
        slot_value_def split: option.splits)
  then show ?thesis using ok bad [of 63] unfolding Let_def v by simp
qed

end
