(* ===== verification/Panel_Program.thy ===== *)
theory Panel_Program
  imports Value_Table
begin

text \<open>
  \<^verbatim>\<open>src/program.rs\<close>: what a program on the panel is written against: colours and the
  palette, the sine table, the inverse rotation, the hash, and the values of the feed.
  \<^verbatim>\<open>i32\<close> is \<^typ>\<open>int\<close>, wrapped after each operation; \<^verbatim>\<open>usize\<close> is a 32-bit word.
\<close>

unbundle bit_operations_syntax

type_synonym usize = u32

definition w32 :: "int \<Rightarrow> int" where "w32 v = signed_take_bit 31 v"

lemma w32_id: "- 2147483648 \<le> v \<Longrightarrow> v < 2147483648 \<Longrightarrow> w32 v = v"
  by (simp add: w32_def signed_take_bit_int_eq_self)

definition BG :: u8 where [src_consts]: "BG = 0"
definition SLATE :: u8 where [src_consts]: "SLATE = 1"
definition BRASS :: u8 where [src_consts]: "BRASS = 2"
definition ALERT :: u8 where [src_consts]: "ALERT = 3"
definition RAMP_WHITE :: u8 where [src_consts]: "RAMP_WHITE = 16"
definition RAMP_BRASS :: u8 where [src_consts]: "RAMP_BRASS = 32"
definition RAMP_SLATE :: u8 where [src_consts]: "RAMP_SLATE = 48"
definition RAMP_WATER :: u8 where [src_consts]: "RAMP_WATER = 192"
definition RAMP_BULB :: u8 where [src_consts]: "RAMP_BULB = 208"
definition RAINBOW :: u8 where [src_consts]: "RAINBOW = 64"
definition RAINBOW_LEN :: u16 where [src_consts]: "RAINBOW_LEN = 128"

definition rgb :: "u8 \<Rightarrow> u8 \<Rightarrow> u8 \<Rightarrow> u32" where
  "rgb r g b = push_bit 16 (ucast b) OR push_bit 8 (ucast g) OR ucast r"

section \<open>The default palette\<close>

definition ramp_entry :: "nat \<Rightarrow> nat \<times> nat \<times> nat \<Rightarrow> u32" where
  "ramp_entry step = (\<lambda>(r, g, b). rgb (of_nat (r * step div 15)) (of_nat (g * step div 15)) (of_nat (b * step div 15)))"

definition rainbow_entry :: "nat \<Rightarrow> u32" where
  "rainbow_entry t =
     (let len = unat RAINBOW_LEN; seg = t * 6 div len; f = (t * 6 mod len) * 255 div len;
          (r, g, b) =
            (if seg = 0 then (255, f, 0) else if seg = 1 then (255 - f, 255, 0) else if seg = 2 then (0, 255, f)
             else if seg = 3 then (0, 255 - f, 255) else if seg = 4 then (f, 0, 255) else (255, 0, 255 - f)) in
      rgb (of_nat r) (of_nat g) (of_nat b))"

definition in_ramp :: "u8 \<Rightarrow> nat \<Rightarrow> bool" where
  "in_ramp base i \<longleftrightarrow> unat base \<le> i \<and> i < unat base + 16"

definition palette_default :: "nat \<Rightarrow> u32" where
  "palette_default i =
     (if i = 0 then rgb 0 0 0 else if i = 1 then rgb 95 127 176
      else if i = 2 then rgb 201 168 76 else if i = 3 then rgb 220 40 40
      else if in_ramp RAMP_WATER i then ramp_entry (i - unat RAMP_WATER) (74, 159, 208)
      else if in_ramp RAMP_SLATE i then ramp_entry (i - unat RAMP_SLATE) (95, 127, 176)
      else if in_ramp RAMP_BRASS i then ramp_entry (i - unat RAMP_BRASS) (201, 168, 76)
      else if in_ramp RAMP_WHITE i then ramp_entry (i - unat RAMP_WHITE) (255, 255, 255)
      else if unat RAINBOW \<le> i \<and> i < unat RAINBOW + unat RAINBOW_LEN then rainbow_entry (i - unat RAINBOW)
      else rgb 0 0 0)"

definition palette :: "u32 list" where
  "palette = map palette_default [0..<256]"

section \<open>Rotation and hash\<close>

definition SIN64 :: "int list" where
  "SIN64 = [0,25,50,74,98,121,142,162,181,198,213,226,237,245,251,255,
     256,255,251,245,237,226,213,198,181,162,142,121,98,74,50,25,
     0,-25,-50,-74,-98,-121,-142,-162,-181,-198,-213,-226,-237,-245,-251,-255,
     -256,-255,-251,-245,-237,-226,-213,-198,-181,-162,-142,-121,-98,-74,-50,-25]"

definition sin64 :: "usize \<Rightarrow> int" where
  "sin64 a = SIN64 ! unat (a AND 63)"

definition cos64 :: "usize \<Rightarrow> int" where
  "cos64 a = SIN64 ! unat ((a + 16) AND 63)"

definition unrotate :: "usize \<Rightarrow> usize \<Rightarrow> int \<Rightarrow> int \<Rightarrow> usize \<Rightarrow> int \<times> int" where
  "unrotate x y cx cy a =
     (let dx = w32 (sint x - cx); dy = w32 (sint y - cy); s = sin64 a; c = cos64 a in
      (w32 (w32 (w32 (dx * c) + w32 (dy * s)) div 256 + cx),
       w32 (w32 (w32 (dy * c) - w32 (dx * s)) div 256 + cy)))"

definition hash2 :: "usize \<Rightarrow> usize \<Rightarrow> u32" where
  "hash2 x y =
     (let v = x XOR push_bit 16 y XOR drop_bit 3 y;
          v = v XOR push_bit 13 v;
          v = v XOR drop_bit 17 v in
      v XOR push_bit 5 v)"

section \<open>The context of a frame\<close>

record ctx =
  c_w :: usize
  c_h :: usize
  c_frame :: u32
  c_time :: int
  c_values :: value_table

definition ctx_val :: "ctx \<Rightarrow> u8 list \<Rightarrow> u8 list" where
  "ctx_val c key = value_text (c_values c) key"

definition sat32 :: "int \<Rightarrow> int" where
  "sat32 v = max (- (2 ^ 31)) (min (2 ^ 31 - 1) v)"

fun int_loop :: "u8 list \<Rightarrow> int \<Rightarrow> bool \<Rightarrow> int \<times> bool" where
  "int_loop [] v any = (v, any)"
| "int_loop (b # bs) v any =
     (if \<not> (0x30 \<le> b \<and> b \<le> 0x39) then (v, any)
      else int_loop bs (sat32 (sat32 (v * 10) + uint (b - 0x30))) True)"

definition ctx_int :: "ctx \<Rightarrow> u8 list \<Rightarrow> int option" where
  "ctx_int c key =
     (let t = ctx_val c key;
          (neg, digits) = (if t \<noteq> [] \<and> hd t = 0x2D then (True, tl t) else (False, t));
          (v, any) = int_loop digits 0 False in
      if any then Some (if neg then w32 (- v) else v) else None)"

definition stale_ms :: "ctx \<Rightarrow> int" where
  "stale_ms c = stale_for_ms (c_values c) (c_time c)"

section \<open>Facts\<close>

lemma SIN64_bound: "k < 64 \<Longrightarrow> \<bar>SIN64 ! k\<bar> \<le> 256"
proof -
  have "list_all (\<lambda>v. \<bar>v\<bar> \<le> 256) SIN64" by (simp add: SIN64_def)
  moreover have "length SIN64 = 64" by (simp add: SIN64_def)
  ultimately show "k < 64 \<Longrightarrow> \<bar>SIN64 ! k\<bar> \<le> 256" by (simp add: list_all_length)
qed

lemma and_63: "unat (a AND 63 :: usize) = unat a mod 64"
proof -
  have "a AND 63 = take_bit 6 a" by (simp add: take_bit_eq_mask mask_eq_exp_minus_1)
  then have "unat (a AND 63) = take_bit 6 (unat a)" by (simp only: unsigned_take_bit_eq)
  then show ?thesis by (simp add: take_bit_eq_mod)
qed

lemma sin64_bound: "\<bar>sin64 a\<bar> \<le> 256" "\<bar>cos64 a\<bar> \<le> 256"
  by (simp_all add: sin64_def cos64_def and_63 SIN64_bound)

lemma sat32_range: "0 \<le> v \<Longrightarrow> 0 \<le> sat32 v" "sat32 v < 2 ^ 31"
  by (simp_all add: sat32_def)

lemma int_loop_range:
  "0 \<le> v \<Longrightarrow> v < 2 ^ 31 \<Longrightarrow> 0 \<le> fst (int_loop bs v any) \<and> fst (int_loop bs v any) < 2 ^ 31"
proof (induction bs v any rule: int_loop.induct)
  case (2 b bs v any)
  have "0 \<le> sat32 (sat32 (v * 10) + uint (b - 0x30))" "sat32 (sat32 (v * 10) + uint (b - 0x30)) < 2 ^ 31"
    using 2(2) sat32_range(2) by (auto intro!: sat32_range(1) add_nonneg_nonneg)
  then show ?case using 2 by simp
qed simp

end
