(* ===== verification/Panel_Sprite.thy ===== *)
theory Panel_Sprite
  imports Panel_Program
begin

text \<open>
  \<^verbatim>\<open>src/sprite.rs\<close>: 4-bit coverage sprites and fonts, asked for one pixel at a time.
  The outer \<^const>\<open>None\<close> is a panic (an index past the asset's data), the inner one is
  "nothing here". A string is its code points; its bytes are \<^const>\<open>as_bytes\<close>.
\<close>

unbundle bit_operations_syntax

type_synonym cover = "u8 option option"

record sprite =
  sp_w :: u16
  sp_h :: u16
  sp_data :: "u8 list"

definition sprite_cover :: "sprite \<Rightarrow> usize \<Rightarrow> usize \<Rightarrow> cover" where
  "sprite_cover sp x y =
     (if x \<ge> ucast (sp_w sp) \<or> y \<ge> ucast (sp_h sp) then Some None
      else let i = y * ucast (sp_w sp) + x; k = unat (drop_bit 1 i) in
        if k \<ge> length (sp_data sp) then None
        else let b = sp_data sp ! k in
          Some (Some (if i AND 1 = 0 then drop_bit 4 b else b AND 0x0F)))"

text \<open>\<^verbatim>\<open>Some(0) | None => None\<close>: no coverage is nothing to draw.\<close>

definition inked :: "cover \<Rightarrow> cover" where
  "inked = map_option (\<lambda>c. if c = Some 0 then None else c)"

definition sprite_cover_at :: "sprite \<Rightarrow> usize \<Rightarrow> usize \<Rightarrow> usize \<Rightarrow> usize \<Rightarrow> cover" where
  "sprite_cover_at sp x y ox oy =
     (if x < ox \<or> y < oy then Some None else inked (sprite_cover sp (x - ox) (y - oy)))"

record glyph =
  g_ch :: nat
  g_sprite :: sprite
  g_xoff :: int
  g_yoff :: int
  g_advance :: u16

record font =
  f_glyphs :: "glyph list"
  f_ascent :: u16
  f_line_height :: u16
  f_fixed :: u16
  f_adv_shift :: u8
  f_ascii :: "u8 list"

definition font_glyph :: "font \<Rightarrow> nat \<Rightarrow> glyph option" where
  "font_glyph f c =
     (if 32 \<le> c \<and> c < 128 then
        (let i = f_ascii f ! (c - 32) in
         if i \<noteq> 255 then (if unat i < length (f_glyphs f) then Some (f_glyphs f ! unat i) else None) else None)
      else find (\<lambda>g. g_ch g = c) (f_glyphs f))"

text \<open>The cell of a virtual column and the offset in it, by shift when the advance is a power of two.\<close>

definition cell_of :: "font \<Rightarrow> usize \<Rightarrow> usize \<times> usize" where
  "cell_of f v =
     (let adv = ucast (f_fixed f) in
      if f_adv_shift f > 0 then (drop_bit (unat (f_adv_shift f) mod 32) v, v AND (adv - 1))
      else (v div adv, v mod adv))"

text \<open>One glyph of a fixed-advance face, at an offset in its cell.\<close>

definition cell_cover :: "font \<Rightarrow> nat \<Rightarrow> usize \<Rightarrow> usize \<Rightarrow> usize \<Rightarrow> cover" where
  "cell_cover f ch off y oy =
     (case font_glyph f ch of
        None \<Rightarrow> Some None
      | Some g \<Rightarrow>
         let gx = w32 (sint off - g_xoff g);
             gy = w32 (sint y - w32 (w32 (sint oy + uint (f_ascent f)) + g_yoff g)) in
         if gx < 0 \<or> gy < 0 then Some None
         else inked (sprite_cover (g_sprite g) (word_of_int gx) (word_of_int gy)))"

text \<open>The glyph of a byte of the text, a panic when there is no such byte.\<close>

definition byte_cell :: "font \<Rightarrow> u8 list \<Rightarrow> usize \<Rightarrow> usize \<Rightarrow> usize \<Rightarrow> usize \<Rightarrow> cover" where
  "byte_cell f b i off y oy =
     (if unat i < length b then cell_cover f (unat (b ! unat i)) off y oy else None)"

definition cover_scroll :: "font \<Rightarrow> str \<Rightarrow> usize \<Rightarrow> usize \<Rightarrow> usize \<Rightarrow> cover" where
  "cover_scroll f s vx y oy =
     (let adv = (ucast (f_fixed f) :: usize) in
      if adv = 0 \<or> s = [] \<or> y < oy \<or> y \<ge> oy + ucast (f_line_height f) then Some None
      else
       let b = as_bytes s; (cell, off) = cell_of f vx; n = (of_nat (length b) :: usize);
           ci = (if n AND (n - 1) = 0 then cell AND (n - 1) else cell mod n) in
       byte_cell f b ci off y oy)"

definition glyph_advance :: "font \<Rightarrow> nat \<Rightarrow> usize" where
  "glyph_advance f c = (case font_glyph f c of Some g \<Rightarrow> ucast (g_advance g) | None \<Rightarrow> 0)"

definition font_width :: "font \<Rightarrow> str \<Rightarrow> usize" where
  "font_width f s = sum_list (map (glyph_advance f) s)"

text \<open>The walk along the run for a proportional face.\<close>

fun walk :: "font \<Rightarrow> usize \<Rightarrow> usize \<Rightarrow> usize \<Rightarrow> int \<Rightarrow> str \<Rightarrow> cover" where
  "walk f x y oy pen [] = Some None"
| "walk f x y oy pen (ch # s) =
     (case font_glyph f ch of
        None \<Rightarrow> walk f x y oy pen s
      | Some g \<Rightarrow>
         let gx = w32 (pen + g_xoff g); gy = w32 (w32 (sint oy + uint (f_ascent f)) + g_yoff g);
             pen' = w32 (pen + uint (g_advance g));
             next = (if pen' > w32 (sint x + 64) then Some None else walk f x y oy pen' s) in
         if sint x \<ge> gx \<and> sint y \<ge> gy
         then (case sprite_cover (g_sprite g) (word_of_int (w32 (sint x - gx))) (word_of_int (w32 (sint y - gy))) of
                 None \<Rightarrow> None
               | Some (Some c) \<Rightarrow> if c \<noteq> 0 then Some (Some c) else next
               | Some None \<Rightarrow> next)
         else next)"

definition text_cover_at :: "font \<Rightarrow> str \<Rightarrow> usize \<Rightarrow> usize \<Rightarrow> usize \<Rightarrow> usize \<Rightarrow> cover" where
  "text_cover_at f s x y ox oy =
     (if y < oy \<or> y \<ge> oy + ucast (f_line_height f) then Some None
      else if x < ox then Some None
      else if f_fixed f > 0 then
        (let b = as_bytes s; (cell, off) = cell_of f (x - ox) in
         if cell \<ge> of_nat (length b) then Some None
         else byte_cell f b cell off y oy)
      else walk f x y oy (sint ox) s)"

section \<open>Assets that fit\<close>

definition sprite_ok :: "sprite \<Rightarrow> bool" where
  "sprite_ok sp \<longleftrightarrow> unat (sp_w sp) * unat (sp_h sp) \<le> 2 * length (sp_data sp)"

definition font_ok :: "font \<Rightarrow> bool" where
  "font_ok f \<longleftrightarrow> (\<forall>g \<in> set (f_glyphs f). sprite_ok (g_sprite g)) \<and> length (f_ascii f) = 96 \<and>
     (0 < f_adv_shift f \<longrightarrow> unat (f_adv_shift f) < 16 \<and> unat (f_fixed f) = 2 ^ unat (f_adv_shift f))"

text \<open>No panic, and ink is a nibble that is not zero.\<close>

definition ink :: "cover \<Rightarrow> bool" where
  "ink r \<longleftrightarrow> (\<exists>c. r = Some c \<and> (\<forall>v. c = Some v \<longrightarrow> 0 < unat v \<and> unat v < 16))"

lemma ink_none [simp]: "ink (Some None)"
  by (simp add: ink_def)

lemma nibbles: "unat (drop_bit 4 (b :: u8)) < 16" "unat (b AND 0x0F :: u8) < 16"
proof -
  have "b AND 0x0F = take_bit 4 b" by (simp add: take_bit_eq_mask mask_eq_exp_minus_1)
  then have "unat (b AND 0x0F) = take_bit 4 (unat b)" by (simp only: unsigned_take_bit_eq)
  then show "unat (b AND 0x0F :: u8) < 16" by (simp add: take_bit_eq_mod)
  show "unat (drop_bit 4 (b :: u8)) < 16" using unat_u8_less [of b]
    by (simp add: drop_bit_eq_div unat_div div_less_iff_less_mult)
qed

lemma unat_ucast32: "unat (ucast (w :: u16) :: u32) = unat w"
  using unat_u16_less [of w] by (simp add: unsigned_ucast_eq take_bit_nat_eq_self)

lemma sprite_cover_ok:
  assumes "sprite_ok sp"
  shows "\<exists>c. sprite_cover sp x y = Some c \<and> (\<forall>v. c = Some v \<longrightarrow> unat v < 16)"
proof (cases "x \<ge> ucast (sp_w sp) \<or> y \<ge> ucast (sp_h sp)")
  case True
  then show ?thesis by (simp add: sprite_cover_def)
next
  case False
  let ?w = "unat (sp_w sp)" and ?h = "unat (sp_h sp)" and ?i = "y * ucast (sp_w sp) + x"
  have xy: "unat x < ?w" "unat y < ?h" using False by (simp_all add: word_le_nat_alt unat_ucast32)
  have "unat y * ?w + unat x < (unat y + 1) * ?w" using xy(1) by simp
  also have "\<dots> \<le> ?h * ?w" using xy(2) by (intro mult_le_mono1) simp
  finally have lt: "unat y * ?w + unat x < ?w * ?h" by (simp add: mult.commute)
  have "?w * ?h \<le> 65535 * 65535"
    using unat_u16_less [of "sp_w sp"] unat_u16_less [of "sp_h sp"] by (intro mult_le_mono) simp_all
  then have "unat ?i = unat y * ?w + unat x"
    using lt by (simp add: unat_word_ariths unat_ucast32)
  then have "unat (drop_bit 1 ?i) < length (sp_data sp)"
    using lt assms by (simp add: sprite_ok_def drop_bit_eq_div unat_div)
  then show ?thesis using False nibbles by (auto simp: sprite_cover_def Let_def)
qed

lemma ink_inked: "sprite_ok sp \<Longrightarrow> ink (inked (sprite_cover sp x y))"
proof -
  assume "sprite_ok sp"
  then obtain c where "sprite_cover sp x y = Some c" "\<forall>v. c = Some v \<longrightarrow> unat v < 16"
    using sprite_cover_ok by blast
  then show ?thesis by (cases c) (auto simp: ink_def inked_def unat_gt_0)
qed

lemma font_glyph_ok: "font_ok f \<Longrightarrow> font_glyph f c = Some g \<Longrightarrow> sprite_ok (g_sprite g)"
  by (auto simp: font_ok_def font_glyph_def Let_def find_Some_iff split: if_splits)

lemma ink_cell: "font_ok f \<Longrightarrow> ink (cell_cover f ch off y oy)"
  using font_glyph_ok [of f ch] by (auto simp: cell_cover_def Let_def ink_inked split: option.splits)

lemma ink_walk: "font_ok f \<Longrightarrow> ink (walk f x y oy pen s)"
proof (induction f x y oy pen s rule: walk.induct)
  case (2 f x y oy pen ch s)
  show ?case
  proof (cases "font_glyph f ch")
    case None
    then show ?thesis using 2 by simp
  next
    case (Some g)
    obtain c where c: "sprite_cover (g_sprite g) (word_of_int (w32 (sint x - w32 (pen + g_xoff g))))
        (word_of_int (w32 (sint y - w32 (w32 (sint oy + uint (f_ascent f)) + g_yoff g)))) = Some c"
      "\<forall>v. c = Some v \<longrightarrow> unat v < 16"
      using sprite_cover_ok [OF font_glyph_ok [OF 2(3) Some]] by blast
    have "ink (if w32 (pen + uint (g_advance g)) > w32 (sint x + 64) then Some None
        else walk f x y oy (w32 (pen + uint (g_advance g))) s)"
      using 2(2) [OF Some refl refl refl] 2(3) by simp
    then show ?thesis using c by (auto simp: Some Let_def ink_def unat_gt_0 split: option.splits)
  qed
qed simp

text \<open>Where the advance is a power of two, the shift and the mask are the division.\<close>

lemma mask_mod: "(v :: usize) AND (2 ^ k - 1) = v mod 2 ^ k"
proof -
  have "v AND (2 ^ k - 1) = take_bit k v" by (simp add: take_bit_eq_mask mask_eq_exp_minus_1)
  then show ?thesis by (simp add: take_bit_eq_mod)
qed

lemma unat_p2: "k < 32 \<Longrightarrow> unat ((2 :: usize) ^ k) = 2 ^ k"
  using unsigned_of_nat [of "2 ^ k", where 'b = 32 and 'a = nat] power_strict_increasing [of k 32 "2 :: nat"]
  by (simp add: take_bit_nat_eq_self)

lemma fixed_power:
  assumes "font_ok f" "0 < f_adv_shift f"
  shows "(ucast (f_fixed f) :: usize) = 2 ^ unat (f_adv_shift f)" "unat (f_adv_shift f) < 16"
proof -
  show l: "unat (f_adv_shift f) < 16" using assms by (simp add: font_ok_def)
  then have "(2 :: nat) ^ unat (f_adv_shift f) < 2 ^ 32" by (intro power_strict_increasing) simp_all
  then have "unat (ucast (f_fixed f) :: usize) = unat ((2 :: usize) ^ unat (f_adv_shift f))"
    using assms l by (simp add: unat_ucast32 font_ok_def unat_p2)
  then show "(ucast (f_fixed f) :: usize) = 2 ^ unat (f_adv_shift f)" by (rule word_unat_eq_iff [THEN iffD2])
qed

lemma cell_of_div:
  assumes "font_ok f"
  shows "cell_of f v = (v div ucast (f_fixed f), v mod ucast (f_fixed f))"
proof (cases "0 < f_adv_shift f")
  case True
  note p = fixed_power [OF assms True]
  have "unat (f_adv_shift f) mod 32 = unat (f_adv_shift f)" using p(2) by simp
  then show ?thesis using True by (simp add: cell_of_def p(1) mask_mod drop_bit_eq_div Let_def)
next
  case False
  then show ?thesis by (simp add: cell_of_def Let_def)
qed

text \<open>The mask for a message whose length is a power of two is a remainder too.\<close>

lemma nat_power_of_two: "0 < n \<Longrightarrow> n AND (n - 1) = 0 \<Longrightarrow> \<exists>k. n = (2 :: nat) ^ k"
proof (induction n rule: less_induct)
  case (less n)
  show ?case
  proof (cases "even n")
    case False
    then have "n AND (n - 1) = n - 1"
      using less.prems by (auto elim!: oddE simp: and_nat_rec [of "Suc (2 * _)"])
    then show ?thesis using less.prems by (intro exI [of _ 0]) simp
  next
    case True
    then obtain m where m: "n = 2 * m" by (elim evenE)
    then have pos: "0 < m" using less.prems by simp
    have "n - 1 = 2 * (m - 1) + 1" using m pos by simp
    then have "n AND (n - 1) = 2 * (m AND (m - 1))"
      using m by (simp add: and_nat_rec [of "2 * m"])
    then have "m AND (m - 1) = 0" using less.prems by simp
    then obtain k where "m = 2 ^ k" using less.IH [of m] m pos by auto
    then show ?thesis using m by (intro exI [of _ "Suc k"]) simp
  qed
qed

lemma power_mask:
  assumes "n AND (n - 1) = 0" "n \<noteq> (0 :: usize)"
  shows "c AND (n - 1) = c mod n"
proof -
  have pos: "0 < unat n" using assms(2) by (simp add: unat_gt_0)
  then have "unat (n - 1) = unat n - 1" using unat_minus_one [OF assms(2)] by simp
  moreover have "unat n AND unat (n - 1) = 0"
    using arg_cong [OF assms(1), of unat] by (simp add: unsigned_and_eq)
  ultimately obtain k where k: "unat n = 2 ^ k" using nat_power_of_two [of "unat n"] pos by auto
  have "k < 32"
  proof (rule ccontr)
    assume "\<not> k < 32"
    then have "(2 :: nat) ^ 32 \<le> 2 ^ k" by (intro power_increasing) simp_all
    then show False using k unat_u32_less [of n] by simp
  qed
  then have "n = 2 ^ k" using k by (intro word_unat_eq_iff [THEN iffD2]) (simp add: unat_p2)
  then show ?thesis by (simp add: mask_mod)
qed

section \<open>Scrolling\<close>

text \<open>A tape in terms of plain divisions; the code's shifts and masks compute the same.\<close>

definition tape :: "font \<Rightarrow> str \<Rightarrow> usize \<Rightarrow> usize \<Rightarrow> usize \<Rightarrow> cover" where
  "tape f s v y oy =
     (let adv = unat (f_fixed f); b = as_bytes s in
      cell_cover f (unat (b ! (unat v div adv mod length b))) (of_nat (unat v mod adv)) y oy)"

definition in_band :: "font \<Rightarrow> usize \<Rightarrow> usize \<Rightarrow> bool" where
  "in_band f y oy \<longleftrightarrow> oy \<le> y \<and> y < oy + ucast (f_line_height f)"

lemma as_bytes_ne: "s \<noteq> [] \<Longrightarrow> as_bytes s \<noteq> []"
  by (cases s) (simp_all add: as_bytes_def enc_char_nonempty)

lemma cover_scroll_tape:
  assumes ok: "font_ok f" and adv: "0 < f_fixed f" and s: "s \<noteq> []" "length (as_bytes s) < 2 ^ 32"
  shows "cover_scroll f s v y oy = (if in_band f y oy then tape f s v y oy else Some None)"
proof -
  let ?adv = "ucast (f_fixed f) :: usize" and ?n = "of_nat (length (as_bytes s)) :: usize"
  have "0 < unat ?adv" using adv by (metis unat_gt_0 word_gt_0 unat_ucast32)
  then have a: "?adv \<noteq> 0" by (metis unat_0 less_irrefl)
  have n: "unat ?n = length (as_bytes s)" using s(2) by (simp add: unat_of_nat)
  have n0: "?n \<noteq> 0" using as_bytes_ne [OF s(1)] n by (metis length_0_conv unat_0)
  have ci: "(if ?n AND (?n - 1) = 0 then c AND (?n - 1) else c mod ?n) = c mod ?n" for c
    using power_mask [OF _ n0] by simp
  have "unat (v div ?adv mod ?n) = unat v div unat (f_fixed f) mod length (as_bytes s)"
    by (simp add: unat_mod unat_div unat_ucast32 n)
  moreover have "v mod ?adv = of_nat (unat v mod unat (f_fixed f))"
    by (rule word_unat_eq_iff [THEN iffD2])
      (use unat_u32_less [of v] in \<open>simp add: unat_mod unat_ucast32 unat_of_nat take_bit_nat_eq_self
        order.strict_trans1 [OF mod_less_eq_dividend]\<close>)
  ultimately show ?thesis
    using a s(1) as_bytes_ne [OF s(1)]
    by (auto simp: cover_scroll_def Let_def cell_of_div [OF ok] ci byte_cell_def tape_def in_band_def)
qed

lemma tape_period:
  assumes "0 < f_fixed f" "s \<noteq> []" "unat v + k * (length (as_bytes s) * unat (f_fixed f)) < 2 ^ 32"
  shows "tape f s (v + of_nat (k * (length (as_bytes s) * unat (f_fixed f)))) y oy = tape f s v y oy"
proof -
  let ?adv = "unat (f_fixed f)" and ?l = "length (as_bytes s)"
  have "unat (v + of_nat (k * (?l * ?adv))) = unat v + (k * ?l) * ?adv"
    using assms(3) by (simp add: unat_word_ariths unat_of_nat mult.assoc del: of_nat_mult)
  moreover have "0 < ?adv" using assms(1) by (metis unat_gt_0 word_gt_0)
  ultimately show ?thesis by (simp add: tape_def Let_def)
qed

section \<open>A fixed-advance face\<close>

lemma uint_small: "unat (x :: usize) < n \<Longrightarrow> uint x < int n"
  by (metis of_nat_less_iff uint_nat)

lemma sint_small: "unat (x :: usize) < 2 ^ 31 \<Longrightarrow> sint x = uint x"
  using uint_small [of x "2 ^ 31"] unfolding sint_uint
  by (intro signed_take_bit_int_eq_self) (simp_all add: order.trans [OF _ unsigned_greater_eq])

text \<open>Every glyph a text uses keeps inside its cell, and nothing is near the edge of \<^verbatim>\<open>i32\<close>.\<close>

definition monospaced :: "font \<Rightarrow> str \<Rightarrow> bool" where
  "monospaced f s \<longleftrightarrow> 0 < f_fixed f \<and> (\<forall>c \<in> set s. c < 128 \<and> (\<exists>g. font_glyph f c = Some g \<and>
     g_advance g = f_fixed f \<and> 0 \<le> g_xoff g \<and> g_xoff g + uint (sp_w (g_sprite g)) \<le> uint (f_fixed f) \<and>
     - (2 ^ 15) \<le> g_yoff g \<and> g_yoff g < 2 ^ 15))"

lemma cover_right: "uint (ucast (sp_w sp) :: usize) \<le> i \<Longrightarrow> i < 2 ^ 32 \<Longrightarrow> sprite_cover sp (word_of_int i) y = Some None"
proof -
  assume "uint (ucast (sp_w sp) :: usize) \<le> i" "i < 2 ^ 32"
  moreover have "0 \<le> uint (ucast (sp_w sp) :: usize)" by simp
  ultimately have "i mod 2 ^ 32 = i" by (intro mod_pos_pos_trivial) linarith+
  then have "ucast (sp_w sp) \<le> (word_of_int i :: usize)"
    using \<open>uint (ucast (sp_w sp) :: usize) \<le> i\<close> by (simp add: word_le_def uint_word_of_int)
  then show ?thesis by (simp add: sprite_cover_def)
qed

lemma sint_word_of_int_small: "0 \<le> d \<Longrightarrow> d < 2147483648 \<Longrightarrow> sint (word_of_int d :: usize) = d"
  by (simp add: sint_uint uint_word_of_int signed_take_bit_int_eq_self)

lemma uint_ucast32: "uint (ucast (w :: u16) :: u32) = uint w"
  using unat_ucast32 [of w] by (metis uint_nat)

text \<open>One step of the walk: the cell under the pixel is asked, the others answer nothing.\<close>

lemma walk_step:
  assumes g: "font_glyph f c = Some g" "g_advance g = f_fixed f" "0 \<le> g_xoff g"
      "g_xoff g + uint (sp_w (g_sprite g)) \<le> uint (f_fixed f)" "- (2 ^ 15) \<le> g_yoff g" "g_yoff g < 2 ^ 15"
    and x: "unat x < 2 ^ 30" "unat y < 2 ^ 30" "unat oy < 2 ^ 30"
    and pen: "0 \<le> pen" "pen + uint (f_fixed f) < 2 ^ 30"
    and past: "uint x < pen + uint (f_fixed f) \<longrightarrow> walk f x y oy (pen + uint (f_fixed f)) s = Some None"
  shows "walk f x y oy pen (c # s) =
    (if pen \<le> uint x \<and> uint x < pen + uint (f_fixed f) then cell_cover f c (word_of_int (uint x - pen)) y oy
     else if uint x < pen then Some None else walk f x y oy (pen + uint (f_fixed f)) s)"
proof -
  let ?X = "uint x" and ?Y = "uint y" and ?A = "uint (f_fixed f)" and ?sp = "g_sprite g"
  have sx: "sint x = ?X" "sint y = ?Y" "sint oy = uint oy" using x by (simp_all add: sint_small)
  have p: "0 \<le> pen" "pen + ?A < 1073741824" "- 32768 \<le> g_yoff g" "g_yoff g < 32768" using pen g by simp_all
  have b: "?X < 1073741824" "?Y < 1073741824" "uint oy < 1073741824" "0 \<le> ?X" "0 \<le> ?Y" "0 \<le> uint oy"
    using uint_small [of x "2 ^ 30"] uint_small [of y "2 ^ 30"] uint_small [of oy "2 ^ 30"] x by simp_all
  have a16: "0 \<le> ?A" "?A < 65536" "0 \<le> uint (f_ascent f)" "uint (f_ascent f) < 65536" "0 \<le> uint (sp_w ?sp)"
    using uint_lt2p [of "f_fixed f"] uint_lt2p [of "f_ascent f"] by simp_all
  let ?gy = "uint oy + uint (f_ascent f) + g_yoff g" and ?gx = "pen + g_xoff g"
  have w1: "w32 ?gx = ?gx" by (rule w32_id; use g(3,4) a16 b p in linarith)
  have w2: "w32 (w32 (sint oy + uint (f_ascent f)) + g_yoff g) = ?gy"
  proof -
    have "w32 (uint oy + uint (f_ascent f)) = uint oy + uint (f_ascent f)"
      by (rule w32_id; use g(3,4) a16 b p in linarith)
    moreover have "w32 ?gy = ?gy" by (rule w32_id; use g(3,4) a16 b p in linarith)
    ultimately show ?thesis unfolding sx by simp
  qed
  have w3: "w32 (sint x + 64) = ?X + 64" unfolding sx by (rule w32_id; use g(3,4) a16 b p in linarith)
  have w4: "w32 (pen + uint (g_advance g)) = pen + ?A" unfolding g(2) by (rule w32_id; use g(3,4) a16 b p in linarith)
  have w5: "w32 (?X - ?gx) = ?X - ?gx" by (rule w32_id; use g(3,4) a16 b p in linarith)
  have w6: "w32 (?Y - ?gy) = ?Y - ?gy" by (rule w32_id; use g(3,4) a16 b p in linarith)
  note w = w1 w2 w3 w4 w5 w6
  have nxt: "(if w32 (pen + uint (g_advance g)) > w32 (sint x + 64) then Some None
      else walk f x y oy (w32 (pen + uint (g_advance g))) s) =
    (if ?X < pen + ?A then Some None else walk f x y oy (pen + ?A) s)"
    using past unfolding w by auto
  let ?here = "sprite_cover ?sp (word_of_int (?X - ?gx)) (word_of_int (?Y - ?gy))"
  let ?next = "if ?X < pen + ?A then Some None else walk f x y oy (pen + ?A) s"
  have wk: "walk f x y oy pen (c # s) =
    (if ?gx \<le> ?X \<and> ?gy \<le> ?Y then (case ?here of None \<Rightarrow> None
        | Some (Some v) \<Rightarrow> if v \<noteq> 0 then Some (Some v) else ?next | Some None \<Rightarrow> ?next) else ?next)"
    unfolding walk.simps g(1) option.case Let_def w1 w2 nxt unfolding sx w5 w6 by (rule refl)
  consider (before) "?X < pen" | (in_cell) "pen \<le> ?X" "?X < pen + ?A" | (after) "pen + ?A \<le> ?X" by linarith
  then show ?thesis
  proof cases
    case before
    then have "?X < pen + ?A" "\<not> ?gx \<le> ?X" "\<not> pen \<le> ?X" using g(3) a16(1) by linarith+
    then show ?thesis using before unfolding wk by simp
  next
    case in_cell
    have off: "sint (word_of_int (?X - pen) :: usize) = ?X - pen"
      by (rule sint_word_of_int_small; use in_cell a16 in linarith)
    have off2: "w32 (?X - pen - g_xoff g) = ?X - ?gx" using w(5) by (simp only: diff_diff_eq)
    have "cell_cover f c (word_of_int (?X - pen)) y oy =
        (if ?X < ?gx \<or> ?Y < ?gy then Some None else inked ?here)"
      unfolding cell_cover_def g(1) option.case Let_def off w2 off2 unfolding sx w6 by (simp only: less_diff_eq diff_less_eq diff_less_0_iff_less add_0)
    then show ?thesis using in_cell unfolding wk
      by (auto simp: inked_def split: option.splits)
  next
    case after
    have "uint (ucast (sp_w ?sp) :: usize) \<le> ?X - ?gx" "?X - ?gx < 2 ^ 32"
      using after g(3,4) b pen(1) by (simp_all add: uint_ucast32)
    then have "?here = Some None" by (rule cover_right)
    moreover have "\<not> ?X < pen + ?A" "\<not> ?X < pen" using after a16(1) by linarith+
    ultimately show ?thesis unfolding wk by simp
  qed
qed

text \<open>The whole walk is the division of the cell path.\<close>

lemma walk_mono:
  assumes m: "monospaced f s"
    and x: "unat x < 2 ^ 30" "unat y < 2 ^ 30" "unat oy < 2 ^ 30"
    and pen: "0 \<le> pen" "pen + int (length s) * uint (f_fixed f) < 2 ^ 30"
  shows "walk f x y oy pen s =
    (if pen \<le> uint x \<and> (uint x - pen) div uint (f_fixed f) < int (length s)
     then cell_cover f (s ! nat ((uint x - pen) div uint (f_fixed f)))
            (word_of_int ((uint x - pen) mod uint (f_fixed f))) y oy
     else Some None)"
  using m pen
proof (induction s arbitrary: pen)
  case Nil
  have "0 < uint (f_fixed f)" using Nil(1) by (simp add: monospaced_def word_less_def)
  then have "0 \<le> (uint x - pen) div uint (f_fixed f)" if "pen \<le> uint x"
    using that by (simp add: pos_imp_zdiv_nonneg_iff)
  then show ?case by auto
next
  case (Cons c s)
  let ?A = "uint (f_fixed f)" and ?X = "uint x"
  have A: "0 < ?A" using Cons.prems(1) by (simp add: monospaced_def word_less_def)
  have ms: "monospaced f s" using Cons.prems(1) by (simp add: monospaced_def)
  have len: "pen + ?A + int (length s) * ?A < 2 ^ 30"
    using Cons.prems(3) by (simp add: algebra_simps)
  then have room: "pen + ?A < 2 ^ 30" using A by (smt (verit) mult_nonneg_nonneg of_nat_0_le_iff)
  note IH = Cons.IH [OF ms _ len]
  have past: "?X < pen + ?A \<longrightarrow> walk f x y oy (pen + ?A) s = Some None"
    using IH Cons.prems(2) A by simp
  obtain g where g: "font_glyph f c = Some g" "g_advance g = f_fixed f" "0 \<le> g_xoff g"
      "g_xoff g + uint (sp_w (g_sprite g)) \<le> ?A" "- (2 ^ 15) \<le> g_yoff g" "g_yoff g < 2 ^ 15"
    using Cons.prems(1) by (auto simp: monospaced_def)
  note step = walk_step [OF g x Cons.prems(2) room past]
  consider (before) "?X < pen" | (here) "pen \<le> ?X" "?X < pen + ?A" | (after) "pen + ?A \<le> ?X" by linarith
  then show ?case
  proof cases
    case before
    then show ?thesis unfolding step by simp
  next
    case here
    then have "(?X - pen) div ?A = 0" "(?X - pen) mod ?A = ?X - pen"
      by (simp_all add: div_pos_pos_trivial mod_pos_pos_trivial)
    then show ?thesis using here unfolding step by simp
  next
    case after
    let ?q = "(?X - (pen + ?A)) div ?A"
    have e: "?X - pen = (?X - (pen + ?A)) + ?A" by simp
    have d: "(?X - pen) div ?A = ?q + 1" "(?X - pen) mod ?A = (?X - (pen + ?A)) mod ?A"
      unfolding e using A by (simp_all only: div_add_self2 mod_add_self2 less_imp_neq [symmetric] not_False_eq_True)
    have q: "0 \<le> ?q" using after A by (simp add: pos_imp_zdiv_nonneg_iff)
    then have "nat (?q + 1) = Suc (nat ?q)" by simp
    then show ?thesis using after A Cons.prems(2) IH q unfolding step d by simp
  qed
qed

end
