(* ===== verification/Panel_Prim.thy ===== *)
theory Panel_Prim
  imports Panel_Sprite
begin

text \<open>
  \<^verbatim>\<open>src/prim.rs\<close>: the drawing primitives. Each is asked for one pixel and answers a palette
  index or nothing; where it may panic (a remainder by zero, a read of an asset) the answer
  is a \<^typ>\<open>cover\<close>, whose outer \<^const>\<open>None\<close> is the panic. The functions that build a
  ticker's text are the program's own and are a parameter \<open>code\<close>, applied to the pointer.
\<close>

unbundle bit_operations_syntax

section \<open>Colours and rectangles\<close>

definition hue :: "usize \<Rightarrow> u8" where
  "hue v = RAINBOW + ucast (v mod ucast RAINBOW_LEN)"

definition shade :: "u8 \<Rightarrow> u8 \<Rightarrow> u8" where
  "shade ramp c = ramp + (c AND 0x0F)"

definition edge_distance :: "ctx \<Rightarrow> usize \<Rightarrow> usize \<Rightarrow> usize" where
  "edge_distance c x y = min (min (min x y) (c_w c - 1 - x)) (c_h c - 1 - y)"

definition border :: "ctx \<Rightarrow> usize \<Rightarrow> usize \<Rightarrow> usize \<Rightarrow> u8 \<Rightarrow> u8 option" where
  "border c x y t color = (if edge_distance c x y < t then Some color else None)"

definition border_chase :: "ctx \<Rightarrow> usize \<Rightarrow> usize \<Rightarrow> usize \<Rightarrow> usize \<Rightarrow> u8 option" where
  "border_chase c x y t speed =
     (if edge_distance c x y < t then Some (hue (x + y + c_frame c * speed)) else None)"

definition rect :: "usize \<Rightarrow> usize \<Rightarrow> usize \<Rightarrow> usize \<Rightarrow> usize \<Rightarrow> usize \<Rightarrow> u8 \<Rightarrow> u8 option" where
  "rect x y ox oy w h color =
     (if x \<ge> ox \<and> x < ox + w \<and> y \<ge> oy \<and> y < oy + h then Some color else None)"

definition bar :: "usize \<Rightarrow> usize \<Rightarrow> usize \<Rightarrow> usize \<Rightarrow> usize \<Rightarrow> usize \<Rightarrow> int \<Rightarrow> int \<Rightarrow> u8 \<Rightarrow> u8 \<Rightarrow> u8 option" where
  "bar x y ox oy w h value mx fg track =
     (if x < ox \<or> x \<ge> ox + w \<or> y < oy \<or> y \<ge> oy + h then None
      else let v = (word_of_int (max 0 (min (max mx 1) value)) :: usize);
               lit = w * v div word_of_int (max mx 1) in
        Some (if x - ox < lit then fg else track))"

section \<open>Text and sprites\<close>

definition shaded :: "u8 \<Rightarrow> cover \<Rightarrow> cover" where
  "shaded ramp = map_option (map_option (shade ramp))"

definition prim_text :: "font \<Rightarrow> str \<Rightarrow> usize \<Rightarrow> usize \<Rightarrow> usize \<Rightarrow> usize \<Rightarrow> u8 \<Rightarrow> cover" where
  "prim_text f s x y ox oy ramp = shaded ramp (text_cover_at f s x y ox oy)"

definition text_centered :: "ctx \<Rightarrow> font \<Rightarrow> str \<Rightarrow> usize \<Rightarrow> usize \<Rightarrow> usize \<Rightarrow> u8 \<Rightarrow> cover" where
  "text_centered c f s x y oy ramp =
     (if y < oy \<or> y \<ge> oy + ucast (f_line_height f) then Some None
      else let tw = font_width f s; ox = (if c_w c > tw then (c_w c - tw) div 2 else 2) in
        shaded ramp (text_cover_at f s x y ox oy))"

definition scroll_text :: "ctx \<Rightarrow> font \<Rightarrow> str \<Rightarrow> usize \<Rightarrow> usize \<Rightarrow> usize \<Rightarrow> usize \<Rightarrow> u8 \<Rightarrow> cover" where
  "scroll_text c f s x y oy speed ramp =
     shaded ramp (cover_scroll f s (x + c_frame c * speed) y oy)"

definition scroll_text_rev :: "ctx \<Rightarrow> font \<Rightarrow> str \<Rightarrow> usize \<Rightarrow> usize \<Rightarrow> usize \<Rightarrow> usize \<Rightarrow> u8 \<Rightarrow> cover" where
  "scroll_text_rev c f s x y oy speed ramp =
     (let adv = (ucast (f_fixed f) :: usize) in
      if adv = 0 \<or> s = [] then Some None
      else let period = of_nat (length (as_bytes s)) * adv in
        if period = 0 then None
        else shaded ramp (cover_scroll f s (x + period - (c_frame c * speed) mod period) y oy))"

definition prim_sprite :: "sprite \<Rightarrow> usize \<Rightarrow> usize \<Rightarrow> usize \<Rightarrow> usize \<Rightarrow> u8 \<Rightarrow> cover" where
  "prim_sprite sp x y ox oy ramp = shaded ramp (sprite_cover_at sp x y ox oy)"

definition abs_diff :: "usize \<Rightarrow> usize \<Rightarrow> usize" where
  "abs_diff a b = (if a \<le> b then b - a else a - b)"

text \<open>The sample without the bounding test in front of it.\<close>

definition rotated_sample :: "sprite \<Rightarrow> usize \<Rightarrow> usize \<Rightarrow> usize \<Rightarrow> usize \<Rightarrow> usize \<Rightarrow> u8 \<Rightarrow> cover" where
  "rotated_sample sp x y cx cy angle ramp =
     (let (sx, sy) = unrotate x y (sint cx) (sint cy) angle in
      if sx < 0 \<or> sy < 0 then Some None
      else let ox = cx - ucast (sp_w sp) div 2; oy = cy - ucast (sp_h sp) div 2 in
        shaded ramp (sprite_cover_at sp (word_of_int sx) (word_of_int sy) ox oy))"

definition sprite_radius :: "sprite \<Rightarrow> usize" where
  "sprite_radius sp = ucast (max (sp_w sp) (sp_h sp)) * 3 div 4 + 1"

definition sprite_rotated :: "sprite \<Rightarrow> usize \<Rightarrow> usize \<Rightarrow> usize \<Rightarrow> usize \<Rightarrow> usize \<Rightarrow> u8 \<Rightarrow> cover" where
  "sprite_rotated sp x y cx cy angle ramp =
     (let r = sprite_radius sp in
      if abs_diff x cx > r \<or> abs_diff y cy > r then Some None
      else rotated_sample sp x y cx cy angle ramp)"

section \<open>Effects\<close>

record plasma_row =
  pr_f :: usize
  pr_ybase :: int
  pr_y :: usize

definition plasma_new :: "ctx \<Rightarrow> usize \<Rightarrow> plasma_row" where
  "plasma_new c y =
     (let f = c_frame c in \<lparr>pr_f = f, pr_ybase = sin64 (drop_bit 2 y + drop_bit 1 f), pr_y = y\<rparr>)"

definition plasma_at :: "plasma_row \<Rightarrow> usize \<Rightarrow> u8" where
  "plasma_at p x =
     (let v = w32 (w32 (sin64 (drop_bit 2 x + pr_f p) + pr_ybase p)
                + sin64 (drop_bit 2 (x + pr_y p) + drop_bit 2 (pr_f p))) in
      hue (word_of_int (w32 (v + 768) div 16) + pr_f p))"

definition plasma :: "ctx \<Rightarrow> usize \<Rightarrow> usize \<Rightarrow> u8" where
  "plasma c x y = plasma_at (plasma_new c y) x"

definition sparkle :: "ctx \<Rightarrow> usize \<Rightarrow> usize \<Rightarrow> u32 \<Rightarrow> u8 \<Rightarrow> cover" where
  "sparkle c x y one_in ramp =
     (if one_in = 0 then None
      else let seed = hash2 x y in
        if seed mod one_in \<noteq> 0 then Some None
        else let period = 30 + drop_bit 8 seed mod 40;
                 phase = (c_frame c + drop_bit 3 seed mod period) mod period in
          Some (if phase < 3 then Some (shade ramp (15 - ucast phase * 5)) else None))"

definition sweep :: "ctx \<Rightarrow> usize \<Rightarrow> usize \<Rightarrow> usize \<Rightarrow> usize \<Rightarrow> usize \<Rightarrow> usize \<Rightarrow> u8 \<Rightarrow> cover" where
  "sweep c x y oy h width speed color =
     (if y < oy \<or> y \<ge> oy + h then Some None
      else if c_w c + width = 0 then None
      else let head = (c_frame c * speed) mod (c_w c + width) in
        Some (if x + width > head \<and> x < head then Some color else None))"

definition stale_marker :: "ctx \<Rightarrow> usize \<Rightarrow> usize \<Rightarrow> int \<Rightarrow> usize \<Rightarrow> u8 \<Rightarrow> u8 option" where
  "stale_marker c x y after_ms sz color =
     (if stale_ms c > after_ms \<and> x \<ge> c_w c - sz \<and> y < sz then Some color else None)"

section \<open>Text that is built\<close>

definition utf8_or_empty :: "u8 list \<Rightarrow> str" where
  "utf8_or_empty bs = (case from_utf8 bs of Some s \<Rightarrow> s | None \<Rightarrow> [])"

fun join_parts :: "u8 list \<Rightarrow> nat \<Rightarrow> u8 list list \<Rightarrow> u8 list \<times> nat" where
  "join_parts buf n [] = (buf, n)"
| "join_parts buf n (p # ps) =
     (let k = min (length p) (length buf - n); buf' = splice n (take k p) buf in
      if n + k = length buf' then (buf', n + k) else join_parts buf' (n + k) ps)"

definition join3 :: "u8 list \<Rightarrow> str \<Rightarrow> str \<Rightarrow> str \<Rightarrow> u8 list \<times> str" where
  "join3 buf a b c =
     (let (buf', n) = join_parts buf 0 (map as_bytes [a, b, c]) in (buf', utf8_or_empty (take n buf')))"

definition MSG_LEN :: nat where [src_consts]: "MSG_LEN = 128"
definition MSG_SLOTS :: nat where [src_consts]: "MSG_SLOTS = 4"

record msg =
  m_buf :: "u8 list"
  m_len :: nat

definition msg_new :: msg where "msg_new = \<lparr>m_buf = replicate MSG_LEN 0x20, m_len = 0\<rparr>"
definition msg_clear :: "msg \<Rightarrow> msg" where "msg_clear m = m\<lparr>m_len := 0\<rparr>"
definition msg_str :: "msg \<Rightarrow> str" where "msg_str m = utf8_or_empty (take (m_len m) (m_buf m))"

definition msg_byte :: "u8 \<Rightarrow> msg \<Rightarrow> msg" where
  "msg_byte b m = (if m_len m \<ge> MSG_LEN then m else m\<lparr>m_buf := (m_buf m)[m_len m := b], m_len := m_len m + 1\<rparr>)"

definition write_str :: "str \<Rightarrow> msg \<Rightarrow> msg" where
  "write_str s m = fold msg_byte (as_bytes s) m"

definition pad_to :: "nat \<Rightarrow> msg \<Rightarrow> msg" where
  "pad_to n m = (msg_byte 0x20 ^^ (min n MSG_LEN - m_len m)) m"

record msg_slot =
  owner :: usize
  built :: u32
  s_msg :: msg

definition msg_slots :: "msg_slot list" where
  "msg_slots = replicate MSG_SLOTS \<lparr>owner = 0, built = - 1, s_msg = msg_new\<rparr>"

type_synonym builders = "usize \<Rightarrow> ctx \<Rightarrow> msg \<Rightarrow> msg"

definition slot_index :: "usize \<Rightarrow> msg_slot list \<Rightarrow> nat" where
  "slot_index key tab =
     (case find (\<lambda>i. owner (tab ! i) = key \<or> owner (tab ! i) = 0) [0..<MSG_SLOTS] of
        Some i \<Rightarrow> i | None \<Rightarrow> MSG_SLOTS - 1)"

definition cached_msg :: "builders \<Rightarrow> ctx \<Rightarrow> usize \<Rightarrow> msg_slot list \<Rightarrow> str \<times> msg_slot list" where
  "cached_msg code c key tab =
     (let i = slot_index key tab; slot = tab ! i; w = writes (c_values c);
          slot' = (if owner slot \<noteq> key \<or> built slot \<noteq> w
                   then \<lparr>owner = key, built = w, s_msg = code key c (msg_clear (s_msg slot))\<rparr> else slot) in
      (msg_str (s_msg slot'), tab[i := slot']))"

definition scroll_message ::
  "builders \<Rightarrow> ctx \<Rightarrow> font \<Rightarrow> usize \<Rightarrow> usize \<Rightarrow> usize \<Rightarrow> usize \<Rightarrow> usize \<Rightarrow> u8 \<Rightarrow> msg_slot list \<Rightarrow> cover \<times> msg_slot list" where
  "scroll_message code c f key x y oy speed ramp tab =
     (if y < oy \<or> y \<ge> oy + ucast (f_line_height f) then (Some None, tab)
      else let (s, tab') = cached_msg code c key tab in
        (shaded ramp (cover_scroll f s (x + c_frame c * speed) y oy), tab'))"

definition scroll_message_rev ::
  "builders \<Rightarrow> ctx \<Rightarrow> font \<Rightarrow> usize \<Rightarrow> usize \<Rightarrow> usize \<Rightarrow> usize \<Rightarrow> usize \<Rightarrow> u8 \<Rightarrow> msg_slot list \<Rightarrow> cover \<times> msg_slot list" where
  "scroll_message_rev code c f key x y oy speed ramp tab =
     (if y < oy \<or> y \<ge> oy + ucast (f_line_height f) then (Some None, tab)
      else let (s, tab') = cached_msg code c key tab in
        (scroll_text_rev c f s x y oy speed ramp, tab'))"

end
