(* ===== verification/Panel_Props.thy ===== *)
theory Panel_Props
  imports Panel_Prim
begin

text \<open>
  What the programs of a panel rely on from \<^verbatim>\<open>sprite.rs\<close> and \<^verbatim>\<open>prim.rs\<close>: the fast
  paths for text are the plain ones, a tape has its period, nothing panics on good assets,
  the bounding test of a turning sprite clips nothing, and a cached ticker says what an
  uncached one would.
\<close>

unbundle bit_operations_syntax

section \<open>Fixed-advance text\<close>

lemma as_bytes_ascii: "\<forall>c \<in> set s. c < 128 \<Longrightarrow> as_bytes s = map of_nat s"
  by (induction s) (simp_all add: as_bytes_def enc_char_def)

lemma byte_cell_ascii:
  assumes "\<forall>c \<in> set s. c < 128" "unat i < length s"
  shows "byte_cell f (as_bytes s) i off y oy = cell_cover f (s ! unat i) off y oy"
proof -
  have "s ! unat i < 256" using assms by (auto dest!: bspec [of _ _ "s ! unat i"])
  then show ?thesis using assms by (simp add: byte_cell_def as_bytes_ascii)
qed


text \<open>A small face for the examples: one glyph for A, four by two pixels.\<close>

definition demo_font :: font where
  "demo_font = \<lparr>f_glyphs = [\<lparr>g_ch = 65, g_sprite = \<lparr>sp_w = 3, sp_h = 2, sp_data = [0x0F, 0xF0, 0xFF]\<rparr>,
       g_xoff = 1, g_yoff = -1, g_advance = 4\<rparr>],
     f_ascent = 1, f_line_height = 2, f_fixed = 4, f_adv_shift = 2, f_ascii = (replicate 96 255)[33 := 0]\<rparr>"

lemma demo_font_ok: "font_ok demo_font" "monospaced demo_font [65, 65]"
  by (simp_all add: demo_font_def font_ok_def sprite_ok_def monospaced_def font_glyph_def)


text \<open>
  A tape repeats after the width of its text: with the offset moved by any number of whole
  widths every pixel of the band is the same, so a ticker has no seam.
\<close>

theorem tape_has_period:
  assumes "font_ok f" "0 < f_fixed f" "s \<noteq> []"
    and "unat v + k * (length (as_bytes s) * unat (f_fixed f)) < 2 ^ 32" "length (as_bytes s) < 2 ^ 32"
  shows "cover_scroll f s (v + of_nat (k * (length (as_bytes s) * unat (f_fixed f)))) y oy = cover_scroll f s v y oy"
  using cover_scroll_tape [OF assms(1-3,5)] tape_period [OF assms(2-4)] by simp

theorem tape_has_period_witness:
  "cover_scroll demo_font [65, 65, 32] (5 + 24) 0 0 = cover_scroll demo_font [65, 65, 32] 5 0 0"
  using tape_has_period [OF demo_font_ok(1), of "[65, 65, 32]" 5 2 0 0]
  by (simp add: demo_font_def as_bytes_ascii)

text \<open>
  C21. With assets that hold what their sizes promise no pixel of any text panics, and what is
  drawn is a coverage of 1 to 15: never the transparent entry, never past its ramp.
\<close>

theorem text_never_panics:
  assumes "font_ok f" "length (as_bytes s) < 2 ^ 32"
  shows "ink (text_cover_at f s x y ox oy) \<and> ink (cover_scroll f s v y oy)"
proof -
  have n: "unat (of_nat (length (as_bytes s)) :: usize) = length (as_bytes s)"
    using assms(2) by (simp add: unat_of_nat)
  have "ink (tape f s v y oy)" using ink_cell [OF assms(1)] by (simp add: tape_def Let_def)
  then have "ink (cover_scroll f s v y oy)"
    using cover_scroll_tape [OF assms(1) _ _ assms(2)]
    by (cases "f_fixed f = 0 \<or> s = []") (auto simp: cover_scroll_def word_gt_0)
  moreover have "ink (text_cover_at f s x y ox oy)"
    using ink_cell [OF assms(1)] ink_walk [OF assms(1)] n
    by (auto simp: text_cover_at_def byte_cell_def Let_def word_le_nat_alt split: prod.split)
  ultimately show ?thesis by blast
qed

theorem text_never_panics_witness: "ink (text_cover_at demo_font [65, 233] 6 0 0 0)"
  using text_never_panics [OF demo_font_ok(1), of "[65, 233]" 6 0 0 0] by (simp add: as_bytes_def enc_char_def)

section \<open>A turning sprite\<close>

lemma sin_cos_table:
  "65448 \<le> sin64 a * sin64 a + cos64 a * cos64 a" "\<bar>sin64 a\<bar> + \<bar>cos64 a\<bar> \<le> 362"
proof -
  have all: "list_all (\<lambda>k. 65448 \<le> SIN64 ! k * SIN64 ! k + SIN64 ! ((k + 16) mod 64) * SIN64 ! ((k + 16) mod 64)
      \<and> \<bar>SIN64 ! k\<bar> + \<bar>SIN64 ! ((k + 16) mod 64)\<bar> \<le> 362) [0..<64]"
    by (simp add: SIN64_def upt_rec)
  have k: "unat a mod 64 \<in> set [0..<64]" by simp
  have "unat (a + 16) mod 64 = (unat a + 16) mod 64"
    by (simp add: unat_word_ariths mod_mod_cancel)
  also have "\<dots> = (unat a mod 64 + 16) mod 64" by (simp add: mod_add_left_eq)
  finally have c: "unat (a + 16) mod 64 = (unat a mod 64 + 16) mod 64" .
  show "65448 \<le> sin64 a * sin64 a + cos64 a * cos64 a" "\<bar>sin64 a\<bar> + \<bar>cos64 a\<bar> \<le> 362"
    using all [unfolded list_all_iff, rule_format, OF k] unfolding sin64_def cos64_def and_63 c by blast+
qed

text \<open>The half-diagonal in sprite pixels, for either coordinate.\<close>

lemma rotation_bound:
  fixes c s u v m d K :: int
  assumes K: "65448 \<le> K" and cs: "\<bar>c\<bar> + \<bar>s\<bar> \<le> 362" and m: "0 \<le> m"
    and uv: "\<bar>u\<bar> \<le> 128 * m + 127" "\<bar>v\<bar> \<le> 128 * m + 127" and d: "d * K = c * u + s * v"
  shows "\<bar>d\<bar> \<le> 3 * m div 4 + 1"
proof (rule ccontr)
  assume "\<not> \<bar>d\<bar> \<le> 3 * m div 4 + 1"
  then have big: "3 * m + 5 \<le> 4 * \<bar>d\<bar>" by linarith
  have "\<bar>d\<bar> * 65448 \<le> \<bar>d\<bar> * K" using K by (intro mult_left_mono) simp_all
  also have "\<dots> = \<bar>c * u + s * v\<bar>" using K d by (metis abs_mult abs_of_nonneg order.trans zero_le_numeral)
  also have "\<dots> \<le> \<bar>c\<bar> * \<bar>u\<bar> + \<bar>s\<bar> * \<bar>v\<bar>" by (metis abs_mult abs_triangle_ineq)
  also have "\<dots> \<le> \<bar>c\<bar> * (128 * m + 127) + \<bar>s\<bar> * (128 * m + 127)"
    using uv by (intro add_mono mult_left_mono) simp_all
  also have "\<dots> = (\<bar>c\<bar> + \<bar>s\<bar>) * (128 * m + 127)" by (simp only: distrib_right)
  also have "\<dots> \<le> 362 * (128 * m + 127)" using cs m by (intro mult_right_mono) simp_all
  finally have "65448 * \<bar>d\<bar> \<le> 46336 * m + 45974" by (simp add: algebra_simps)
  moreover have "False" if "65448 * e \<le> 46336 * m + 45974" "3 * m + 5 \<le> 4 * e" for e :: int
    using that m by linarith
  ultimately show False using big by blast
qed

lemma rotation_inverse:
  "(dx :: int) * (s * s + c * c) = c * (dx * c + dy * s) + (- s) * (dy * c - dx * s)"
  "dy * (s * s + c * c) = s * (dx * c + dy * s) + c * (dy * c - dx * s)"
  by (simp_all add: algebra_simps)

lemma cell_extent:
  fixes U w m q :: int
  assumes "0 \<le> w" "w \<le> m" "0 \<le> U div 256 + w div 2" "U div 256 + w div 2 < w"
  shows "\<bar>U\<bar> \<le> 128 * m + 127"
  using assms by linarith

text \<open>Whatever a sprite answers at a place, the place is inside it, the corner not wrapped.\<close>

lemma inside_axis:
  fixes X c :: usize and w :: u16
  assumes b: "uint c < 2 ^ 20" "uint X < 2 ^ 31"
    and X: "c - ucast w div 2 \<le> X" "X - (c - ucast w div 2) < ucast w"
  shows "0 \<le> uint X - uint c + uint w div 2 \<and> uint X - uint c + uint w div 2 < uint w"
proof -
  let ?o = "c - ucast w div 2"
  have w: "0 \<le> uint w" "uint w < 65536" "uint (ucast w div 2 :: usize) = uint w div 2"
    using uint_lt2p [of w] by (simp_all add: uint_div uint_ucast32)
  have o: "uint ?o = (if uint w div 2 \<le> uint c then uint c - uint w div 2 else uint c - uint w div 2 + 2 ^ 32)"
    by (simp add: uint_sub_if' w(3))
  have "uint ?o \<le> uint X" using X(1) by (simp add: word_le_def)
  have nw: "uint w div 2 \<le> uint c"
  proof (rule ccontr)
    assume "\<not> uint w div 2 \<le> uint c"
    then have "uint ?o = uint c - uint w div 2 + 4294967296" using o by simp
    moreover have "uint w div 2 \<le> 32767" using w(2) by linarith
    moreover have "uint X < 2147483648" using b(2) by simp
    ultimately show False using \<open>uint ?o \<le> uint X\<close> uint_ge_0 [of c] by linarith
  qed
  have "uint (X - ?o) = uint X - uint ?o" using X(1) by (simp add: uint_minus_simple_alt)
  moreover have "uint (X - ?o) < uint w" using X(2) by (simp add: word_less_def uint_ucast32)
  ultimately show ?thesis using \<open>uint ?o \<le> uint X\<close> o nw by simp
qed

lemma sint_small_uint: "uint (x :: usize) < 2147483648 \<Longrightarrow> sint x = uint x"
  unfolding sint_uint by (intro signed_take_bit_int_eq_self) (simp_all add: order.trans [OF _ unsigned_greater_eq])

lemma uint_word_of_int_small: "0 \<le> d \<Longrightarrow> d < 2 ^ 31 \<Longrightarrow> uint (word_of_int d :: usize) = d"
  by (simp add: uint_word_of_int)

lemma unrotate_bounded:
  fixes x y cx cy :: usize
  assumes "uint x < 2 ^ 20" "uint y < 2 ^ 20" "uint cx < 2 ^ 20" "uint cy < 2 ^ 20"
  shows "unrotate x y (sint cx) (sint cy) a =
    (((uint x - uint cx) * cos64 a + (uint y - uint cy) * sin64 a) div 256 + uint cx,
     ((uint y - uint cy) * cos64 a - (uint x - uint cx) * sin64 a) div 256 + uint cy)"
    and "((uint x - uint cx) * cos64 a + (uint y - uint cy) * sin64 a) div 256 + uint cx < 2147483648"
    and "((uint y - uint cy) * cos64 a - (uint x - uint cx) * sin64 a) div 256 + uint cy < 2147483648"
proof -
  let ?dx = "uint x - uint cx" and ?dy = "uint y - uint cy"
  have s: "sint x = uint x" "sint y = uint y" "sint cx = uint cx" "sint cy = uint cy"
    using assms by (simp_all add: sint_small_uint)
  have b: "0 \<le> uint x" "0 \<le> uint y" "0 \<le> uint cx" "0 \<le> uint cy"
    "uint x < 1048576" "uint y < 1048576" "uint cx < 1048576" "uint cy < 1048576" using assms by simp_all
  then have d: "\<bar>?dx\<bar> \<le> 1048576" "\<bar>?dy\<bar> \<le> 1048576" by linarith+
  have m: "\<bar>p * q\<bar> \<le> 268435456" if "\<bar>p\<bar> \<le> 1048576" "\<bar>q\<bar> \<le> 256" for p q :: int
    unfolding abs_mult using mult_mono [OF that] by simp
  note p = m [OF d(1) sin64_bound(2), of a] m [OF d(2) sin64_bound(1), of a]
    m [OF d(2) sin64_bound(2), of a] m [OF d(1) sin64_bound(1), of a]
  have w: "w32 ?dx = ?dx" "w32 ?dy = ?dy" by (rule w32_id; use d in linarith)+
  have w2: "w32 (?dx * cos64 a) = ?dx * cos64 a" "w32 (?dy * sin64 a) = ?dy * sin64 a"
    "w32 (?dy * cos64 a) = ?dy * cos64 a" "w32 (?dx * sin64 a) = ?dx * sin64 a"
    by (rule w32_id; use p in linarith)+
  have w3: "w32 (?dx * cos64 a + ?dy * sin64 a) = ?dx * cos64 a + ?dy * sin64 a"
    "w32 (?dy * cos64 a - ?dx * sin64 a) = ?dy * cos64 a - ?dx * sin64 a"
    by (rule w32_id; use p in linarith)+
  have w4: "w32 ((?dx * cos64 a + ?dy * sin64 a) div 256 + uint cx) = (?dx * cos64 a + ?dy * sin64 a) div 256 + uint cx"
    "w32 ((?dy * cos64 a - ?dx * sin64 a) div 256 + uint cy) = (?dy * cos64 a - ?dx * sin64 a) div 256 + uint cy"
    by (rule w32_id; use p b in linarith)+
  show "unrotate x y (sint cx) (sint cy) a =
    ((?dx * cos64 a + ?dy * sin64 a) div 256 + uint cx, (?dy * cos64 a - ?dx * sin64 a) div 256 + uint cy)"
    unfolding unrotate_def Let_def s w w2 w3 w4 by (rule refl)
  show "(?dx * cos64 a + ?dy * sin64 a) div 256 + uint cx < 2147483648"
    "(?dy * cos64 a - ?dx * sin64 a) div 256 + uint cy < 2147483648" using p b by linarith+
qed

lemma abs_diff_uint: "uint (abs_diff a b) = \<bar>uint a - uint b\<bar>"
proof (cases "a \<le> b")
  case True
  then show ?thesis using uint_minus_simple_alt [THEN iffD1, OF True] by (simp add: abs_diff_def word_le_def)
next
  case False
  then have le: "b \<le> a" by simp
  then show ?thesis using False uint_minus_simple_alt [THEN iffD1, OF le] by (simp add: abs_diff_def word_le_def)
qed

lemma sprite_radius_uint: "uint (sprite_radius sp) = 3 * max (uint (sp_w sp)) (uint (sp_h sp)) div 4 + 1"
proof -
  let ?m = "max (sp_w sp) (sp_h sp)"
  have m: "uint ?m = max (uint (sp_w sp)) (uint (sp_h sp))" by (simp add: max_def word_le_def)
  have b: "0 \<le> uint ?m" "uint ?m < 65536" using uint_lt2p [of ?m] by simp_all
  have "uint (ucast ?m * 3 :: usize) = 3 * uint ?m"
    using b by (simp add: uint_word_ariths uint_ucast32)
  moreover have "3 * uint ?m div 4 + 1 < 4294967296" using b by linarith
  moreover have "0 \<le> 3 * uint ?m div 4" using b(1) by linarith
  ultimately show ?thesis unfolding m [symmetric] sprite_radius_def
    by (simp add: uint_word_ariths(1) uint_div)
qed

lemma cover_at_inside:
  assumes "sprite_cover_at sp X Y ox oy \<noteq> Some None"
  shows "ox \<le> X" "oy \<le> Y" "X - ox < ucast (sp_w sp)" "Y - oy < ucast (sp_h sp)"
proof -
  have "\<not> X < ox" "\<not> Y < oy" using assms by (auto simp: sprite_cover_at_def)
  then show "ox \<le> X" "oy \<le> Y" by simp_all
  have "sprite_cover sp (X - ox) (Y - oy) \<noteq> Some None" using assms by (auto simp: sprite_cover_at_def inked_def split: if_splits)
  then have "\<not> X - ox \<ge> ucast (sp_w sp)" "\<not> Y - oy \<ge> ucast (sp_h sp)" by (auto simp: sprite_cover_def)
  then show "X - ox < ucast (sp_w sp)" "Y - oy < ucast (sp_h sp)" by simp_all
qed

text \<open>
  C19. The test in front of a turning sprite never clips it: for every angle and pixel the guarded
  sample is the unguarded one, so no corner is shaved off.
\<close>

theorem rotation_guard_exact:
  assumes "uint x < 2 ^ 20" "uint y < 2 ^ 20" "uint cx < 2 ^ 20" "uint cy < 2 ^ 20"
  shows "sprite_rotated sp x y cx cy a ramp = rotated_sample sp x y cx cy a ramp"
proof (rule ccontr)
  assume ne: "\<not> ?thesis"
  let ?U = "(uint x - uint cx) * cos64 a + (uint y - uint cy) * sin64 a"
    and ?V = "(uint y - uint cy) * cos64 a - (uint x - uint cx) * sin64 a"
    and ?m = "max (uint (sp_w sp)) (uint (sp_h sp))"
  let ?sx = "?U div 256 + uint cx" and ?sy = "?V div 256 + uint cy"
  let ?ox = "cx - ucast (sp_w sp) div 2" and ?oy = "cy - ucast (sp_h sp) div 2"
  have far: "abs_diff x cx > sprite_radius sp \<or> abs_diff y cy > sprite_radius sp"
    and some: "rotated_sample sp x y cx cy a ramp \<noteq> Some None"
    using ne by (auto simp: sprite_rotated_def Let_def split: if_splits)
  have pos: "0 \<le> ?sx" "0 \<le> ?sy" and cov: "sprite_cover_at sp (word_of_int ?sx) (word_of_int ?sy) ?ox ?oy \<noteq> Some None"
    using some unfolding rotated_sample_def unrotate_bounded(1) [OF assms] Let_def split
    by (auto simp: shaded_def not_less split: if_splits)
  have small: "?sx < 2 ^ 31" "?sy < 2 ^ 31" using unrotate_bounded(2,3) [OF assms, of a] by simp_all
  have u: "uint (word_of_int ?sx :: usize) = ?sx" "uint (word_of_int ?sy :: usize) = ?sy"
    by (rule uint_word_of_int_small [OF pos(1) small(1)], rule uint_word_of_int_small [OF pos(2) small(2)])
  note c = cover_at_inside [OF cov]
  note ax = inside_axis [OF assms(3) _ c(1,3), unfolded u, OF small(1)] inside_axis [OF assms(4) _ c(2,4), unfolded u, OF small(2)]
  have ext: "\<bar>?U\<bar> \<le> 128 * ?m + 127" "\<bar>?V\<bar> \<le> 128 * ?m + 127"
    using cell_extent [of "uint (sp_w sp)" ?m ?U] cell_extent [of "uint (sp_h sp)" ?m ?V] ax by simp_all
  note tab = sin_cos_table [of a]
  have "\<bar>uint x - uint cx\<bar> \<le> 3 * ?m div 4 + 1"
    by (rule rotation_bound [OF tab(1) _ _ ext rotation_inverse(1)]) (use tab(2) in \<open>simp_all add: le_max_iff_disj\<close>)
  moreover have "\<bar>uint y - uint cy\<bar> \<le> 3 * ?m div 4 + 1"
    by (rule rotation_bound [OF tab(1) _ _ ext rotation_inverse(2)]) (use tab(2) in \<open>simp_all add: le_max_iff_disj\<close>)
  ultimately show False using far by (simp add: word_less_def abs_diff_uint sprite_radius_uint)
qed

theorem rotation_guard_exact_witness:
  "sprite_rotated \<lparr>sp_w = 3, sp_h = 3, sp_data = [0xFF, 0xFF, 0xFF, 0xFF, 0xFF]\<rparr> 9 9 10 10 8 16 =
   rotated_sample \<lparr>sp_w = 3, sp_h = 3, sp_data = [0xFF, 0xFF, 0xFF, 0xFF, 0xFF]\<rparr> 9 9 10 10 8 16"
  by (rule rotation_guard_exact) simp_all

end
