(* ===== verification/Panel_Text.thy ===== *)
theory Panel_Text
  imports Panel_Prim
begin

text \<open>
  Text that programs build: numbers read from the feed (\<^verbatim>\<open>Ctx::int\<close>), a line joined from
  three parts, and the cache of live tickers, run against the table of values.
\<close>

section \<open>Numbers\<close>

definition is_dig :: "u8 \<Rightarrow> bool" where "is_dig b \<longleftrightarrow> 0x30 \<le> b \<and> b \<le> 0x39"

definition dec_int :: "int \<Rightarrow> u8 list \<Rightarrow> int" where
  "dec_int = foldl (\<lambda>v b. v * 10 + uint (b - 0x30))"

lemma sat_step:
  assumes "0 \<le> v" "0 \<le> d"
  shows "sat32 (sat32 (min 2147483647 v * 10) + d) = min 2147483647 (v * 10 + d)"
  using assms by (simp add: sat32_def min_def max_def)

lemma int_loop_sat:
  "0 \<le> v \<Longrightarrow> int_loop bs (min 2147483647 v) any =
     (min 2147483647 (dec_int v (takeWhile is_dig bs)), any \<or> takeWhile is_dig bs \<noteq> [])"
proof (induction bs arbitrary: v any)
  case (Cons b bs)
  have "0 \<le> v * 10 + uint (b - 0x30)" using Cons.prems by simp
  from Cons.IH [OF this, of True] show ?case
    using Cons.prems by (auto simp: sat_step dec_int_def is_dig_def)
qed (simp add: dec_int_def)

text \<open>
  \<^verbatim>\<open>Ctx::int\<close> reads the decimal number a value starts with, with its sign, and stays at
  the largest magnitude when it does not fit; a value that does not start with a digit is
  no number.
\<close>

theorem int_reads_number:
  "ctx_int c key =
     (let t = ctx_val c key; neg = (t \<noteq> [] \<and> hd t = 0x2D);
          ds = takeWhile is_dig (if neg then tl t else t); n = min (2 ^ 31 - 1) (dec_int 0 ds) in
      if ds = [] then None else Some (if neg then - n else n))"
proof -
  have nn: "0 \<le> dec_int v ds" if "0 \<le> v" for v ds
    using that by (induction ds arbitrary: v) (simp_all add: dec_int_def)
  have "w32 (- min 2147483647 (dec_int 0 ds)) = - min 2147483647 (dec_int 0 ds)" for ds
    using nn [of 0 ds] by (intro w32_id) (simp_all add: min_def)
  then show ?thesis
    using int_loop_sat [of 0 _ False] by (simp add: ctx_int_def Let_def split: prod.split)
qed

section \<open>Joining\<close>

lemma join_parts_take:
  "n \<le> length buf \<Longrightarrow> join_parts buf n ps = (buf', n') \<Longrightarrow>
     length buf' = length buf \<and> n' \<le> length buf \<and> take n' buf' = take (length buf) (take n buf @ concat ps)"
proof (induction buf n ps arbitrary: buf' n' rule: join_parts.induct)
  case (2 buf n p ps)
  let ?k = "min (length p) (length buf - n)" and ?b = "splice n (take (min (length p) (length buf - n)) p) buf"
  have kl: "length (take ?k p) = ?k" by simp
  have l: "length ?b = length buf" "n + ?k \<le> length buf" using 2(2) by (simp_all add: length_splice)
  have tk: "take (n + ?k) ?b = take n buf @ take ?k p"
    using take_splice [OF 2(2), of "take ?k p"] unfolding kl .
  show ?case
  proof (cases "n + ?k = length buf")
    case True
    then have "buf' = ?b" "n' = n + ?k" using 2(3) l(1) by (auto simp: Let_def)
    moreover have "take (length buf) (take n buf @ p @ concat ps) = take n buf @ take ?k p"
      using True 2(2) by (simp add: min_absorb2 min_def split: if_splits)
    ultimately show ?thesis using True l tk by simp
  next
    case False
    then have p: "?k = length p" "n + length p < length buf" using 2(2) by (simp_all add: min_def split: if_splits)
    have "join_parts ?b (n + ?k) ps = (buf', n')" using 2(3) False l(1) by (simp add: Let_def)
    from 2(1) [OF refl refl _ _ this] False l tk show ?thesis by (simp add: p(1))
  qed
qed simp

text \<open>
  A line joined from prefix, value and suffix is their concatenation when it fits the row's
  buffer; when it does not it is cut to the buffer, or nothing when the cut is inside a
  character. The buffer keeps its size.
\<close>

theorem join3_concatenates:
  assumes "list_all scalar (a @ b @ c)"
  shows "snd (join3 buf a b c) =
      (if length (as_bytes (a @ b @ c)) \<le> length buf then a @ b @ c
       else utf8_or_empty (take (length buf) (as_bytes (a @ b @ c)))) \<and>
    length (fst (join3 buf a b c)) = length buf"
proof -
  obtain buf' n where j: "join_parts buf 0 (map as_bytes [a, b, c]) = (buf', n)" by fastforce
  have all: "concat (map as_bytes [a, b, c]) = as_bytes (a @ b @ c)" by (simp add: as_bytes_def)
  have "length buf' = length buf" "take n buf' = take (length buf) (as_bytes (a @ b @ c))"
    using join_parts_take [OF _ j] unfolding all by simp_all
  then show ?thesis using from_as_bytes [OF assms] unfolding join3_def j split fst_conv snd_conv
    by (simp add: utf8_or_empty_def)
qed

theorem join3_concatenates_witness:
  "snd (join3 (replicate 8 0) [72] [55, 49] [37]) = [72, 55, 49, 37]"
  using join3_concatenates [of "[72]" "[55, 49]" "[37]" "replicate 8 0"]
  by (simp add: scalar_def as_bytes_def enc_char_def)

section \<open>Live tickers\<close>

text \<open>A run of a program with tickers: values arrive, pixels ask for a ticker's text.\<close>

datatype ticker_event = Value "u8 list" "u8 list" int | Show usize ctx

fun run_tickers :: "builders \<Rightarrow> value_table \<Rightarrow> msg_slot list \<Rightarrow> ticker_event list \<Rightarrow> str list" where
  "run_tickers code t tab [] = []"
| "run_tickers code t tab (Value k v now # es) = run_tickers code (set_value k v now t) tab es"
| "run_tickers code t tab (Show key c # es) =
     (let (s, tab') = cached_msg code (c\<lparr>c_values := t\<rparr>) key tab in s # run_tickers code t tab' es)"

text \<open>The same without a cache: every question builds the text.\<close>

fun plain_tickers :: "builders \<Rightarrow> value_table \<Rightarrow> ticker_event list \<Rightarrow> str list" where
  "plain_tickers code t [] = []"
| "plain_tickers code t (Value k v now # es) = plain_tickers code (set_value k v now t) es"
| "plain_tickers code t (Show key c # es) =
     msg_str (code key (c\<lparr>c_values := t\<rparr>) msg_new) # plain_tickers code t es"

fun is_value :: "ticker_event \<Rightarrow> bool" where
  "is_value (Value _ _ _) = True"
| "is_value (Show _ _) = False"

definition msg_ok :: "msg \<Rightarrow> bool" where
  "msg_ok m \<longleftrightarrow> length (m_buf m) = MSG_LEN \<and> m_len m \<le> MSG_LEN"

definition msg_bytes :: "msg \<Rightarrow> u8 list" where "msg_bytes m = take (m_len m) (m_buf m)"

text \<open>A builder's text is made of the values (not of the frame) and starts from an empty message.\<close>

definition from_values :: "builders \<Rightarrow> bool" where
  "from_values code \<longleftrightarrow> (\<forall>k c m. msg_ok m \<longrightarrow> msg_ok (code k c m)) \<and>
     (\<forall>k c c' m m'. msg_ok m \<longrightarrow> msg_ok m' \<longrightarrow> c_values c = c_values c' \<longrightarrow>
        msg_bytes (code k c (msg_clear m)) = msg_bytes (code k c' (msg_clear m')))"

definition slot_fresh :: "builders \<Rightarrow> value_table \<Rightarrow> msg_slot \<Rightarrow> bool" where
  "slot_fresh code t s \<longleftrightarrow> msg_ok (s_msg s) \<and> (owner s = 0 \<or> (built s \<le> writes t \<and>
     (built s = writes t \<longrightarrow> (\<exists>c m. c_values c = t \<and> msg_ok m \<and> s_msg s = code (owner s) c (msg_clear m)))))"

definition cache_inv :: "builders \<Rightarrow> value_table \<Rightarrow> msg_slot list \<Rightarrow> bool" where
  "cache_inv code t tab \<longleftrightarrow> length tab = MSG_SLOTS \<and> (\<forall>s \<in> set tab. slot_fresh code t s)"

lemma msg_ok_clear: "msg_ok m \<Longrightarrow> msg_ok (msg_clear m)" and msg_ok_new: "msg_ok msg_new"
  by (simp_all add: msg_ok_def msg_clear_def msg_new_def)

lemma msg_byte_bytes:
  "msg_ok m \<Longrightarrow> msg_ok (msg_byte b m) \<and> msg_bytes (msg_byte b m) = take MSG_LEN (msg_bytes m @ [b])"
  by (auto simp: msg_ok_def msg_byte_def msg_bytes_def take_Suc_conv_app_nth)

lemma write_bytes:
  "msg_ok m \<Longrightarrow> msg_ok (fold msg_byte bs m) \<and> msg_bytes (fold msg_byte bs m) = take MSG_LEN (msg_bytes m @ bs)"
proof (induction bs arbitrary: m)
  case Nil
  then show ?case by (simp add: msg_bytes_def msg_ok_def)
next
  case (Cons b bs)
  note m = msg_byte_bytes [OF Cons.prems, of b]
  have "take n (take n xs @ ys) = take n (xs @ ys)" for n and xs ys :: "u8 list" by (cases "n \<le> length xs") simp_all
  from this [of MSG_LEN "msg_bytes m @ [b]" bs] Cons.IH [of "msg_byte b m"] m show ?case
    by (simp del: take_append)
qed

lemma slot_index_less: "slot_index key tab < MSG_SLOTS"
  by (auto simp: slot_index_def MSG_SLOTS_def find_Some_iff split: option.splits)

lemma writes_set_value: "writes (set_value k v now t) = writes t + 1"
  by (simp add: set_value_def Let_def split: option.split)

lemma cache_inv_value:
  assumes "cache_inv code t tab" "unat (writes t) + 1 < 2 ^ 32"
  shows "cache_inv code (set_value k v now t) tab"
proof -
  have "writes t < writes t + 1" using assms(2) by (simp add: word_less_nat_alt unat_word_ariths)
  then show ?thesis
    using assms(1) by (auto simp: cache_inv_def slot_fresh_def writes_set_value dest!: bspec)
qed

lemma cached_msg_current:
  assumes inv: "cache_inv code t tab" and code: "from_values code" and key: "key \<noteq> 0" and c: "c_values c = t"
    and m: "cached_msg code c key tab = (s, tab')"
  shows "s = msg_str (code key c msg_new) \<and> cache_inv code t tab'"
proof -
  let ?i = "slot_index key tab"
  let ?slot = "tab ! ?i"
  let ?new = "if owner ?slot \<noteq> key \<or> built ?slot \<noteq> writes t
     then \<lparr>owner = key, built = writes t, s_msg = code key c (msg_clear (s_msg ?slot))\<rparr> else ?slot"
  have i: "?i < length tab" using inv slot_index_less by (simp add: cache_inv_def)
  have new: "msg_clear msg_new = msg_new" by (simp add: msg_clear_def msg_new_def)
  have r: "s = msg_str (s_msg ?new)" "tab' = tab[?i := ?new]"
    using m by (auto simp: cached_msg_def Let_def c)
  have fresh: "slot_fresh code t ?slot" using inv i by (simp add: cache_inv_def)
  have made: "\<exists>c' m. c_values c' = t \<and> msg_ok m \<and> s_msg ?new = code key c' (msg_clear m)"
  proof (cases "owner ?slot \<noteq> key \<or> built ?slot \<noteq> writes t")
    case True
    moreover have "msg_ok (s_msg ?slot)" using fresh by (simp add: slot_fresh_def)
    ultimately show ?thesis using c by auto
  next
    case False
    then show ?thesis using fresh key by (auto simp: slot_fresh_def)
  qed
  then obtain c' m where w: "c_values c' = t" "msg_ok m" "s_msg ?new = code key c' (msg_clear m)" by blast
  have "msg_bytes (code key c' (msg_clear m)) = msg_bytes (code key c (msg_clear msg_new))"
    using code w c msg_ok_new unfolding from_values_def by simp
  then have "s = msg_str (code key c (msg_clear msg_new))"
    unfolding r(1) w(3) by (simp add: msg_str_def msg_bytes_def)
  moreover have "cache_inv code t tab'"
  proof -
    have "msg_ok (s_msg ?new)" using code msg_ok_clear [OF w(2)] unfolding w(3) from_values_def by simp
    moreover have o: "owner ?new = key" "built ?new = writes t" by auto
    ultimately have "slot_fresh code t ?new" using made unfolding slot_fresh_def o by simp
    then show ?thesis
      using inv i unfolding r(2) by (auto simp: cache_inv_def dest!: set_update_subset_insert [THEN subsetD])
  qed
  ultimately show ?thesis unfolding new by blast
qed

lemma run_tickers_plain:
  "cache_inv code t tab \<Longrightarrow> from_values code \<Longrightarrow> \<forall>key c. Show key c \<in> set es \<longrightarrow> key \<noteq> 0 \<Longrightarrow>
   unat (writes t) + length (filter is_value es) < 2 ^ 32 \<Longrightarrow>
   run_tickers code t tab es = plain_tickers code t es"
proof (induction es arbitrary: t tab)
  case (Cons e es)
  show ?case
  proof (cases e)
    case (Value k v now)
    have n: "unat (writes t) + 1 + length (filter is_value es) < 2 ^ 32" using Cons.prems(4) Value by simp
    then have "unat (writes t) + 1 < 2 ^ 32" by simp
    moreover from this have "unat (writes (set_value k v now t)) = unat (writes t) + 1"
      by (simp add: writes_set_value unat_word_ariths)
    ultimately show ?thesis
      using Cons.IH [OF cache_inv_value [OF Cons.prems(1)] Cons.prems(2)] Cons.prems(3) n Value by simp
  next
    case (Show key c)
    obtain s tab' where m: "cached_msg code (c\<lparr>c_values := t\<rparr>) key tab = (s, tab')" by fastforce
    have k: "key \<noteq> 0" "\<forall>key c. Show key c \<in> set es \<longrightarrow> key \<noteq> 0" using Cons.prems(3) Show by auto
    have cur: "s = msg_str (code key (c\<lparr>c_values := t\<rparr>) msg_new)" "cache_inv code t tab'"
      using cached_msg_current [OF Cons.prems(1,2) k(1) _ m] by simp_all
    show ?thesis using cur(1) Cons.IH [OF cur(2) Cons.prems(2) k(2)] Cons.prems(4) Show m by simp
  qed
qed simp

text \<open>
  C17. Whatever values arrive and in whatever order the pixels of any number of tickers are drawn,
  a cached ticker says what building its text at that moment would say, for as long as the
  counter of values has not wrapped.
\<close>

theorem ticker_text_current:
  assumes "from_values code" "\<forall>key c. Show key c \<in> set es \<longrightarrow> key \<noteq> 0"
    and "length (filter is_value es) < 2 ^ 32"
  shows "run_tickers code table_new msg_slots es = plain_tickers code table_new es"
proof -
  have "cache_inv code table_new msg_slots" by (simp add: cache_inv_def msg_slots_def slot_fresh_def msg_ok_new)
  then show ?thesis using assms by (intro run_tickers_plain) (simp_all add: table_new_def)
qed

text \<open>Two tickers for the example: a value and a mark, padded.\<close>

definition demo_builders :: builders where
  "demo_builders k c m = write_str [if k = 8 then 42 else 43] (fold msg_byte (ctx_val c [0x74]) m)"

lemma demo_from_values: "from_values demo_builders"
proof -
  have w: "msg_ok m \<Longrightarrow> msg_ok (demo_builders k c m) \<and>
      msg_bytes (demo_builders k c m) = take MSG_LEN (take MSG_LEN (msg_bytes m @ ctx_val c [0x74])
        @ as_bytes [if k = 8 then 42 else 43])" for k c m
    unfolding demo_builders_def write_str_def
    using write_bytes [of m] write_bytes [of "fold msg_byte (ctx_val c [0x74]) m"] by metis
  have e: "msg_bytes (msg_clear m) = []" for m by (simp add: msg_bytes_def msg_clear_def)
  show ?thesis unfolding from_values_def using w [OF msg_ok_clear] w e by (simp add: ctx_val_def)
qed

definition demo_ctx :: ctx where
  "demo_ctx = \<lparr>c_w = 64, c_h = 64, c_frame = 3, c_time = 9, c_values = table_new\<rparr>"

theorem ticker_text_current_witness:
  "run_tickers demo_builders table_new msg_slots
     [Value [0x74] [55] 1, Show 8 demo_ctx, Show 12 demo_ctx, Value [0x74] [56] 2, Show 8 demo_ctx] =
   plain_tickers demo_builders table_new
     [Value [0x74] [55] 1, Show 8 demo_ctx, Show 12 demo_ctx, Value [0x74] [56] 2, Show 8 demo_ctx]"
  by (rule ticker_text_current [OF demo_from_values]) auto

end
