(* ===== verification/Image_Store.thy ===== *)
theory Image_Store
  imports Hub75_Dev
begin

text \<open>
  \<^verbatim>\<open>src/img.rs\<close> and \<^verbatim>\<open>src/img_flash.rs\<close>: the header in front of a stored picture,
  and the writing of it into flash page by page. The \<^verbatim>\<open>spi_memory\<close> driver is the
  parameter \<open>flash25\<close>; its answer \<^const>\<open>None\<close> is the panic of \<^verbatim>\<open>unwrap\<close>.
\<close>

unbundle bit_operations_syntax

section \<open>The format\<close>

definition le_bytes :: "u32 \<Rightarrow> u8 list" where
  "le_bytes w = [ucast w, ucast (drop_bit 8 w), ucast (drop_bit 16 w), ucast (drop_bit 24 w)]"

text \<open>\<^verbatim>\<open>chunks(4)\<close> as words; \<^const>\<open>None\<close> is a last chunk that is too short, a panic when it is read.\<close>

fun le_words :: "u8 list \<Rightarrow> u32 option list" where
  "le_words [] = []"
| "le_words (a # b # c # d # bs) = Some (le_word [a, b, c, d] 0) # le_words bs"
| "le_words _ = [None]"

definition load_image :: "u8 list \<Rightarrow> (unit + u16 \<times> u32 \<times> u32 list \<times> u32 option list)" where
  "load_image d =
     (if length d < 256 then Inl ()
      else let header = map the (le_words (take 256 d)); data = le_words (drop 256 d); start = header ! 0 in
        if start AND push_bit 31 1 \<noteq> 0 then Inl ()
        else let width = ucast (start AND 0xFFFF); len = header ! 1 in
          if width = 0 \<or> len = 0 \<or> unat len > MAX_IMG_PIXELS then Inl ()
          else if ucast width > len then Inl ()
          else Inr (width, len, drop 4 header, take (unat len) data))"

definition write_image :: "u16 \<Rightarrow> u32 \<Rightarrow> u32 list \<Rightarrow> u32 list \<Rightarrow> u8 list" where
  "write_image width len panel_params img_data =
     concat (map le_bytes
       (take 64 ([ucast width, len, 0xD1581A40, 0xDA5A0001] @ panel_params @ replicate 64 0) @ take (unat len) img_data))"

section \<open>The flash\<close>

definition FLASH_SIZE :: nat where [src_consts]: "FLASH_SIZE = (32 div 8) * 1024 * 1024"
definition SECTOR_SIZE :: nat where [src_consts]: "SECTOR_SIZE = 4 * 1024"
definition img_offset :: nat where [src_consts]: "img_offset = FLASH_SIZE div 4 * 3"

record 'm flash25 =
  erase_sectors :: "u32 \<Rightarrow> nat \<Rightarrow> 'm \<Rightarrow> 'm option"
  write_bytes :: "u32 \<Rightarrow> u8 list \<Rightarrow> 'm \<Rightarrow> 'm option"
  mapped :: "'m \<Rightarrow> nat \<Rightarrow> u8"

text \<open>One page from the iterator: the page, the iterator after it, \<open>count\<close> and \<open>done\<close>.\<close>

fun fill_page :: "nat \<Rightarrow> nat \<Rightarrow> u8 list \<Rightarrow> nat \<Rightarrow> bool \<Rightarrow> u8 list \<times> nat \<times> u8 list \<times> nat \<times> bool" where
  "fill_page 0 idx bs count fin = ([], idx, bs, count, fin)"
| "fill_page (Suc n) idx [] count fin =
     (case fill_page n idx [] (count + 1) True of (pg, r) \<Rightarrow> (0 # pg, r))"
| "fill_page (Suc n) idx (b # bs) count fin =
     (case fill_page n (idx + 1) bs idx fin of (pg, r) \<Rightarrow> (b # pg, r))"

definition put_page :: "'m flash25 \<Rightarrow> nat \<Rightarrow> u8 list \<Rightarrow> 'm \<Rightarrow> 'm option" where
  "put_page ops count pg m =
     (let offset = count - count mod 256 in
      case (if offset mod SECTOR_SIZE = 0 then erase_sectors ops (of_nat (img_offset + count)) 1 m else Some m) of
        None \<Rightarrow> None
      | Some m1 \<Rightarrow> write_bytes ops (of_nat (img_offset + offset)) pg m1)"

lemma fill_page_eq:
  "fill_page n idx bs count fin =
     (take n bs @ replicate (n - length bs) 0, idx + min n (length bs), drop n bs,
      if n = 0 then count else if bs = [] then count + n else idx + n - 1, fin \<or> length bs < n)"
proof (induction n idx bs count fin rule: fill_page.induct)
  case (3 n idx b bs count fin)
  then show ?case by (cases n) auto
qed auto

function store_loop :: "'m flash25 \<Rightarrow> nat \<Rightarrow> u8 list \<Rightarrow> nat \<Rightarrow> 'm \<Rightarrow> 'm option" where
  "store_loop ops idx bs count m =
     (case fill_page 256 idx bs count False of (pg, idx', bs', count', fin) \<Rightarrow>
        case put_page ops count' pg m of
          None \<Rightarrow> None
        | Some m1 \<Rightarrow> if fin then Some m1 else store_loop ops idx' bs' count' m1)"
  by pat_completeness auto
termination
  by (relation "measure (\<lambda>(_, _, bs, _). length bs)") (auto simp: fill_page_eq)

declare store_loop.simps [simp del]

definition store_image :: "'m flash25 \<Rightarrow> u8 list \<Rightarrow> 'm \<Rightarrow> 'm option" where
  "store_image ops bs m = store_loop ops 0 bs 0 m"

definition read_image :: "'m flash25 \<Rightarrow> 'm \<Rightarrow> u8 list" where
  "read_image ops m = map (\<lambda>i. mapped ops m (img_offset + i)) [0..<FLASH_SIZE - img_offset]"

section \<open>Saving and loading from the menu\<close>

definition save_spi_image :: "hub_hw \<Rightarrow> 'm flash25 \<Rightarrow> hub75 \<Rightarrow> 'm \<Rightarrow> 'm option" where
  "save_spi_image hw ops h m =
     (case get_img_param h of (width, len) \<Rightarrow>
        store_image ops (write_image width len (get_panel_params hw h) (read_img_data h)) m)"

definition load_spi_image :: "hub_hw \<Rightarrow> 'm flash25 \<Rightarrow> 'm \<Rightarrow> hub75 \<Rightarrow> hub75 option" where
  "load_spi_image hw ops m h =
     (case load_image (read_image ops m) of
        Inl _ \<Rightarrow> None
      | Inr (width, len, params, data) \<Rightarrow>
          let h1 = set_panel_params hw params (set_img_param width len h) in
          if None \<in> set (take (img_len h1) data) then None
          else Some (hub_on (swap_buffers (write_img_data 0 (map the (take (img_len h1) data)) h1))))"

section \<open>Pages\<close>

text \<open>What the loop does: the pages in order, the sector erased in front of its first page.\<close>

definition page :: "u8 list \<Rightarrow> nat \<Rightarrow> u8 list" where
  "page bs p = take 256 (drop (256 * p) bs) @ replicate (256 - length (drop (256 * p) bs)) 0"

fun put_pages :: "'m flash25 \<Rightarrow> u8 list \<Rightarrow> nat list \<Rightarrow> 'm \<Rightarrow> 'm option" where
  "put_pages ops bs [] m = Some m"
| "put_pages ops bs (p # ps) m =
     (case put_page ops (256 * p + 255) (page bs p) m of None \<Rightarrow> None | Some m1 \<Rightarrow> put_pages ops bs ps m1)"

lemma store_loop_pages:
  "256 * p \<le> length bs \<Longrightarrow> (256 * p < length bs \<or> count + 1 = 256 * p) \<Longrightarrow>
   store_loop ops (256 * p) (drop (256 * p) bs) count m = put_pages ops bs [p..<length bs div 256 + 1] m"
proof (induction "length bs - 256 * p" arbitrary: p count m rule: less_induct)
  case less
  let ?d = "drop (256 * p) bs"
  let ?n = "length bs div 256"
  have p: "p \<le> ?n" using less.prems(1) by simp
  then have ups: "[p..<?n + 1] = p # [p + 1..<?n + 1]" by (simp add: upt_conv_Cons)
  have c: "(if ?d = [] then count + 256 else 256 * p + 256 - 1) = 256 * p + 255" using less.prems by auto
  have fin: "length ?d < 256 \<longleftrightarrow> p = ?n" using less.prems(1) by auto
  have f: "fill_page 256 (256 * p) ?d count False =
      (page bs p, 256 * p + min 256 (length ?d), drop 256 ?d, 256 * p + 255, p = ?n)"
    using c unfolding fill_page_eq fin page_def by simp
  show ?case
  proof (cases "put_page ops (256 * p + 255) (page bs p) m")
    case None
    then show ?thesis unfolding ups by (simp add: store_loop.simps f)
  next
    case (Some m1)
    show ?thesis
    proof (cases "p = ?n")
      case True
      have "store_loop ops (256 * p) ?d count m = Some m1" unfolding store_loop.simps [of ops "256 * p"] f using Some True by simp
      moreover have "[p + 1..<?n + 1] = []" using True by simp
      ultimately show ?thesis unfolding ups using Some by simp
    next
      case False
      then have lt: "256 * p + 256 \<le> length bs" using fin by auto
      have "store_loop ops (256 * p) ?d count m = store_loop ops (256 * (p + 1)) (drop (256 * (p + 1)) bs) (256 * p + 255) m1"
        unfolding store_loop.simps [of ops "256 * p"] f using Some False lt by (simp add: add.commute)
      moreover have "store_loop ops (256 * (p + 1)) (drop (256 * (p + 1)) bs) (256 * p + 255) m1
          = put_pages ops bs [p + 1..<?n + 1] m1"
        using lt by (intro less.hyps) simp_all
      ultimately show ?thesis unfolding ups using Some by simp
    qed
  qed
qed

lemma store_image_pages:
  "bs \<noteq> [] \<Longrightarrow> store_image ops bs m = put_pages ops bs [0..<length bs div 256 + 1] m"
  using store_loop_pages [of 0 bs 0 ops m] by (simp add: store_image_def)

section \<open>On a NOR chip\<close>

text \<open>
  What the driver is documented to do on a NOR part of 4 MB: erasing at an address blanks the
  sector the address is in, writing a page clears bits of that page.
\<close>

definition flash25_laws :: "'m flash25 \<Rightarrow> bool" where
  "flash25_laws ops \<longleftrightarrow>
     (\<forall>a m. unat a < FLASH_SIZE \<longrightarrow> (\<exists>m'. erase_sectors ops a 1 m = Some m' \<and>
        (\<forall>i. mapped ops m' i = (if i div SECTOR_SIZE = unat a div SECTOR_SIZE then 0xFF else mapped ops m i)))) \<and>
     (\<forall>a pg m. unat a < FLASH_SIZE \<longrightarrow> unat a mod 256 = 0 \<longrightarrow> length pg = 256 \<longrightarrow>
        (\<exists>m'. write_bytes ops a pg m = Some m' \<and>
          (\<forall>i. mapped ops m' i = (if i div 256 = unat a div 256 then mapped ops m i AND pg ! (i mod 256) else mapped ops m i))))"

lemma unat_of_nat_small: "n < 4294967296 \<Longrightarrow> unat (of_nat n :: u32) = n"
  by (simp add: unat_of_nat take_bit_nat_eq_self)

lemma erase_law:
  "flash25_laws ops \<Longrightarrow> unat a < 4194304 \<Longrightarrow> \<exists>m'. erase_sectors ops a 1 m = Some m' \<and>
     (\<forall>i. mapped ops m' i = (if i div 4096 = unat a div 4096 then 0xFF else mapped ops m i))"
  unfolding flash25_laws_def by (simp add: SECTOR_SIZE_def FLASH_SIZE_def)

lemma write_law:
  "flash25_laws ops \<Longrightarrow> unat a < 4194304 \<Longrightarrow> unat a mod 256 = 0 \<Longrightarrow> length pg = 256 \<Longrightarrow>
     \<exists>m'. write_bytes ops a pg m = Some m' \<and>
     (\<forall>i. mapped ops m' i = (if i div 256 = unat a div 256 then mapped ops m i AND pg ! (i mod 256) else mapped ops m i))"
  unfolding flash25_laws_def by (simp add: SECTOR_SIZE_def FLASH_SIZE_def)

lemma length_page [simp]: "length (page bs p) = 256"
  by (simp add: page_def)

lemma page_nth: "i < length bs \<Longrightarrow> page bs (i div 256) ! (i mod 256) = bs ! i"
proof -
  assume "i < length bs"
  moreover have "256 * (i div 256) + i mod 256 = i" by simp
  ultimately have "i mod 256 < length (drop (256 * (i div 256)) bs)" unfolding length_drop by linarith
  then show ?thesis by (simp add: page_def nth_append)
qed

text \<open>Page \<open>p\<close>: its sector is blanked when it is the first of it, then its bytes are there.\<close>

lemma put_page_mapped:
  assumes ops: "flash25_laws ops" and p: "p < 4096" and pg: "length pg = 256"
  shows "\<exists>m'. put_page ops (256 * p + 255) pg m = Some m' \<and>
    (\<forall>i. mapped ops m' i =
      (let old = (if p mod 16 = 0 \<and> i div 4096 = 768 + p div 16 then 0xFF else mapped ops m i) in
       if i div 256 = 12288 + p then old AND pg ! (i mod 256) else old))"
proof -
  have c: "256 * p + 255 - (256 * p + 255) mod 256 = 256 * p" by (simp add: mod_mult_self3)
  have a: "unat (of_nat (3145728 + (256 * p + 255)) :: u32) = 3145728 + (256 * p + 255)"
    "unat (of_nat (3145728 + 256 * p) :: u32) = 3145728 + 256 * p"
    by (rule unat_of_nat_small; use p in simp)+
  have d: "(3145728 + (256 * p + 255)) div 4096 = 768 + p div 16" by linarith
  have d2: "(3145728 + 256 * p) div 256 = 12288 + p" "(3145728 + 256 * p) mod 256 = 0" by simp_all
  have "256 * p mod 4096 = 256 * (p mod 16)" using mult_mod_right [of 256 p 16] by simp
  then have s: "(256 * p mod 4096 = 0) = (p mod 16 = 0)" by (simp only: mult_eq_0_iff) simp
  have e: "\<exists>m1. erase_sectors ops (of_nat (3145728 + (256 * p + 255))) 1 m = Some m1 \<and>
      (\<forall>i. mapped ops m1 i = (if i div 4096 = 768 + p div 16 then 0xFF else mapped ops m i))"
    by (rule erase_law [OF ops, of "of_nat (3145728 + (256 * p + 255))" m, unfolded a d]) (use p in simp)
  have w: "\<exists>m'. write_bytes ops (of_nat (3145728 + 256 * p)) pg m1 = Some m' \<and>
      (\<forall>i. mapped ops m' i = (if i div 256 = 12288 + p then mapped ops m1 i AND pg ! (i mod 256) else mapped ops m1 i))" for m1
    by (rule write_law [OF ops, of "of_nat (3145728 + 256 * p)" pg m1, unfolded a d2]) (use p pg in simp_all)
  show ?thesis
  proof (cases "p mod 16 = 0")
    case True
    obtain m1 where m1: "erase_sectors ops (of_nat (3145728 + (256 * p + 255))) 1 m = Some m1"
      "\<forall>i. mapped ops m1 i = (if i div 4096 = 768 + p div 16 then 0xFF else mapped ops m i)" using e by blast
    show ?thesis using w [of m1] m1 True
      unfolding put_page_def c img_offset_def FLASH_SIZE_def SECTOR_SIZE_def by (auto simp: s Let_def simp del: of_nat_add)
  next
    case False
    then show ?thesis using w [of m]
      unfolding put_page_def c img_offset_def FLASH_SIZE_def SECTOR_SIZE_def by (auto simp: s Let_def simp del: of_nat_add)
  qed
qed

lemma sector_count:
  fixes k :: nat
  shows "k mod 16 = 0 \<Longrightarrow> (k + 15) div 16 = k div 16"
    and "k mod 16 \<noteq> 0 \<Longrightarrow> (k + 15) div 16 = k div 16 + 1"
    and "(Suc k + 15) div 16 = k div 16 + 1"
proof -
  obtain q r where k: "k = 16 * q + r" "r < 16" using mult_div_mod_eq [of 16 k] by (metis mod_less_divisor zero_less_numeral)
  then have d: "k div 16 = q" "k mod 16 = r" by simp_all
  show "k mod 16 = 0 \<Longrightarrow> (k + 15) div 16 = k div 16" unfolding d using k by (intro div_nat_eqI) simp_all
  show "k mod 16 \<noteq> 0 \<Longrightarrow> (k + 15) div 16 = k div 16 + 1" unfolding d using k by (intro div_nat_eqI) simp_all
  show "(Suc k + 15) div 16 = k div 16 + 1" unfolding d using k by (intro div_nat_eqI) simp_all
qed

lemma put_pages_append:
  "put_pages ops bs (ps @ [p]) m =
     (case put_pages ops bs ps m of None \<Rightarrow> None | Some m1 \<Rightarrow> put_page ops (256 * p + 255) (page bs p) m1)"
  by (induction ps arbitrary: m) (auto split: option.splits)

text \<open>After \<open>k\<close> pages: their bytes, blank to the end of the last sector, the rest as it was.\<close>

lemma put_pages_mapped:
  assumes ops: "flash25_laws ops"
  shows "k \<le> 4096 \<Longrightarrow> \<exists>m'. put_pages ops bs [0..<k] m = Some m' \<and>
    (\<forall>i. mapped ops m' i =
      (if i < 3145728 then mapped ops m i
       else if i div 256 < 12288 + k then page bs (i div 256 - 12288) ! (i mod 256)
       else if i div 4096 < 768 + (k + 15) div 16 then 0xFF else mapped ops m i))"
proof (induction k)
  case 0
  have "mapped ops m i = (if i < 3145728 then mapped ops m i
      else if i div 256 < 12288 + 0 then page bs (i div 256 - 12288) ! (i mod 256)
      else if i div 4096 < 768 + (0 + 15) div 16 then 0xFF else mapped ops m i)" for i
  proof -
    have "\<not> i div 256 < 12288" "\<not> i div 4096 < 768" if "\<not> i < 3145728" using that by linarith+
    then show ?thesis by simp
  qed
  then show ?case by simp
next
  case (Suc k)
  then obtain m1 where m1: "put_pages ops bs [0..<k] m = Some m1"
    "\<And>i. mapped ops m1 i =
      (if i < 3145728 then mapped ops m i
       else if i div 256 < 12288 + k then page bs (i div 256 - 12288) ! (i mod 256)
       else if i div 4096 < 768 + (k + 15) div 16 then 0xFF else mapped ops m i)" by auto
  obtain m' where m': "put_page ops (256 * k + 255) (page bs k) m1 = Some m'"
    "\<And>i. mapped ops m' i =
      (let old = (if k mod 16 = 0 \<and> i div 4096 = 768 + k div 16 then 0xFF else mapped ops m1 i) in
       if i div 256 = 12288 + k then old AND page bs k ! (i mod 256) else old)"
    using put_page_mapped [OF ops, of k "page bs k" m1] Suc.prems by auto
  have blank: "(0xFF :: u8) AND b = b" for b
  proof -
    have "(0xFF :: u8) = - 1" by simp
    then show ?thesis by (simp only: and.left_neutral)
  qed
  have "mapped ops m' i =
      (if i < 3145728 then mapped ops m i
       else if i div 256 < 12288 + Suc k then page bs (i div 256 - 12288) ! (i mod 256)
       else if i div 4096 < 768 + (Suc k + 15) div 16 then 0xFF else mapped ops m i)" for i
  proof -
    have sect: "i div 4096 = i div 256 div 16" by (simp add: div_mult2_eq [symmetric])
    consider (low) "i < 3145728" | (old) "3145728 \<le> i" "i div 256 < 12288 + k" | (here) "i div 256 = 12288 + k"
      | (past) "12288 + k < i div 256" by linarith
    then show ?thesis
    proof cases
      case low
      then have "i div 4096 < 768" "i div 256 < 12288" by linarith+
      then show ?thesis using low by (simp add: m'(2) m1(2))
    next
      case old
      then have "\<not> (k mod 16 = 0 \<and> i div 4096 = 768 + k div 16)" 
        using mult_div_mod_eq [of 16 "i div 256"] mult_div_mod_eq [of 16 k] unfolding sect by (intro notI, elim conjE) linarith
      then show ?thesis using old by (simp only: m'(2) m1(2) Let_def) simp
    next
      case here
      then have "768 \<le> i div 4096" "3145728 \<le> i" unfolding sect by linarith+
      moreover have "i div 4096 = 768 + k div 16" using here unfolding sect by linarith
      moreover have "k mod 16 \<noteq> 0 \<Longrightarrow> k div 16 < (k + 15) div 16" using sector_count(2) [of k] by simp
      ultimately show ?thesis using here by (auto simp: m'(2) m1(2) blank Let_def)
    next
      case past
      note up = sector_count(3) [of k]
      have dn: "(k + 15) div 16 = (if k mod 16 = 0 then k div 16 else k div 16 + 1)" using sector_count(1,2) [of k] by simp
      have ge: "3145728 \<le> i" using past by linarith
      then show ?thesis using past up dn by (auto simp: m'(2) m1(2) Let_def)
    qed
  qed
  then show ?case using m1(1) m'(1) by (simp add: put_pages_append)
qed

lemma stored_bytes:
  assumes ops: "flash25_laws ops" and bs: "bs \<noteq> []" "length bs < 1048576"
  shows "\<exists>m'. store_image ops bs m = Some m' \<and> take (length bs) (read_image ops m') = bs \<and>
    (\<forall>i < 3145728. mapped ops m' i = mapped ops m i)"
proof -
  have "length bs div 256 + 1 \<le> 4096" using bs(2) by simp
  from put_pages_mapped [OF ops this, of bs m] obtain m' where
    m': "put_pages ops bs [0..<length bs div 256 + 1] m = Some m'"
    "\<And>i. mapped ops m' i =
      (if i < 3145728 then mapped ops m i
       else if i div 256 < 12288 + (length bs div 256 + 1) then page bs (i div 256 - 12288) ! (i mod 256)
       else if i div 4096 < 768 + (length bs div 256 + 1 + 15) div 16 then 0xFF else mapped ops m i)" by auto
  have "take (length bs) (read_image ops m') = bs"
  proof (rule nth_equalityI)
    show "length (take (length bs) (read_image ops m')) = length bs"
      using bs(2) by (simp add: read_image_def FLASH_SIZE_def img_offset_def)
    fix i assume "i < length (take (length bs) (read_image ops m'))"
    then have i: "i < length bs" by simp
    have a: "(3145728 + i) div 256 = 12288 + i div 256" "(3145728 + i) mod 256 = i mod 256"
      using div_mult_self2 [of 256 i 12288] mod_mult_self2 [of i 256 12288] by (simp_all add: add.commute)
    have "i div 256 < length bs div 256 + 1" using i by (simp add: less_Suc_eq_le div_le_mono)
    then have "mapped ops m' (3145728 + i) = bs ! i"
      using page_nth [OF i] by (simp add: m'(2) a)
    then show "take (length bs) (read_image ops m') ! i = bs ! i"
      using i bs(2) by (simp add: read_image_def FLASH_SIZE_def img_offset_def)
  qed
  moreover have "store_image ops bs m = Some m'" unfolding store_image_pages [OF bs(1)] by (rule m'(1))
  ultimately show ?thesis using m'(2) by auto
qed

section \<open>The header\<close>

lemma le_word_bytes: "le_word (le_bytes w) 0 = w"
proof (rule bit_word_eqI)
  fix n assume "n < LENGTH(32)"
  consider "n < 8" | "8 \<le> n" "n < 16" | "16 \<le> n" "n < 24" | "24 \<le> n" by linarith
  then show "bit (le_word (le_bytes w) 0) n \<longleftrightarrow> bit w n"
    using \<open>n < LENGTH(32)\<close> by cases (simp_all add: le_word_def le_bytes_def bit_simps nth_Cons' less_diff_conv2)
qed

lemma le_words_bytes: "le_words (concat (map le_bytes ws) @ bs) = map Some ws @ le_words bs"
proof (induction ws)
  case (Cons w ws)
  then show ?case using le_word_bytes [of w] by (simp add: le_bytes_def)
qed simp

lemma length_le_bytes: "length (concat (map le_bytes ws)) = 4 * length ws"
  by (induction ws) (simp_all add: le_bytes_def)

lemma le_words_append:
  "length xs mod 4 = 0 \<Longrightarrow> le_words (xs @ bs) = le_words xs @ le_words bs"
  by (induction xs rule: le_words.induct) auto

lemma write_image_load:
  assumes w: "0 < w" "ucast w \<le> l" "unat l \<le> MAX_IMG_PIXELS"
    and data: "unat l \<le> length data" and d: "take (256 + 4 * unat l) d = write_image w l params data"
  shows "load_image d = Inr (w, l, take 60 (params @ replicate 64 0), map Some (take (unat l) data))"
proof -
  let ?hdr = "take 64 ([ucast w, l, 0xD1581A40, 0xDA5A0001] @ params @ replicate 64 0)"
  let ?bs = "concat (map le_bytes ?hdr)" and ?ds = "concat (map le_bytes (take (unat l) data))"
  have wi: "write_image w l params data = ?bs @ ?ds" by (simp only: write_image_def map_append concat_append)
  have hl: "length ?hdr = 64" by simp
  have lens: "length ?bs = 256" "length ?ds = 4 * unat l"
    using data by (simp_all only: length_le_bytes hl) simp
  have "length (take (256 + 4 * unat l) d) = 256 + 4 * unat l" unfolding d wi using lens by simp
  then have ld: "256 + 4 * unat l \<le> length d" by simp
  define rest where "rest = drop (256 + 4 * unat l) d"
  have dd: "d = (?bs @ ?ds) @ rest" unfolding rest_def wi [symmetric] d [symmetric] by (simp only: append_take_drop_id)
  have t: "take 256 d = ?bs" unfolding dd using lens by simp
  have r: "drop 256 d = ?ds @ rest" unfolding dd using lens by simp
  have h: "map the (le_words (take 256 d)) = ?hdr"
    unfolding t using le_words_bytes [of ?hdr "[]"] by (simp add: comp_def)
  have dt: "take (unat l) (le_words (drop 256 d)) = map Some (take (unat l) data)"
    unfolding r le_words_bytes using data by simp
  have h0: "?hdr ! 0 = ucast w" "?hdr ! 1 = l" "drop 4 ?hdr = take 60 (params @ replicate 64 0)" by (simp_all add: drop_take)
  have top: "(ucast w :: u32) AND push_bit 31 1 = 0"
  proof (rule bit_word_eqI)
    fix n
    have "(push_bit 31 1 :: u32) = 2 ^ 31" by simp
    moreover have "\<not> bit w 31" using bit_imp_le_length [of w 31] by auto
    ultimately show "bit ((ucast w :: u32) AND push_bit 31 1) n = bit (0 :: u32) n"
      by (auto simp only: bit_and_iff bit_exp_iff bit_unsigned_iff bit_0_eq bot_apply bot_bool_def)
  qed
  have low: "(0xFFFF :: u32) = mask 16" by (simp add: mask_eq_exp_minus_1)
  have width: "(ucast ((ucast w :: u32) AND 0xFFFF) :: u16) = w"
    unfolding low by (rule bit_word_eqI, simp only: bit_unsigned_iff bit_and_iff bit_mask_iff) simp
  have "unat (ucast w :: u32) = unat w" using unat_u16_less [of w] by (simp add: unsigned_ucast_eq take_bit_nat_eq_self)
  then have "0 < l" using w(1,2) by (simp add: word_le_nat_alt word_less_nat_alt)
  then have "w \<noteq> 0" "l \<noteq> 0" "\<not> l < ucast w" using w by auto
  then show ?thesis
    using ld w(3) top width unfolding load_image_def h dt Let_def h0 by simp
qed

section \<open>Saved pictures\<close>


text \<open>A chip in memory that meets the laws: below the 4 MB it follows them, above nothing happens.\<close>

definition demo_chip :: "(nat \<Rightarrow> u8) flash25" where
  "demo_chip = \<lparr>
     erase_sectors = (\<lambda>a n m. Some (\<lambda>i. if i div SECTOR_SIZE = unat a div SECTOR_SIZE then 0xFF else m i)),
     write_bytes = (\<lambda>a pg m. Some (\<lambda>i. if i div 256 = unat a div 256 then m i AND pg ! (i mod 256) else m i)),
     mapped = id\<rparr>"

lemma demo_chip_laws: "flash25_laws demo_chip"
  by (simp add: flash25_laws_def demo_chip_def)

definition demo_hub :: hub75 where
  "demo_hub = \<lparr>fb_back = [0, 0, 0, 0], fb_front = [1, 2, 3, 4], hlength = 4, active_buf = 0,
     palette_shadow = replicate 256 0, palette_gen = 0, bank_gen = [0, 0], auto_swap = False, r_enabled = True,
     r_indexed = False, r_width = 2, r_rgb_order = 0, r_auto_swap = 0, r_fb_base = 0, r_panels = [7, 8, 9, 10],
     r_group_origins = [], palette_ram = replicate 512 0, dma_limit = 0, dma_on = False\<rparr>"

definition demo_regs :: hub_hw where
  "demo_regs = \<lparr>hw_palette_banks = 2, hw_fb_base_now = 0, hw_has_rgb_order = True, hw_columns = 2, hw_rows = 2,
     hw_config = 0x4000, hw_driver = 0, hw_frame_id = 0, hw_total_chunks = 0, hw_indexed = 0, hw_arrival = [], hw_done = [],
     hw_done_frame_id = 0, hw_done_total = 0, hw_done_indexed = 0, hw_done_seq = (0, 0), hw_last_chunk = 0\<rparr>"


lemma put_pages_log:
  assumes "erase_sectors ops = (\<lambda>a n m. Some m)" "write_bytes ops = (\<lambda>a pg m. Some (unat a # m))"
  shows "put_pages ops bs ps m = Some (rev (map (\<lambda>p. unat (of_nat (3145728 + 256 * p) :: u32)) ps) @ m)"
proof (induction ps arbitrary: m)
  case (Cons p ps)
  have "256 * p + 255 - (256 * p + 255) mod 256 = 256 * p" by (simp add: mod_mult_self3)
  then have "put_page ops (256 * p + 255) (page bs p) m = Some (unat (of_nat (3145728 + 256 * p) :: u32) # m)"
    by (simp add: put_page_def assms Let_def img_offset_def FLASH_SIZE_def del: of_nat_add)
  then show ?case using Cons by simp
qed simp

text \<open>
  C24. The framebuffers hold more than the picture's quarter of the flash: saving a picture of
  262,080 pixels or more sends a write whose address is past the end of the 4 MB chip.
\<close>

theorem long_picture_leaves_flash:
  assumes "262080 \<le> unat (hlength h)" "unat (hlength h) \<le> MAX_IMG_PIXELS" "unat (hlength h) \<le> length (fb_front h)"
    and log: "erase_sectors ops = (\<lambda>a n m. Some m)" "write_bytes ops = (\<lambda>a pg m. Some (unat a # m))"
  shows "\<exists>as. save_spi_image hw ops h [] = Some as \<and> (\<exists>a \<in> set as. FLASH_SIZE \<le> a)"
proof -
  let ?bs = "write_image (r_width h) (hlength h) (get_panel_params hw h) (read_img_data h)"
  have "length (take 64 ([ucast (r_width h), hlength h, 0xD1581A40, 0xDA5A0001] @ get_panel_params hw h @ replicate 64 0)) = 64"
    by simp
  moreover have "length (take (unat (hlength h)) (read_img_data h)) = unat (hlength h)"
    using assms(3) by (simp add: read_img_data_def)
  ultimately have len: "length ?bs = 4 * 64 + 4 * unat (hlength h)"
    unfolding write_image_def length_le_bytes length_append by (simp only: distrib_left)
  then have "?bs \<noteq> []" by (metis add_is_0 list.size(3) mult_is_0 zero_neq_numeral)
  then have s: "save_spi_image hw ops h [] =
      Some (rev (map (\<lambda>p. unat (of_nat (3145728 + 256 * p) :: u32)) [0..<length ?bs div 256 + 1]))"
    by (simp add: save_spi_image_def get_img_param_def store_image_pages put_pages_log [OF log] del: upt_Suc of_nat_add)
  have "4096 < length ?bs div 256 + 1" unfolding len using assms(1) by (simp add: less_Suc_eq_le less_eq_div_iff_mult_less_eq)
  then have "4096 \<in> set [0..<length ?bs div 256 + 1]" by (simp only: set_upt atLeastLessThan_iff le0 simp_thms)
  moreover have "unat (of_nat (3145728 + 256 * 4096) :: u32) = FLASH_SIZE" by (simp add: FLASH_SIZE_def)
  ultimately have "FLASH_SIZE \<in> (\<lambda>p. unat (of_nat (3145728 + 256 * p) :: u32)) ` set [0..<length ?bs div 256 + 1]"
    by (metis (mono_tags, lifting) imageI)
  then show ?thesis unfolding s by (intro exI conjI [OF refl]) auto
qed

theorem long_picture_leaves_flash_witness:
  "\<exists>as. save_spi_image demo_regs \<lparr>erase_sectors = (\<lambda>a n m. Some m), write_bytes = (\<lambda>a pg m. Some (unat a # m)), mapped = (\<lambda>m i. 0)\<rparr>
     (demo_hub\<lparr>hlength := 262144, fb_front := replicate 262144 0\<rparr>) [] = Some as \<and> (\<exists>a \<in> set as. FLASH_SIZE \<le> a)"
  by (rule long_picture_leaves_flash)
    (simp_all add: MAX_IMG_PIXELS_def FB_HALF_WORDS_def FB_TOTAL_WORDS_def)

end
