(* ===== verification/Artnet.thy ===== *)
theory Artnet
  imports Hub75_Dev
begin

text \<open>
  \<^verbatim>\<open>src/artnet.rs\<close>: decoding of an ArtDmx packet into the index of its first pixel and
  the words it carries, and \<^verbatim>\<open>handle_artnet\<close> (\<^verbatim>\<open>src/network.rs\<close>), which takes
  the last two universes as the palette.
\<close>

unbundle bit_operations_syntax

definition HEADER_LEN :: nat where [src_consts]: "HEADER_LEN = 18"
definition OP_DMX :: u16 where [src_consts]: "OP_DMX = 0x5000"
definition MIN_PROT_VER :: u16 where [src_consts]: "MIN_PROT_VER = 14"
definition PIXELS_PER_UNIVERSE :: nat where [src_consts]: "PIXELS_PER_UNIVERSE = 170"

text \<open>The bytes of \<^verbatim>\<open>Art-Net\0\<close>.\<close>

definition artnet_magic :: "u8 list" where
  "artnet_magic = [0x41, 0x72, 0x74, 0x2D, 0x4E, 0x65, 0x74, 0]"

definition dmx_word :: "u8 \<Rightarrow> u8 \<Rightarrow> u8 \<Rightarrow> u32" where
  "dmx_word r g b = push_bit 16 (ucast b) OR push_bit 8 (ucast g) OR ucast r"

text \<open>\<^verbatim>\<open>chunks_exact(3)\<close>: what is left over at the end is dropped.\<close>

fun dmx_words :: "u8 list \<Rightarrow> u32 list" where
  "dmx_words (r # g # b # bs) = dmx_word r g b # dmx_words bs"
| "dmx_words _ = []"

definition packet2hub75 :: "u8 list \<Rightarrow> unit + nat \<times> u32 list" where
  "packet2hub75 data =
     (if length data < HEADER_LEN then Inl ()
      else if take 8 data \<noteq> artnet_magic then Inl ()
      else if u16_le (data ! 8) (data ! 9) \<noteq> OP_DMX then Inl ()
      else if u16_be (data ! 10) (data ! 11) < MIN_PROT_VER then Inl ()
      else let universe = u16_le (data ! 14) (data ! 15); len = unat (u16_be (data ! 16) (data ! 17)) in
        if len > 512 \<or> length data < HEADER_LEN + len then Inl ()
        else Inr (unat universe * PIXELS_PER_UNIVERSE, dmx_words (take len (drop HEADER_LEN data))))"

text \<open>The datagrams that wait in the socket, one after the other.\<close>

definition artnet_palette :: "hub_hw \<Rightarrow> u8 list \<Rightarrow> hub75 \<Rightarrow> hub75" where
  "artnet_palette hw data h =
     (case packet2hub75 data of
        Inl _ \<Rightarrow> h
      | Inr (offset, ws) \<Rightarrow>
         let palette_offset = (2 ^ 16 - 2) * 170 in
         if offset \<ge> palette_offset then set_palette hw (of_nat (offset - palette_offset)) ws h else h)"

definition handle_artnet :: "hub_hw \<Rightarrow> u8 list list \<Rightarrow> hub75 \<Rightarrow> hub75" where
  "handle_artnet hw = fold (artnet_palette hw)"

text \<open>A packet as a lighting desk sends it, with anything after it (the tests' \<^verbatim>\<open>dmx\<close>).\<close>

definition dmx_packet :: "u16 \<Rightarrow> u16 \<Rightarrow> u8 \<Rightarrow> u8 \<Rightarrow> u8 list \<Rightarrow> u8 list" where
  "dmx_packet ver universe sq phys channels =
     artnet_magic @ [ucast OP_DMX, ucast (drop_bit 8 OP_DMX), ucast (drop_bit 8 ver), ucast ver, sq, phys,
       ucast universe, ucast (drop_bit 8 universe),
       ucast (drop_bit 8 (of_nat (length channels) :: u16)), ucast (of_nat (length channels) :: u16)] @ channels"

lemma be_bytes: "ucast (drop_bit 8 (u16_be a b)) = a" "(ucast (u16_be a b) :: u8) = b"
  unfolding u16_be_def by (rule bit_word_eqI, auto simp: bit_simps dest: bit_imp_le_length)+

lemma le_bytes: "ucast (drop_bit 8 (u16_le a b)) = b" "(ucast (u16_le a b) :: u8) = a"
  by (simp_all add: u16_le_def be_bytes)


end
