(* ===== verification/Pearson.thy ===== *)
theory Pearson
  imports LW_Prelude
begin

text \<open>\<^verbatim>\<open>src/pearson_hash.rs\<close>: Pearson hashing, as many bytes of hash as the caller asks for.\<close>

unbundle bit_operations_syntax

definition RAND_TABLE :: "u8 list" where
  "RAND_TABLE =
    [29, 186, 180, 162, 184, 218, 3, 141, 55, 0, 72, 98, 226, 108, 220, 158, 231, 248, 247, 251,
     130, 46, 174, 135, 170, 127, 163, 109, 229, 36, 45, 145, 79, 137, 122, 12, 182, 117, 17, 198,
     204, 212, 39, 189, 52, 200, 102, 149, 15, 124, 233, 64, 88, 225, 105, 183, 131, 114, 187, 197,
     165, 48, 56, 214, 227, 41, 95, 4, 93, 243, 239, 38, 61, 116, 51, 90, 236, 89, 18, 196,
     213, 42, 96, 104, 27, 11, 21, 203, 250, 194, 57, 85, 54, 211, 32, 25, 140, 121, 147, 171,
     6, 115, 234, 206, 101, 8, 7, 33, 112, 159, 28, 240, 238, 92, 249, 22, 129, 208, 118, 125,
     179, 24, 178, 143, 156, 63, 207, 164, 103, 172, 71, 157, 185, 199, 128, 181, 175, 193, 154, 152,
     176, 26, 9, 132, 62, 151, 2, 97, 205, 120, 77, 190, 150, 146, 50, 23, 155, 47, 126, 119,
     254, 40, 241, 192, 144, 83, 138, 49, 113, 160, 74, 70, 253, 217, 110, 58, 5, 228, 136, 87,
     215, 169, 14, 168, 73, 219, 167, 10, 148, 173, 100, 35, 222, 76, 221, 139, 235, 16, 69, 166,
     133, 210, 67, 30, 84, 43, 202, 161, 195, 223, 53, 34, 232, 245, 237, 230, 59, 80, 191, 91,
     66, 209, 75, 78, 44, 65, 1, 188, 252, 107, 86, 177, 242, 134, 13, 246, 99, 20, 81, 111,
     68, 153, 37, 123, 216, 224, 19, 31, 82, 106, 201, 244, 60, 142, 94, 255]"

definition pearson_byte :: "u8 list \<Rightarrow> u8 \<Rightarrow> u8" where
  "pearson_byte input h = fold (\<lambda>b h. RAND_TABLE ! unat (h XOR b)) input h"

text \<open>The assertion on the size of the output is the panic.\<close>

definition pearson_hash :: "u8 list \<Rightarrow> nat \<Rightarrow> u8 list option" where
  "pearson_hash input n =
     (if n < 256 then Some (map (\<lambda>count. pearson_byte input (RAND_TABLE ! count)) [0..<n]) else None)"

section \<open>The table is a permutation\<close>

lemma length_table: "length RAND_TABLE = 256"
  by (simp add: RAND_TABLE_def)

lemma distinct_table: "distinct RAND_TABLE"
proof -
  have "map uint RAND_TABLE =
    [29, 186, 180, 162, 184, 218, 3, 141, 55, 0, 72, 98, 226, 108, 220, 158, 231, 248, 247, 251, 130, 46, 174, 135,
     170, 127, 163, 109, 229, 36, 45, 145, 79, 137, 122, 12, 182, 117, 17, 198, 204, 212, 39, 189, 52, 200, 102, 149,
     15, 124, 233, 64, 88, 225, 105, 183, 131, 114, 187, 197, 165, 48, 56, 214, 227, 41, 95, 4, 93, 243, 239, 38,
     61, 116, 51, 90, 236, 89, 18, 196, 213, 42, 96, 104, 27, 11, 21, 203, 250, 194, 57, 85, 54, 211, 32, 25,
     140, 121, 147, 171, 6, 115, 234, 206, 101, 8, 7, 33, 112, 159, 28, 240, 238, 92, 249, 22, 129, 208, 118, 125,
     179, 24, 178, 143, 156, 63, 207, 164, 103, 172, 71, 157, 185, 199, 128, 181, 175, 193, 154, 152, 176, 26, 9, 132,
     62, 151, 2, 97, 205, 120, 77, 190, 150, 146, 50, 23, 155, 47, 126, 119, 254, 40, 241, 192, 144, 83, 138, 49,
     113, 160, 74, 70, 253, 217, 110, 58, 5, 228, 136, 87, 215, 169, 14, 168, 73, 219, 167, 10, 148, 173, 100, 35,
     222, 76, 221, 139, 235, 16, 69, 166, 133, 210, 67, 30, 84, 43, 202, 161, 195, 223, 53, 34, 232, 245, 237, 230,
     59, 80, 191, 91, 66, 209, 75, 78, 44, 65, 1, 188, 252, 107, 86, 177, 242, 134, 13, 246, 99, 20, 81, 111,
     68, 153, 37, 123, 216, 224, 19, 31, 82, 106, 201, 244, 60, 142, 94, 255]"
    by (simp add: RAND_TABLE_def)
  moreover have "distinct
    [29, 186, 180, 162, 184, 218, 3, 141, 55, 0, 72, 98, 226, 108, 220, 158, 231, 248, 247, 251, 130, 46, 174, 135,
     170, 127, 163, 109, 229, 36, 45, 145, 79, 137, 122, 12, 182, 117, 17, 198, 204, 212, 39, 189, 52, 200, 102, 149,
     15, 124, 233, 64, 88, 225, 105, 183, 131, 114, 187, 197, 165, 48, 56, 214, 227, 41, 95, 4, 93, 243, 239, 38,
     61, 116, 51, 90, 236, 89, 18, 196, 213, 42, 96, 104, 27, 11, 21, 203, 250, 194, 57, 85, 54, 211, 32, 25,
     140, 121, 147, 171, 6, 115, 234, 206, 101, 8, 7, 33, 112, 159, 28, 240, 238, 92, 249, 22, 129, 208, 118, 125,
     179, 24, 178, 143, 156, 63, 207, 164, 103, 172, 71, 157, 185, 199, 128, 181, 175, 193, 154, 152, 176, 26, 9, 132,
     62, 151, 2, 97, 205, 120, 77, 190, 150, 146, 50, 23, 155, 47, 126, 119, 254, 40, 241, 192, 144, 83, 138, 49,
     113, 160, 74, 70, 253, 217, 110, 58, 5, 228, 136, 87, 215, 169, 14, 168, 73, 219, 167, 10, 148, 173, 100, 35,
     222, 76, 221, 139, 235, 16, 69, 166, 133, 210, 67, 30, 84, 43, 202, 161, 195, 223, 53, 34, 232, 245, 237, 230,
     59, 80, 191, 91, 66, 209, 75, 78, 44, 65, 1, 188, 252, 107, 86, 177, 242, 134, 13, 246, 99, 20, 81, 111,
     68, 153, 37, 123, 216, 224, 19, 31, 82, 106, 201, 244, 60, 142, 94, 255 :: int]"
    by (simp only: distinct.simps list.set insert_iff empty_iff rel_simps simp_thms)
  ultimately show ?thesis by (metis distinct_map)
qed

lemma table_inj: "RAND_TABLE ! unat (a :: u8) = RAND_TABLE ! unat b \<longleftrightarrow> a = b"
  using nth_eq_iff_index_eq [OF distinct_table, of "unat a" "unat b"]
  by (metis length_table unat_u8_less word_unat_eq_iff)

lemma pearson_byte_inj: "pearson_byte input h = pearson_byte input h' \<longleftrightarrow> h = h'"
proof (induction input arbitrary: h h')
  case (Cons b bs)
  have "h XOR b = h' XOR b \<longleftrightarrow> h = h'" by (metis xor.assoc xor.right_neutral xor_self_eq)
  then show ?case using Cons [of "RAND_TABLE ! unat (h XOR b)" "RAND_TABLE ! unat (h' XOR b)"]
    by (simp add: pearson_byte_def table_inj)
qed (simp add: pearson_byte_def)

lemma pearson_byte_append: "pearson_byte (xs @ ys) h = pearson_byte ys (pearson_byte xs h)"
  by (simp add: pearson_byte_def)

text \<open>
  A change of one byte of the input changes every byte of the hash, wherever it is; and the
  bytes of one hash are all different.
\<close>

theorem hash_detects_byte:
  assumes "pearson_hash (xs @ b # ys) n = Some h" "pearson_hash (xs @ b' # ys) n = Some h'" "b \<noteq> b'"
  shows "length h = n \<and> length h' = n \<and> (\<forall>i < n. h ! i \<noteq> h' ! i) \<and> distinct h"
proof -
  have n: "n < 256" and h: "h = map (\<lambda>c. pearson_byte (xs @ b # ys) (RAND_TABLE ! c)) [0..<n]"
    "h' = map (\<lambda>c. pearson_byte (xs @ b' # ys) (RAND_TABLE ! c)) [0..<n]"
    using assms by (auto simp: pearson_hash_def split: if_splits)
  have "pearson_byte (xs @ b # ys) g \<noteq> pearson_byte (xs @ b' # ys) g" for g
  proof -
    have "k XOR b = k XOR b' \<longleftrightarrow> b = b'" for k :: u8 by (metis xor.assoc xor.left_neutral xor_self_eq)
    then show ?thesis
      using pearson_byte_inj [of ys] assms(3) unfolding pearson_byte_append
      by (simp add: pearson_byte_def [of "_ # _"] table_inj flip: pearson_byte_def)
  qed
  moreover have "distinct h"
    using n distinct_table unfolding h
    by (auto simp: distinct_map inj_on_def pearson_byte_inj nth_eq_iff_index_eq length_table)
  ultimately show ?thesis by (simp add: h)
qed

theorem hash_detects_byte_witness:
  "\<exists>h h'. pearson_hash [1, 2, 3] 4 = Some h \<and> pearson_hash [1, 7, 3] 4 = Some h' \<and> (\<forall>i < 4. h ! i \<noteq> h' ! i)"
proof -
  obtain h h' where "pearson_hash ([1] @ 2 # [3]) 4 = Some h" "pearson_hash ([1] @ 7 # [3]) 4 = Some h'"
    by (simp add: pearson_hash_def)
  from hash_detects_byte [OF this] this show ?thesis by auto
qed

end
