(* ===== verification/Program_Run.thy ===== *)
theory Program_Run
  imports Bitmap_Udp Panel_Program
begin

text \<open>
  \<^verbatim>\<open>src/network.rs\<close>, the part that runs a program on the panel: \<^verbatim>\<open>program_tick\<close>
  and what starts and stops it. The statics are the record \<open>stage\<close>; \<^verbatim>\<open>TIME_MS\<close>, the
  generated table \<^verbatim>\<open>PROGRAMS\<close> and the registers are parameters, and so is the flag as it
  reads when interrupts are off at the end of a frame.
\<close>

section \<open>Programs\<close>

type_synonym row_fn = "ctx \<Rightarrow> nat \<Rightarrow> nat \<Rightarrow> u32 list \<Rightarrow> u32 list"
type_synonym scroll_band = "nat \<times> nat \<times> nat \<times> bool"

record program =
  pr_name :: str
  pr_row :: row_fn
  palette_static :: bool
  pr_dynamic :: "(nat \<times> nat) option"
  pr_scroll :: "scroll_band list"
  pr_palette :: "(ctx \<Rightarrow> nat \<Rightarrow> u32) option"

record stage =
  st_hub :: hub75
  st_rx :: receiver
  st_values :: value_table
  prog_active :: bool
  prog_frame :: u32
  prog_fn :: "program option"
  prog_dynamic :: "(nat \<times> nat) option"
  full_left :: nat
  prime_left :: nat
  seen_writes :: u32
  prog_name :: str
  next_ms :: int
  repaint_pos :: "nat list"
  repaint_left :: "nat list"
  palette_dirty :: bool

definition PROGRAM_PERIOD_MS :: int where [src_consts]: "PROGRAM_PERIOD_MS = 33"
definition REPAINT_SLICE :: nat where [src_consts]: "REPAINT_SLICE = 12"

section \<open>Rows\<close>

fun render_rows :: "row_fn \<Rightarrow> ctx \<Rightarrow> nat \<Rightarrow> nat \<Rightarrow> nat \<Rightarrow> nat list \<Rightarrow> u32 list \<Rightarrow> u32 list" where
  "render_rows row c w x0 n [] buf = buf"
| "render_rows row c w x0 n (y # ys) buf =
     (let start = y * w + x0 in
      if start + n > length buf then buf
      else render_rows row c w x0 n ys (splice start (row c y x0 (take n (drop start buf))) buf))"

definition shift_row :: "bool \<Rightarrow> nat \<Rightarrow> nat \<Rightarrow> nat \<Rightarrow> u32 list \<Rightarrow> u32 list \<Rightarrow> u32 list" where
  "shift_row right speed w base front back =
     (if right then splice (base + speed) (take (w - speed) (drop base front)) back
      else splice base (take (w - speed) (drop (base + speed) front)) back)"

fun shift_rows :: "bool \<Rightarrow> nat \<Rightarrow> nat \<Rightarrow> nat list \<Rightarrow> u32 list \<Rightarrow> u32 list \<Rightarrow> u32 list" where
  "shift_rows right speed w [] front back = back"
| "shift_rows right speed w (y # ys) front back =
     (let base = y * w in
      if base + w > length back \<or> base + w > length front then back
      else shift_rows right speed w ys front (shift_row right speed w base front back))"

text \<open>The prefix of the back half that a slice covers is written back in place.\<close>

definition put_back :: "u32 list \<Rightarrow> hub75 \<Rightarrow> hub75" where
  "put_back buf h = h\<lparr>fb_back := splice 0 buf (fb_back h)\<rparr>"

definition scroll_one :: "row_fn \<Rightarrow> ctx \<Rightarrow> nat \<Rightarrow> nat \<Rightarrow> scroll_band \<Rightarrow> hub75 \<Rightarrow> hub75" where
  "scroll_one row c w h = (\<lambda>(sy0, sy1, speed, right) hub.
     if speed = 0 \<or> speed \<ge> w then hub
     else let ys = [min sy0 h..<min sy1 h];
              hub1 = (case buffers hub of (front, back) \<Rightarrow> put_back (shift_rows right speed w ys front back) hub);
              x0 = (if right then 0 else w - speed) in
       put_back (render_rows row c w x0 speed ys (back_buffer hub1)) hub1)"

definition in_scroll :: "bool \<Rightarrow> scroll_band list \<Rightarrow> nat \<Rightarrow> bool" where
  "in_scroll scrolling bands y \<longleftrightarrow> scrolling \<and> list_ex (\<lambda>(a, b, _, _). a \<le> y \<and> y < b) bands"

definition draw_band :: "row_fn \<Rightarrow> ctx \<Rightarrow> nat \<Rightarrow> nat \<Rightarrow> (nat \<Rightarrow> bool) \<Rightarrow> nat \<times> nat \<Rightarrow> hub75 \<Rightarrow> hub75" where
  "draw_band row c w h skip = (\<lambda>(b0, b1) hub.
     put_back (render_rows row c w 0 w (filter (\<lambda>y. \<not> skip y) [min b0 h..<min b1 h]) (back_buffer hub)) hub)"

text \<open>The owed rows: position, rows left, buffer.\<close>

fun repaint :: "row_fn \<Rightarrow> ctx \<Rightarrow> nat \<Rightarrow> nat \<Rightarrow> (nat \<Rightarrow> bool) \<Rightarrow> nat \<times> nat \<Rightarrow> nat \<Rightarrow> nat \<Rightarrow> nat \<Rightarrow> u32 list
    \<Rightarrow> nat \<times> nat \<times> u32 list" where
  "repaint row c w h skip band budget y 0 buf = (y, 0, buf)"
| "repaint row c w h skip band budget y (Suc left) buf =
     (if budget = 0 then (y, Suc left, buf)
      else if skip y \<or> y \<ge> h \<or> (y \<ge> fst band \<and> y < snd band) then repaint row c w h skip band budget (y + 1) left buf
      else if y * w + w > length buf then (y + 1, left, buf)
      else repaint row c w h skip band (budget - 1) (y + 1) left
             (splice (y * w) (row c y 0 (take w (drop (y * w) buf))) buf))"

definition pay_repaint :: "hub_hw \<Rightarrow> row_fn \<Rightarrow> ctx \<Rightarrow> nat \<Rightarrow> nat \<Rightarrow> (nat \<Rightarrow> bool) \<Rightarrow> nat \<times> nat \<Rightarrow> stage \<Rightarrow> stage" where
  "pay_repaint hw row c w h skip band st =
     (if repaint_left st ! 0 > 0 \<or> repaint_left st ! 1 > 0 then
        (let bi = back_index hw in
         case repaint row c w h skip band REPAINT_SLICE (repaint_pos st ! bi) (repaint_left st ! bi) (back_buffer (st_hub st)) of
           (pos, left, buf) \<Rightarrow>
             st\<lparr>repaint_pos := (repaint_pos st)[bi := pos], repaint_left := (repaint_left st)[bi := left],
                st_hub := put_back buf (st_hub st)\<rparr>)
      else st)"

section \<open>A tick\<close>

definition on_hub :: "(hub75 \<Rightarrow> hub75) \<Rightarrow> stage \<Rightarrow> stage" where
  "on_hub f st = st\<lparr>st_hub := f (st_hub st)\<rparr>"

definition tick_palette :: "hub_hw \<Rightarrow> program \<Rightarrow> ctx \<Rightarrow> stage \<Rightarrow> stage" where
  "tick_palette hw prog c st =
     (case pr_palette prog of
        None \<Rightarrow> st
      | Some pf \<Rightarrow>
         if \<not> palette_static prog then on_hub (set_palette hw 0 (map (pf c) [0..<256])) st
         else if palette_dirty st then (on_hub (set_palette_all hw 0 (pf c)) st)\<lparr>palette_dirty := False\<rparr>
         else st)"

definition owe_repaint :: "nat \<Rightarrow> stage \<Rightarrow> stage" where
  "owe_repaint h st =
     (if writes (st_values st) \<noteq> seen_writes st
      then st\<lparr>seen_writes := writes (st_values st), repaint_pos := [0, 0], repaint_left := [h, h]\<rparr>
      else st)"

definition animated :: "program \<Rightarrow> stage \<Rightarrow> bool" where
  "animated prog st \<longleftrightarrow> pr_scroll prog \<noteq> [] \<or> (pr_palette prog \<noteq> None \<and> \<not> palette_static prog) \<or>
     prog_dynamic st \<noteq> None \<or> repaint_left st ! 0 > 0 \<or> repaint_left st ! 1 > 0"

definition frame_band :: "nat \<Rightarrow> stage \<Rightarrow> nat \<times> nat" where
  "frame_band h st = (case prog_dynamic st of Some b \<Rightarrow> if full_left st = 0 then b else (0, h) | None \<Rightarrow> (0, h))"

definition draw_frame :: "hub_hw \<Rightarrow> program \<Rightarrow> ctx \<Rightarrow> nat \<Rightarrow> nat \<Rightarrow> stage \<Rightarrow> stage" where
  "draw_frame hw prog c w h st =
     (let row = pr_row prog; band = frame_band h st;
          scrolling = (pr_scroll prog \<noteq> [] \<and> prime_left st = 0);
          st1 = st\<lparr>prog_frame := prog_frame st + 1, full_left := full_left st - 1, prime_left := prime_left st - 1\<rparr>;
          st2 = (if scrolling then on_hub (fold (scroll_one row c w h) (pr_scroll prog)) st1 else st1);
          skip = in_scroll scrolling (pr_scroll prog);
          st3 = on_hub (draw_band row c w h skip band) st2 in
      pay_repaint hw row c w h skip band st3)"

definition show_frame :: "hub75 \<Rightarrow> hub75" where
  "show_frame hub = hub_on (swap_buffers (set_mode Indexed hub))"

definition program_tick :: "hub_hw \<Rightarrow> program list \<Rightarrow> int \<Rightarrow> bool \<Rightarrow> stage \<Rightarrow> stage" where
  "program_tick hw progs t act st =
     (if t < next_ms st then st
      else let st0 = st\<lparr>next_ms := t + PROGRAM_PERIOD_MS\<rparr>; (wd, len) = get_img_param (st_hub st0) in
      if wd = 0 \<or> len = 0 then st0
      else let w = unat wd; h = unat len div w;
        c = \<lparr>c_w = of_nat w, c_h = of_nat h, c_frame = prog_frame st0, c_time = t, c_values = st_values st0\<rparr>;
        prog = (case prog_fn st0 of Some p \<Rightarrow> p | None \<Rightarrow> progs ! 0);
        st1 = (if auto_swap (st_hub st0) then on_hub (set_auto_swap False) st0 else st0);
        st2 = owe_repaint h (tick_palette hw prog c st1) in
      if full_left st2 = 0 \<and> \<not> animated prog st2 then st2
      else let st3 = draw_frame hw prog c w h st2 in
        if act then on_hub show_frame st3 else st3)"

section \<open>Starting and stopping\<close>

definition set_stream_hold :: "bool \<Rightarrow> stage \<Rightarrow> stage" where
  "set_stream_hold on st = on_hub (set_dma_enabled (\<not> on)) (st\<lparr>st_rx := set_hold on (st_rx st)\<rparr>)"

definition by_name :: "program list \<Rightarrow> str \<Rightarrow> program option" where
  "by_name progs n = find (\<lambda>p. pr_name p = n) progs"

definition choose_program :: "program \<Rightarrow> stage \<Rightarrow> stage" where
  "choose_program p st = st\<lparr>prog_fn := Some p, prog_dynamic := pr_dynamic p, prog_name := pr_name p\<rparr>"

definition select_program :: "program list \<Rightarrow> str option \<Rightarrow> stage \<Rightarrow> stage" where
  "select_program progs name st =
     (let st1 = (case Option.bind name (by_name progs) of Some p \<Rightarrow> choose_program p st | None \<Rightarrow> st);
          st2 = (if prog_fn st1 = None then choose_program (progs ! 0) st1 else st1) in
      st2\<lparr>full_left := 2, prime_left := 2, palette_dirty := True\<rparr>)"

text \<open>\<^verbatim>\<open>api_program_set\<close> but for the text of its answer; \<open>filt\<close> is the pixel filter's register.\<close>

definition program_set :: "hub_hw \<Rightarrow> program list \<Rightarrow> bool \<Rightarrow> str option \<Rightarrow> bool \<Rightarrow> stage \<Rightarrow> stage" where
  "program_set hw progs filt name on st =
     (let st1 = (if on then select_program progs name st else st);
          st2 = on_hub (set_auto_swap (filt \<and> \<not> on)) (st1\<lparr>prog_active := on\<rparr>);
          st3 = set_stream_hold on st2 in
      if on then
        (let st4 = on_hub (set_palette_all hw 0 palette_default) (st3\<lparr>prog_frame := 0, next_ms := 0\<rparr>) in
         st4\<lparr>st_rx := invalidate_mode_cache (st_rx st4)\<rparr>)
      else st3)"

end
