(* ===== verification/Program_Show.thy ===== *)
theory Program_Show
  imports Program_Run
begin

text \<open>
  What \<^verbatim>\<open>program_tick\<close> puts on the glass. A program draws what it declares: some rows
  scroll, some are drawn every frame, the others depend on the values alone. Then every tick
  shows the frame of its moment, but for the rows a value has changed and that are still owed.
\<close>

section \<open>Rows of a buffer\<close>

lemma in_row:
  fixes i y w x0 n :: nat
  assumes "0 < w" "x0 + n \<le> w"
  shows "y * w + x0 \<le> i \<and> i < y * w + x0 + n \<longleftrightarrow> i div w = y \<and> x0 \<le> i mod w \<and> i mod w < x0 + n"
proof
  assume h: "y * w + x0 \<le> i \<and> i < y * w + x0 + n"
  then have "y * w \<le> i" "i < y * w + w" using assms(2) by linarith+
  then have "i div w = y" by (intro div_nat_eqI) (simp_all add: mult.commute)
  then have "i = y * w + i mod w" using div_mult_mod_eq [of i w] by simp
  then show "i div w = y \<and> x0 \<le> i mod w \<and> i mod w < x0 + n" using h \<open>i div w = y\<close> by linarith
next
  assume h: "i div w = y \<and> x0 \<le> i mod w \<and> i mod w < x0 + n"
  then have "i = y * w + i mod w" using div_mult_mod_eq [of i w] by simp
  then show "y * w + x0 \<le> i \<and> i < y * w + x0 + n" using h by linarith
qed

definition honest :: "row_fn \<Rightarrow> (ctx \<Rightarrow> nat \<Rightarrow> nat \<Rightarrow> u32) \<Rightarrow> bool" where
  "honest row px \<longleftrightarrow> (\<forall>c y x0 s. row c y x0 s = map (\<lambda>i. px c y (x0 + i)) [0..<length s])"

lemma draw_row:
  assumes hon: "honest row px" and w: "0 < w" "x0 + n \<le> w" and fits: "y * w + w \<le> length buf"
  shows "length (splice (y * w + x0) (row c y x0 (take n (drop (y * w + x0) buf))) buf) = length buf"
    and "i < length buf \<Longrightarrow> splice (y * w + x0) (row c y x0 (take n (drop (y * w + x0) buf))) buf ! i =
      (if i div w = y \<and> x0 \<le> i mod w \<and> i mod w < x0 + n then px c y (i mod w) else buf ! i)"
proof -
  have s: "row c y x0 (take n (drop (y * w + x0) buf)) = map (\<lambda>i. px c y (x0 + i)) [0..<n]"
    using hon w fits by (simp add: honest_def)
  show "length (splice (y * w + x0) (row c y x0 (take n (drop (y * w + x0) buf))) buf) = length buf"
    unfolding s using w fits by simp
  assume i: "i < length buf"
  have b: "y * w + x0 + length (map (\<lambda>i. px c y (x0 + i)) [0..<n]) \<le> length buf" using w fits by simp
  have val: "map (\<lambda>i. px c y (x0 + i)) [0..<n] ! (i - (y * w + x0)) = px c y (i mod w)"
    if "i div w = y \<and> x0 \<le> i mod w \<and> i mod w < x0 + n"
  proof -
    have "i = y * w + i mod w" using that div_mult_mod_eq [of i w] by simp
    then have "i - (y * w + x0) = i mod w - x0" "i mod w - x0 < n" "x0 + (i mod w - x0) = i mod w"
      using that by linarith+
    then show ?thesis by simp
  qed
  show "splice (y * w + x0) (row c y x0 (take n (drop (y * w + x0) buf))) buf ! i =
      (if i div w = y \<and> x0 \<le> i mod w \<and> i mod w < x0 + n then px c y (i mod w) else buf ! i)"
    unfolding s nth_splice [OF b i] length_map length_upt diff_zero in_row [OF w] using val by (simp only: split: if_split) blast
qed

lemma render_rows_nth:
  assumes hon: "honest row px" and w: "0 < w" "x0 + n \<le> w"
  shows "\<forall>y \<in> set ys. y * w + w \<le> length buf \<Longrightarrow>
    length (render_rows row c w x0 n ys buf) = length buf \<and>
    (\<forall>i < length buf. render_rows row c w x0 n ys buf ! i =
      (if i div w \<in> set ys \<and> x0 \<le> i mod w \<and> i mod w < x0 + n then px c (i div w) (i mod w) else buf ! i))"
proof (induction ys arbitrary: buf)
  case (Cons y ys)
  let ?b = "splice (y * w + x0) (row c y x0 (take n (drop (y * w + x0) buf))) buf"
  have y: "y * w + w \<le> length buf" using Cons.prems by simp
  note d = draw_row [OF hon w y]
  have "\<not> y * w + x0 + n > length buf" using y w by simp
  then have r: "render_rows row c w x0 n (y # ys) buf = render_rows row c w x0 n ys ?b" by (simp add: Let_def)
  have "\<forall>y \<in> set ys. y * w + w \<le> length ?b" using Cons.prems by (simp add: d(1))
  from Cons.IH [OF this] show ?case unfolding r by (auto simp: d)
qed simp

lemma shift_row_nth:
  assumes w: "0 < speed" "speed < w" and fits: "y * w + w \<le> length back" "y * w + w \<le> length front"
  shows "length (shift_row right speed w (y * w) front back) = length back"
    and "i < length back \<Longrightarrow> shift_row right speed w (y * w) front back ! i =
      (if i div w = y \<and> (if right then speed \<le> i mod w else i mod w < w - speed)
       then front ! (if right then i - speed else i + speed) else back ! i)"
proof -
  have w0: "0 < w" using w by simp
  show "length (shift_row right speed w (y * w) front back) = length back"
    using w fits by (simp add: shift_row_def)
  assume i: "i < length back"
  have mod: "i mod w < w" using w0 by simp
  show "shift_row right speed w (y * w) front back ! i =
      (if i div w = y \<and> (if right then speed \<le> i mod w else i mod w < w - speed)
       then front ! (if right then i - speed else i + speed) else back ! i)"
  proof (cases right)
    case True
    have b: "y * w + speed + length (take (w - speed) (drop (y * w) front)) \<le> length back"
      and l: "length (take (w - speed) (drop (y * w) front)) = w - speed" using w fits by simp_all
    have r: "(y * w + speed \<le> i \<and> i < y * w + speed + (w - speed)) = (i div w = y \<and> speed \<le> i mod w)"
      using in_row [OF w0, of speed "w - speed" y i] w mod by simp
    have v: "take (w - speed) (drop (y * w) front) ! (i - (y * w + speed)) = front ! (i - speed)"
      if "i div w = y \<and> speed \<le> i mod w"
    proof -
      have "y * w + speed \<le> i \<and> i < y * w + speed + (w - speed)" using that r by blast
      then have "i - (y * w + speed) < w - speed" "y * w + (i - (y * w + speed)) = i - speed" by linarith+
      then show ?thesis using fits(2) by simp
    qed
    have "splice (y * w + speed) (take (w - speed) (drop (y * w) front)) back ! i =
        (if i div w = y \<and> speed \<le> i mod w then front ! (i - speed) else back ! i)"
      unfolding nth_splice [OF b i] l r using v by (simp only: split: if_split) blast
    then show ?thesis using True by (simp add: shift_row_def)
  next
    case False
    have b: "y * w + length (take (w - speed) (drop (y * w + speed) front)) \<le> length back"
      and l: "length (take (w - speed) (drop (y * w + speed) front)) = w - speed" using w fits by simp_all
    have r: "(y * w \<le> i \<and> i < y * w + (w - speed)) = (i div w = y \<and> i mod w < w - speed)"
      using in_row [OF w0, of 0 "w - speed" y i] w by simp
    have v: "take (w - speed) (drop (y * w + speed) front) ! (i - y * w) = front ! (i + speed)"
      if "i div w = y \<and> i mod w < w - speed"
    proof -
      have "y * w \<le> i \<and> i < y * w + (w - speed)" using that r by blast
      then have "i - y * w < w - speed" "y * w + speed + (i - y * w) = i + speed" by linarith+
      then show ?thesis using fits(2) w by (simp add: add.commute)
    qed
    have "splice (y * w) (take (w - speed) (drop (y * w + speed) front)) back ! i =
        (if i div w = y \<and> i mod w < w - speed then front ! (i + speed) else back ! i)"
      unfolding nth_splice [OF b i] l r using v by (simp only: split: if_split) blast
    then show ?thesis using False by (simp add: shift_row_def)
  qed
qed

lemma shift_rows_nth:
  assumes w: "0 < speed" "speed < w"
  shows "\<forall>y \<in> set ys. y * w + w \<le> length old \<and> y * w + w \<le> length front \<Longrightarrow>
    length (shift_rows right speed w ys front old) = length old \<and>
    (\<forall>i < length old. shift_rows right speed w ys front old ! i =
      (if i div w \<in> set ys \<and> (if right then speed \<le> i mod w else i mod w < w - speed)
       then front ! (if right then i - speed else i + speed) else old ! i))"
proof (induction ys arbitrary: old)
  case (Cons y ys)
  have y: "y * w + w \<le> length old" "y * w + w \<le> length front" using Cons.prems by simp_all
  note d = shift_row_nth [OF w y]
  have r: "shift_rows right speed w (y # ys) front old
      = shift_rows right speed w ys front (shift_row right speed w (y * w) front old)" using y by (simp add: Let_def)
  have "\<forall>z \<in> set ys. z * w + w \<le> length (shift_row right speed w (y * w) front old) \<and> z * w + w \<le> length front"
    using Cons.prems by (simp add: d(1))
  from Cons.IH [OF this] show ?case unfolding r by (auto simp: d)
qed simp


section \<open>The display as rows\<close>

definition geo :: "nat \<Rightarrow> nat \<Rightarrow> hub75 \<Rightarrow> bool" where
  "geo w h hub \<longleftrightarrow> 0 < w \<and> 0 < h \<and> unat (r_width hub) = w \<and> unat (hlength hub) div w = h \<and>
     unat (hlength hub) \<le> length (fb_back hub) \<and> unat (hlength hub) \<le> length (fb_front hub) \<and>
     active_buf hub < 2 \<and> r_fb_base hub = base_of (active_buf hub)"

definition pix :: "nat \<Rightarrow> u32 list \<Rightarrow> nat \<Rightarrow> nat \<Rightarrow> u32" where "pix w buf y x = buf ! (y * w + x)"

definition redrawn :: "hub75 \<Rightarrow> hub75 \<Rightarrow> bool" where
  "redrawn hub hub' \<longleftrightarrow> (\<exists>b. hub' = hub\<lparr>fb_back := b\<rparr> \<and> length b = length (fb_back hub))"

lemma redrawn_refl [simp]: "redrawn hub hub"
  unfolding redrawn_def by (rule exI [of _ "fb_back hub"]) simp

lemma redrawn_trans [trans]: "redrawn a b \<Longrightarrow> redrawn b c \<Longrightarrow> redrawn a c"
  by (auto simp: redrawn_def)

lemma redrawn_keeps:
  assumes "redrawn hub hub'"
  shows "geo w h hub' = geo w h hub" "fb_front hub' = fb_front hub" "r_fb_base hub' = r_fb_base hub"
  using assms by (auto simp: redrawn_def geo_def)

lemma geo_fits:
  assumes "geo w h hub" "y < h"
  shows "y * w + w \<le> img_len hub" "img_len hub \<le> length (fb_front hub)" "img_len hub = unat (hlength hub)"
proof -
  show len: "img_len hub = unat (hlength hub)" using assms(1) by (simp add: geo_def img_len_def)
  show "img_len hub \<le> length (fb_front hub)" using assms(1) len by (simp add: geo_def)
  have "Suc y * w \<le> h * w" using assms(2) by (intro mult_le_mono1) simp
  also have "\<dots> \<le> unat (hlength hub)" using assms(1) by (auto simp: geo_def)
  finally show "y * w + w \<le> img_len hub" using len by (simp add: add.commute)
qed

lemma pix_div:
  fixes w :: nat
  assumes "x < w"
  shows "(y * w + x) div w = y" "(y * w + x) mod w = x"
  using assms by simp_all

lemma put_back_effect:
  assumes len: "length buf = img_len hub"
  shows "redrawn hub (put_back buf hub)"
    and "i < img_len hub \<Longrightarrow> fb_back (put_back buf hub) ! i = buf ! i"
proof -
  have b: "0 + length buf \<le> length (fb_back hub)" using len by (simp add: img_len_def)
  then show "redrawn hub (put_back buf hub)"
    unfolding redrawn_def put_back_def by (intro exI [of _ "splice 0 buf (fb_back hub)"]) simp
  show "i < img_len hub \<Longrightarrow> fb_back (put_back buf hub) ! i = buf ! i"
    using nth_splice [OF b, of i] len by (simp add: put_back_def img_len_def)
qed

lemma drawn_rows:
  fixes c :: ctx
  assumes g: "geo w h hub" and hon: "honest row px" and n: "x0 + n \<le> w" and ys: "\<forall>y \<in> set ys. y < h"
  defines "hub' \<equiv> put_back (render_rows row c w x0 n ys (back_buffer hub)) hub"
  shows "redrawn hub hub'"
    and "y < h \<Longrightarrow> x < w \<Longrightarrow> pix w (fb_back hub') y x =
      (if y \<in> set ys \<and> x0 \<le> x \<and> x < x0 + n then px c y x else pix w (fb_back hub) y x)"
proof -
  have w: "0 < w" using g by (simp add: geo_def)
  have bl: "length (back_buffer hub) = img_len hub" by (simp add: back_buffer_def img_len_def)
  have "\<forall>y \<in> set ys. y * w + w \<le> length (back_buffer hub)" using ys geo_fits(1) [OF g] bl by simp
  note r = render_rows_nth [OF hon w n this, of c]
  then have len: "length (render_rows row c w x0 n ys (back_buffer hub)) = img_len hub" using bl by simp
  show "redrawn hub hub'" unfolding hub'_def by (rule put_back_effect(1) [OF len])
  assume yx: "y < h" "x < w"
  have i: "y * w + x < img_len hub" using geo_fits(1) [OF g yx(1)] yx(2) by linarith
  have "pix w (fb_back hub') y x = render_rows row c w x0 n ys (back_buffer hub) ! (y * w + x)"
    unfolding hub'_def pix_def by (rule put_back_effect(2) [OF len i])
  also have "\<dots> = (if y \<in> set ys \<and> x0 \<le> x \<and> x < x0 + n then px c y x else back_buffer hub ! (y * w + x))"
    using r i bl yx(2) by simp
  also have "back_buffer hub ! (y * w + x) = pix w (fb_back hub) y x" using i by (simp add: back_buffer_def pix_def)
  finally show "pix w (fb_back hub') y x =
      (if y \<in> set ys \<and> x0 \<le> x \<and> x < x0 + n then px c y x else pix w (fb_back hub) y x)" .
qed

lemma shifted_rows:
  fixes right :: bool
  assumes g: "geo w h hub" and sp: "0 < speed" "speed < w" and ys: "\<forall>y \<in> set ys. y < h"
  defines "hub' \<equiv> put_back (shift_rows right speed w ys (fst (buffers hub)) (snd (buffers hub))) hub"
  shows "redrawn hub hub'"
    and "y < h \<Longrightarrow> x < w \<Longrightarrow> pix w (fb_back hub') y x =
      (if y \<in> set ys \<and> (if right then speed \<le> x else x < w - speed)
       then pix w (fb_front hub) y (if right then x - speed else x + speed) else pix w (fb_back hub) y x)"
proof -
  have lim: "min (img_len hub) (length (fb_front hub)) = img_len hub"
    using g by (simp add: geo_def img_len_def)
  have b: "fst (buffers hub) = take (img_len hub) (fb_front hub)" "snd (buffers hub) = take (img_len hub) (fb_back hub)"
    by (simp_all add: buffers_def Let_def lim)
  have l: "length (fst (buffers hub)) = img_len hub" "length (snd (buffers hub)) = img_len hub"
    unfolding b using g by (simp_all add: geo_def img_len_def)
  have "\<forall>y \<in> set ys. y * w + w \<le> length (snd (buffers hub)) \<and> y * w + w \<le> length (fst (buffers hub))"
    using ys geo_fits(1) [OF g] l by simp
  note r = shift_rows_nth [OF sp this, of right]
  then have len: "length (shift_rows right speed w ys (fst (buffers hub)) (snd (buffers hub))) = img_len hub"
    using l by simp
  show "redrawn hub hub'" unfolding hub'_def by (rule put_back_effect(1) [OF len])
  assume yx: "y < h" "x < w"
  have fit: "y * w + w \<le> img_len hub" by (rule geo_fits(1) [OF g yx(1)])
  then have i: "y * w + x < img_len hub" using yx(2) by linarith
  have "pix w (fb_back hub') y x = shift_rows right speed w ys (fst (buffers hub)) (snd (buffers hub)) ! (y * w + x)"
    unfolding hub'_def pix_def by (rule put_back_effect(2) [OF len i])
  also have "\<dots> = (if y \<in> set ys \<and> (if right then speed \<le> x else x < w - speed)
      then fst (buffers hub) ! (if right then y * w + x - speed else y * w + x + speed)
      else snd (buffers hub) ! (y * w + x))"
    using r i l yx(2) by auto
  also have "\<dots> = (if y \<in> set ys \<and> (if right then speed \<le> x else x < w - speed)
       then pix w (fb_front hub) y (if right then x - speed else x + speed) else pix w (fb_back hub) y x)"
    using fit i sp by (auto simp: b pix_def add.assoc)
  finally show "pix w (fb_back hub') y x = (if y \<in> set ys \<and> (if right then speed \<le> x else x < w - speed)
       then pix w (fb_front hub) y (if right then x - speed else x + speed) else pix w (fb_back hub) y x)" .
qed

end
