(* ===== verification/Program_Glass.thy ===== *)
theory Program_Glass
  imports Program_Show
begin

text \<open>
  What a program promises about its rows (\<open>declared\<close>), what the two halves of the
  framebuffer hold between ticks (\<open>glass_inv\<close>), and one frame: scroll, band, repaint.
\<close>

section \<open>What a program promises\<close>

definition cx :: "nat \<Rightarrow> nat \<Rightarrow> u32 \<Rightarrow> int \<Rightarrow> value_table \<Rightarrow> ctx" where
  "cx w h fr t v = \<lparr>c_w = of_nat w, c_h = of_nat h, c_frame = fr, c_time = t, c_values = v\<rparr>"

type_synonym picture = "ctx \<Rightarrow> nat \<Rightarrow> nat \<Rightarrow> u32"

text \<open>A scroll band moves by its speed from each frame to the next, whatever the time and the values.\<close>

definition scroll_law :: "picture \<Rightarrow> nat \<Rightarrow> nat \<Rightarrow> scroll_band \<Rightarrow> bool" where
  "scroll_law px w h = (\<lambda>(a, b, speed, right). 0 < speed \<and> speed < w \<and>
     (\<forall>fr t t' v v' y x. fr \<noteq> - 1 \<longrightarrow> a \<le> y \<longrightarrow> y < b \<longrightarrow> y < h \<longrightarrow> x + speed < w \<longrightarrow>
        (if right then px (cx w h (fr + 1) t v) y (x + speed) = px (cx w h fr t' v') y x
         else px (cx w h (fr + 1) t v) y x = px (cx w h fr t' v') y (x + speed))))"

definition lively :: "program \<Rightarrow> bool" where
  "lively prog \<longleftrightarrow> pr_scroll prog \<noteq> [] \<or> (pr_palette prog \<noteq> None \<and> \<not> palette_static prog)"

text \<open>The rows that no frame draws of itself.\<close>

definition still :: "program \<Rightarrow> nat \<Rightarrow> bool" where
  "still prog y \<longleftrightarrow> \<not> in_scroll True (pr_scroll prog) y \<and>
     (case pr_dynamic prog of Some (a, b) \<Rightarrow> \<not> (a \<le> y \<and> y < b) | None \<Rightarrow> \<not> lively prog)"

definition declared :: "program \<Rightarrow> picture \<Rightarrow> nat \<Rightarrow> nat \<Rightarrow> bool" where
  "declared prog px w h \<longleftrightarrow> honest (pr_row prog) px \<and> (\<forall>b \<in> set (pr_scroll prog). scroll_law px w h b) \<and>
     (\<forall>y < h. still prog y \<longrightarrow> (\<forall>x < w. \<forall>fr fr' t t' v. px (cx w h fr t v) y x = px (cx w h fr' t' v) y x))"

section \<open>What the halves hold\<close>

definition right_row :: "picture \<Rightarrow> ctx \<Rightarrow> nat \<Rightarrow> u32 list \<Rightarrow> nat \<Rightarrow> bool" where
  "right_row px c w buf y \<longleftrightarrow> (\<forall>x < w. pix w buf y x = px c y x)"

definition bi :: "hub75 \<Rightarrow> nat" where "bi hub = (if r_fb_base hub = FB_BASE_WORDS then 1 else 0)"

definition owed :: "stage \<Rightarrow> nat \<Rightarrow> nat \<Rightarrow> bool" where
  "owed st b y \<longleftrightarrow> repaint_pos st ! b \<le> y \<and> y < repaint_pos st ! b + repaint_left st ! b"

definition stale :: "stage \<Rightarrow> bool" where "stale st \<longleftrightarrow> writes (st_values st) \<noteq> seen_writes st"

definition settled :: "program \<Rightarrow> picture \<Rightarrow> nat \<Rightarrow> nat \<Rightarrow> stage \<Rightarrow> u32 list \<Rightarrow> nat \<Rightarrow> bool" where
  "settled prog px w h st buf b \<longleftrightarrow> stale st \<or>
     (\<forall>y < h. still prog y \<longrightarrow> owed st b y \<or> right_row px (cx w h 0 0 (st_values st)) w buf y)"

definition carried :: "program \<Rightarrow> picture \<Rightarrow> nat \<Rightarrow> nat \<Rightarrow> stage \<Rightarrow> bool" where
  "carried prog px w h st \<longleftrightarrow> (\<exists>fr t v. fr + 1 = prog_frame st \<and> fr \<noteq> - 1 \<and>
     (\<forall>y < h. in_scroll True (pr_scroll prog) y \<longrightarrow> right_row px (cx w h fr t v) w (fb_front (st_hub st)) y))"

definition glass_inv :: "program \<Rightarrow> picture \<Rightarrow> nat \<Rightarrow> nat \<Rightarrow> stage \<Rightarrow> bool" where
  "glass_inv prog px w h st \<longleftrightarrow> geo w h (st_hub st) \<and> prog_fn st = Some prog \<and>
     prog_dynamic st = pr_dynamic prog \<and> full_left st = prime_left st \<and> full_left st \<le> 2 \<and>
     length (repaint_pos st) = 2 \<and> length (repaint_left st) = 2 \<and>
     repaint_left st ! 0 \<le> h \<and> repaint_left st ! 1 \<le> h \<and>
     (full_left st \<le> 1 \<longrightarrow> carried prog px w h st \<and>
        settled prog px w h st (fb_front (st_hub st)) (1 - bi (st_hub st))) \<and>
     (full_left st = 0 \<longrightarrow> settled prog px w h st (fb_back (st_hub st)) (bi (st_hub st)))"

section \<open>Scroll\<close>

definition carries :: "u32 list \<Rightarrow> picture \<Rightarrow> ctx \<Rightarrow> nat \<Rightarrow> nat \<Rightarrow> scroll_band \<Rightarrow> bool" where
  "carries F px c w h = (\<lambda>(a, b, speed, right). 0 < speed \<and> speed < w \<and>
     (\<forall>y x. a \<le> y \<longrightarrow> y < b \<longrightarrow> y < h \<longrightarrow> x < w \<longrightarrow>
        (if right then speed \<le> x \<longrightarrow> pix w F y (x - speed) = px c y x
         else x < w - speed \<longrightarrow> pix w F y (x + speed) = px c y x)))"

lemma law_carries:
  assumes "scroll_law px w h b" "fr \<noteq> - 1" "b \<in> set bands"
    and "\<forall>y < h. in_scroll True bands y \<longrightarrow> right_row px (cx w h fr t v) w F y"
  shows "carries F px (cx w h (fr + 1) t' v') w h b"
proof -
  obtain a z speed r where b: "b = (a, z, speed, r)" by (cases b) auto
  have sp: "0 < speed" "speed < w" using assms(1) by (auto simp: b scroll_law_def)
  have law: "if r then px (cx w h (fr + 1) t' v') y (x + speed) = px (cx w h fr t v) y x
      else px (cx w h (fr + 1) t' v') y x = px (cx w h fr t v) y (x + speed)"
    if "a \<le> y" "y < z" "y < h" "x + speed < w" for y x
    using assms(1,2) that by (simp add: b scroll_law_def)
  have F: "pix w F y x = px (cx w h fr t v) y x" if "a \<le> y" "y < z" "y < h" "x < w" for y x
  proof -
    have "in_scroll True bands y" using assms(3) that by (auto simp: b in_scroll_def list_ex_iff)
    then show ?thesis using assms(4) that by (auto simp: right_row_def)
  qed
  have "if r then speed \<le> x \<longrightarrow> pix w F y (x - speed) = px (cx w h (fr + 1) t' v') y x
      else x < w - speed \<longrightarrow> pix w F y (x + speed) = px (cx w h (fr + 1) t' v') y x"
    if h: "a \<le> y" "y < z" "y < h" "x < w" for y x
  proof (cases r)
    case True
    then show ?thesis using law [OF h(1-3), of "x - speed"] F [OF h(1-3), of "x - speed"] h(4) by auto
  next
    case False
    then show ?thesis using law [OF h(1-3), of x] F [OF h(1-3), of "x + speed"] h(4) by auto
  qed
  then show ?thesis using sp by (simp add: b carries_def)
qed

lemma scroll_one_effect:
  fixes band :: scroll_band
  assumes g: "geo w h hub" and hon: "honest row px" and car: "carries (fb_front hub) px c w h band"
  defines "hub' \<equiv> scroll_one row c w h band hub"
  shows "redrawn hub hub'"
    and "y < h \<Longrightarrow> x < w \<Longrightarrow> pix w (fb_back hub') y x =
      (if in_scroll True [band] y then px c y x else pix w (fb_back hub) y x)"
proof -
  obtain a b speed r where band: "band = (a, b, speed, r)" by (cases band) auto
  let ?ys = "[min a h..<min b h]"
  let ?h1 = "put_back (shift_rows r speed w ?ys (fst (buffers hub)) (snd (buffers hub))) hub"
  let ?x0 = "if r then 0 else w - speed"
  have sp: "0 < speed" "speed < w" using car by (auto simp: band carries_def)
  have ys: "\<forall>y \<in> set ?ys. y < h" by auto
  note s = shifted_rows [where right = r, OF g sp ys]
  have g1: "geo w h ?h1" using redrawn_keeps(1) [OF s(1)] g by simp
  have "?x0 + speed \<le> w" using sp by simp
  note d = drawn_rows [where c = c, OF g1 hon this ys]
  have hub': "hub' = put_back (render_rows row c w ?x0 speed ?ys (back_buffer ?h1)) ?h1"
    using sp by (simp add: hub'_def band scroll_one_def Let_def split_beta)
  show "redrawn hub hub'" unfolding hub' by (rule redrawn_trans [OF s(1) d(1)])
  assume yx: "y < h" "x < w"
  have ins: "in_scroll True [band] y \<longleftrightarrow> y \<in> set ?ys" using yx by (auto simp: band in_scroll_def)
  show "pix w (fb_back hub') y x = (if in_scroll True [band] y then px c y x else pix w (fb_back hub) y x)"
    unfolding hub' d(2) [OF yx] s(2) [OF yx] ins using car yx sp by (auto simp: band carries_def)
qed

lemma scroll_all:
  assumes hon: "honest row px"
  shows "geo w h hub \<Longrightarrow> \<forall>b \<in> set bs. carries (fb_front hub) px c w h b \<Longrightarrow>
    redrawn hub (fold (scroll_one row c w h) bs hub) \<and>
    (\<forall>y < h. \<forall>x < w. pix w (fb_back (fold (scroll_one row c w h) bs hub)) y x =
       (if in_scroll True bs y then px c y x else pix w (fb_back hub) y x))"
proof (induction bs arbitrary: hub)
  case (Cons b bs)
  let ?h = "scroll_one row c w h b hub"
  have "carries (fb_front hub) px c w h b" using Cons.prems(2) by simp
  note e = scroll_one_effect [OF Cons.prems(1) hon this]
  have "geo w h ?h" "\<forall>b \<in> set bs. carries (fb_front ?h) px c w h b"
    using redrawn_keeps [OF e(1)] Cons.prems by simp_all
  from Cons.IH [OF this] show ?case using redrawn_trans [OF e(1)] e(2) by (auto simp: in_scroll_def)
qed (simp add: in_scroll_def)

section \<open>Band and repaint\<close>

lemma draw_band_effect:
  assumes g: "geo w h hub" and hon: "honest row px"
  shows "redrawn hub (draw_band row c w h skip band hub)"
    and "y < h \<Longrightarrow> x < w \<Longrightarrow> pix w (fb_back (draw_band row c w h skip band hub)) y x =
      (if fst band \<le> y \<and> y < snd band \<and> \<not> skip y then px c y x else pix w (fb_back hub) y x)"
proof -
  obtain a b where band: "band = (a, b)" by (cases band) auto
  let ?ys = "filter (\<lambda>y. \<not> skip y) [min a h..<min b h]"
  have ys: "\<forall>y \<in> set ?ys. y < h" by auto
  have "0 + w \<le> w" by simp
  note d = drawn_rows [where c = c, OF g hon this ys]
  show "redrawn hub (draw_band row c w h skip band hub)" using d(1) by (simp add: draw_band_def band)
  assume yx: "y < h" "x < w"
  show "pix w (fb_back (draw_band row c w h skip band hub)) y x =
      (if fst band \<le> y \<and> y < snd band \<and> \<not> skip y then px c y x else pix w (fb_back hub) y x)"
    using d(2) [OF yx] yx by (auto simp: draw_band_def band)
qed

lemma repaint_effect:
  assumes hon: "honest row px" and w: "0 < w"
  shows "h * w \<le> length buf \<Longrightarrow> repaint row c w h skip band budget y left buf = (y', left', buf') \<Longrightarrow>
    length buf' = length buf \<and> y' + left' = y + left \<and> y \<le> y' \<and> min budget left \<le> left - left' \<and>
    (\<forall>z < h. \<forall>x < w. pix w buf' z x =
       (if y \<le> z \<and> z < y' \<and> \<not> skip z \<and> \<not> (fst band \<le> z \<and> z < snd band) then px c z x else pix w buf z x))"
proof (induction left arbitrary: budget y buf)
  case (Suc left)
  consider (stop) "budget = 0" | (skip) "budget \<noteq> 0" "skip y \<or> y \<ge> h \<or> (y \<ge> fst band \<and> y < snd band)"
    | (draw) "budget \<noteq> 0" "\<not> (skip y \<or> y \<ge> h \<or> (y \<ge> fst band \<and> y < snd band))" by blast
  then show ?case
  proof cases
    case stop
    then show ?thesis using Suc.prems(2) by auto
  next
    case skip
    then have "repaint row c w h skip band budget (y + 1) left buf = (y', left', buf')" using Suc.prems(2) by simp
    from Suc.IH [OF Suc.prems(1) this] have ih: "length buf' = length buf \<and> y' + left' = y + 1 + left \<and>
        y + 1 \<le> y' \<and> min budget left \<le> left - left' \<and> (\<forall>z < h. \<forall>x < w. pix w buf' z x =
        (if y + 1 \<le> z \<and> z < y' \<and> \<not> skip z \<and> \<not> (fst band \<le> z \<and> z < snd band) then px c z x else pix w buf z x))" .
    then have "min budget (Suc left) \<le> Suc left - left'" by linarith
    moreover have "(y + 1 \<le> z \<and> z < y' \<and> \<not> skip z \<and> \<not> (fst band \<le> z \<and> z < snd band)) \<longleftrightarrow>
        (y \<le> z \<and> z < y' \<and> \<not> skip z \<and> \<not> (fst band \<le> z \<and> z < snd band))" if "z < h" for z
      using skip(2) that by (cases "z = y") auto
    ultimately show ?thesis using ih by simp
  next
    case draw
    let ?b = "splice (y * w) (row c y 0 (take w (drop (y * w) buf))) buf"
    have y: "y < h" using draw by simp
    have "Suc y * w \<le> h * w" using y by (intro mult_le_mono1) simp
    then have fits: "y * w + w \<le> length buf" using Suc.prems(1) by (simp add: add.commute)
    have n: "0 + w \<le> w" by simp
    note d = draw_row [where c = c, OF hon w n fits, unfolded add_0_right add_0]
    have "repaint row c w h skip band (budget - 1) (y + 1) left ?b = (y', left', buf')"
      using Suc.prems(2) draw fits by simp
    from Suc.IH [OF _ this] have ih: "length buf' = length buf \<and> y' + left' = y + 1 + left \<and>
        y + 1 \<le> y' \<and> min (budget - 1) left \<le> left - left' \<and> (\<forall>z < h. \<forall>x < w. pix w buf' z x =
        (if y + 1 \<le> z \<and> z < y' \<and> \<not> skip z \<and> \<not> (fst band \<le> z \<and> z < snd band) then px c z x else pix w ?b z x))"
      using d(1) Suc.prems(1) by simp
    have b: "pix w ?b z x = (if z = y then px c z x else pix w buf z x)" if "z < h" "x < w" for z x
    proof -
      have "Suc z * w \<le> h * w" using that by (intro mult_le_mono1) simp
      then have "z * w + x < length buf" using Suc.prems(1) that by simp
      from d(2) [OF this] show ?thesis using that(2) by (simp add: pix_def)
    qed
    have "min budget (Suc left) \<le> Suc left - left'" using ih by linarith
    then show ?thesis using ih b draw by auto
  qed
qed auto

section \<open>One frame\<close>

text \<open>Everything a frame leaves alone, and the rows it draws.\<close>

definition rest_same :: "stage \<Rightarrow> stage \<Rightarrow> bool" where
  "rest_same st st' \<longleftrightarrow> prog_fn st' = prog_fn st \<and> prog_dynamic st' = prog_dynamic st \<and>
     st_values st' = st_values st \<and> seen_writes st' = seen_writes st \<and> next_ms st' = next_ms st"

definition paid :: "nat \<Rightarrow> stage \<Rightarrow> stage \<Rightarrow> bool" where
  "paid b st st' \<longleftrightarrow> length (repaint_pos st') = 2 \<and> length (repaint_left st') = 2 \<and>
     repaint_pos st' ! (1 - b) = repaint_pos st ! (1 - b) \<and> repaint_left st' ! (1 - b) = repaint_left st ! (1 - b) \<and>
     repaint_pos st' ! b + repaint_left st' ! b = repaint_pos st ! b + repaint_left st ! b \<and>
     repaint_pos st ! b \<le> repaint_pos st' ! b \<and>
     repaint_left st' ! b \<le> repaint_left st ! b - REPAINT_SLICE"

definition drawn_now :: "program \<Rightarrow> bool \<Rightarrow> nat \<times> nat \<Rightarrow> nat \<Rightarrow> stage \<Rightarrow> stage \<Rightarrow> nat \<Rightarrow> bool" where
  "drawn_now prog scrolling band b st st' y \<longleftrightarrow> in_scroll scrolling (pr_scroll prog) y \<or>
     (fst band \<le> y \<and> y < snd band) \<or> (owed st b y \<and> \<not> owed st' b y)"

lemma pay_repaint_effect:
  fixes band :: "nat \<times> nat" and skip :: "nat \<Rightarrow> bool" and c :: ctx and hw :: hub_hw
  assumes g: "geo w h (st_hub st)" and hon: "honest row px" and l2: "length (repaint_pos st) = 2" "length (repaint_left st) = 2"
  defines "st' \<equiv> pay_repaint (hw\<lparr>hw_fb_base_now := r_fb_base (st_hub st)\<rparr>) row c w h skip band st"
  defines "b \<equiv> bi (st_hub st)"
  shows "rest_same st st'" "paid b st st'" "redrawn (st_hub st) (st_hub st')"
    "prog_frame st' = prog_frame st" "full_left st' = full_left st" "prime_left st' = prime_left st"
    and "y < h \<Longrightarrow> x < w \<Longrightarrow> pix w (fb_back (st_hub st')) y x =
      (if owed st b y \<and> \<not> owed st' b y \<and> \<not> skip y \<and> \<not> (fst band \<le> y \<and> y < snd band) then px c y x
       else pix w (fb_back (st_hub st)) y x)"
proof -
  have b2: "b < 2" "1 - b < 2" "1 - b \<noteq> b" by (auto simp: b_def bi_def)
  have bi: "back_index (hw\<lparr>hw_fb_base_now := r_fb_base (st_hub st)\<rparr>) = b" by (simp add: back_index_def b_def bi_def)
  obtain y' left' buf' where r: "repaint row c w h skip band REPAINT_SLICE (repaint_pos st ! b) (repaint_left st ! b)
      (back_buffer (st_hub st)) = (y', left', buf')" by (metis prod_cases3)
  have w0: "0 < w" and h0: "0 < h" using g by (simp_all add: geo_def)
  have bl: "length (back_buffer (st_hub st)) = img_len (st_hub st)" by (simp add: back_buffer_def img_len_def)
  have "(h - 1) * w + w = h * w" using h0 by (cases h) simp_all
  then have "h * w \<le> length (back_buffer (st_hub st))" using geo_fits(1) [OF g, of "h - 1"] h0 bl by simp
  note e = repaint_effect [OF hon w0 this r]
  have pe: "redrawn (st_hub st) (put_back buf' (st_hub st))"
    "i < img_len (st_hub st) \<Longrightarrow> fb_back (put_back buf' (st_hub st)) ! i = buf' ! i" for i
    using put_back_effect [of buf' "st_hub st"] e bl by simp_all
  show "rest_same st st'" "prog_frame st' = prog_frame st" "full_left st' = full_left st" "prime_left st' = prime_left st"
    by (simp_all add: st'_def pay_repaint_def rest_same_def bi r Let_def)
  show "redrawn (st_hub st) (st_hub st')" using pe(1) by (simp add: st'_def pay_repaint_def bi r Let_def)
  show p: "paid b st st'"
    using l2 b2 e bl by (auto simp: st'_def pay_repaint_def paid_def bi r Let_def less_2_cases_iff)
  assume yx: "y < h" "x < w"
  have i: "y * w + x < img_len (st_hub st)" using geo_fits(1) [OF g yx(1)] yx(2) by linarith
  then have old: "pix w (back_buffer (st_hub st)) y x = pix w (fb_back (st_hub st)) y x"
    by (simp add: pix_def back_buffer_def)
  show "pix w (fb_back (st_hub st')) y x =
      (if owed st b y \<and> \<not> owed st' b y \<and> \<not> skip y \<and> \<not> (fst band \<le> y \<and> y < snd band) then px c y x
       else pix w (fb_back (st_hub st)) y x)"
  proof (cases "repaint_left st ! 0 > 0 \<or> repaint_left st ! 1 > 0")
    case True
    then have hub: "st_hub st' = put_back buf' (st_hub st)" "repaint_pos st' ! b = y'" "repaint_left st' ! b = left'"
      using l2 b2 by (simp_all add: st'_def pay_repaint_def bi r Let_def)
    have new: "pix w (fb_back (st_hub st')) y x = pix w buf' y x" using pe(2) [OF i] by (simp add: hub pix_def)
    have ow: "owed st b y \<and> \<not> owed st' b y \<longleftrightarrow> repaint_pos st ! b \<le> y \<and> y < y'"
      using e by (auto simp: owed_def hub(2,3))
    then have cond: "owed st b y \<and> \<not> owed st' b y \<and> \<not> skip y \<and> \<not> (fst band \<le> y \<and> y < snd band) \<longleftrightarrow>
        repaint_pos st ! b \<le> y \<and> y < y' \<and> \<not> skip y \<and> \<not> (fst band \<le> y \<and> y < snd band)" by blast
    have "pix w buf' y x = (if repaint_pos st ! b \<le> y \<and> y < y' \<and> \<not> skip y \<and> \<not> (fst band \<le> y \<and> y < snd band)
        then px c y x else pix w (back_buffer (st_hub st)) y x)" using e yx by blast
    then show ?thesis unfolding new cond old .
  next
    case False
    then show ?thesis by (auto simp: st'_def pay_repaint_def)
  qed
qed

lemma draw_frame_effect:
  fixes hw :: hub_hw and t :: int and prog :: program and h :: nat
  assumes g: "geo w h (st_hub st)" and d: "declared prog px w h"
    and l2: "length (repaint_pos st) = 2" "length (repaint_left st) = 2"
    and car: "prime_left st = 0 \<longrightarrow> carried prog px w h st"
  defines "st' \<equiv> draw_frame (hw\<lparr>hw_fb_base_now := r_fb_base (st_hub st)\<rparr>) prog (cx w h (prog_frame st) t (st_values st)) w h st"
  defines "b \<equiv> bi (st_hub st)"
  shows "rest_same st st'" "paid b st st'" "redrawn (st_hub st) (st_hub st')"
    "prog_frame st' = prog_frame st + 1" "full_left st' = full_left st - 1" "prime_left st' = prime_left st - 1"
    and "y < h \<Longrightarrow> x < w \<Longrightarrow> pix w (fb_back (st_hub st')) y x =
      (if drawn_now prog (prime_left st = 0) (frame_band h st) b st st' y
       then px (cx w h (prog_frame st) t (st_values st)) y x else pix w (fb_back (st_hub st)) y x)"
proof -
  let ?c = "cx w h (prog_frame st) t (st_values st)"
  let ?row = "pr_row prog" and ?band = "frame_band h st" and ?bs = "pr_scroll prog"
  let ?scr = "?bs \<noteq> [] \<and> prime_left st = 0"
  let ?skip = "in_scroll ?scr ?bs"
  define st1 where "st1 = st\<lparr>prog_frame := prog_frame st + 1, full_left := full_left st - 1, prime_left := prime_left st - 1\<rparr>"
  define st2 where "st2 = (if ?scr then on_hub (fold (scroll_one ?row ?c w h) ?bs) st1 else st1)"
  define st3 where "st3 = on_hub (draw_band ?row ?c w h ?skip ?band) st2"
  have hon: "honest ?row px" using d by (simp add: declared_def)
  have s2: "redrawn (st_hub st) (st_hub st2) \<and> (\<forall>y < h. \<forall>x < w. pix w (fb_back (st_hub st2)) y x =
       (if ?skip y then px ?c y x else pix w (fb_back (st_hub st)) y x))"
  proof (cases ?scr)
    case True
    then obtain fr t' v where fr: "fr + 1 = prog_frame st" "fr \<noteq> - 1" and
      rows: "\<forall>y < h. in_scroll True ?bs y \<longrightarrow> right_row px (cx w h fr t' v) w (fb_front (st_hub st)) y"
      using car by (auto simp: carried_def)
    have "\<forall>b \<in> set ?bs. carries (fb_front (st_hub st)) px ?c w h b"
      using law_carries [OF _ fr(2) _ rows] d by (auto simp: declared_def fr(1))
    from scroll_all [OF hon g this] True show ?thesis by (simp add: st2_def st1_def on_hub_def)
  qed (auto simp: st2_def st1_def in_scroll_def)
  then have g2: "geo w h (st_hub st2)" using redrawn_keeps(1) g by blast
  note b3 = draw_band_effect [where skip = ?skip and band = ?band and c = ?c, OF g2 hon]
  have h3: "st_hub st3 = draw_band ?row ?c w h ?skip ?band (st_hub st2)" by (simp add: st3_def on_hub_def)
  have r3: "redrawn (st_hub st) (st_hub st3)" unfolding h3 using redrawn_trans [OF conjunct1 [OF s2] b3(1)] .
  then have g3: "geo w h (st_hub st3)" and base: "r_fb_base (st_hub st3) = r_fb_base (st_hub st)"
    using redrawn_keeps g by blast+
  have same: "repaint_pos st3 = repaint_pos st" "repaint_left st3 = repaint_left st" "rest_same st st3"
    "prog_frame st3 = prog_frame st + 1" "full_left st3 = full_left st - 1" "prime_left st3 = prime_left st - 1"
    by (simp_all add: st3_def st2_def st1_def on_hub_def rest_same_def)
  have l3: "length (repaint_pos st3) = 2" "length (repaint_left st3) = 2" using l2 same by simp_all
  have st': "st' = pay_repaint (hw\<lparr>hw_fb_base_now := r_fb_base (st_hub st3)\<rparr>) ?row ?c w h ?skip ?band st3"
    unfolding base unfolding st'_def draw_frame_def Let_def st3_def st2_def st1_def ..
  have b: "bi (st_hub st3) = b" by (simp add: b_def bi_def base)
  note p = pay_repaint_effect [where skip = ?skip and band = ?band and c = ?c and hw = hw, OF g3 hon l3, folded st', unfolded b]
  show "rest_same st st'" using p(1) same(3) by (simp add: rest_same_def)
  show "paid b st st'" using p(2) same(1,2) by (simp add: paid_def)
  show "redrawn (st_hub st) (st_hub st')" by (rule redrawn_trans [OF r3 p(3)])
  show "prog_frame st' = prog_frame st + 1" "full_left st' = full_left st - 1" "prime_left st' = prime_left st - 1"
    using p(4-6) same by simp_all
  assume yx: "y < h" "x < w"
  have o: "owed st3 b y = owed st b y" by (simp add: owed_def same)
  have k: "?skip y = in_scroll (prime_left st = 0) ?bs y" by (auto simp: in_scroll_def)
  have "pix w (fb_back (st_hub st3)) y x =
      (if fst ?band \<le> y \<and> y < snd ?band \<and> \<not> ?skip y then px ?c y x else pix w (fb_back (st_hub st2)) y x)"
    unfolding h3 by (rule b3(2) [OF yx])
  moreover have "pix w (fb_back (st_hub st2)) y x = (if ?skip y then px ?c y x else pix w (fb_back (st_hub st)) y x)"
    using s2 yx by blast
  ultimately show "pix w (fb_back (st_hub st')) y x =
      (if drawn_now prog (prime_left st = 0) ?band b st st' y then px ?c y x else pix w (fb_back (st_hub st)) y x)"
    unfolding p(7) [OF yx] drawn_now_def k o by (simp split: if_split)
qed

end
