(* ===== verification/Program_Props.thy ===== *)
theory Program_Props
  imports Program_Glass
begin

text \<open>
  Ticks of \<^verbatim>\<open>program_tick\<close> between pushes of values: what is on the glass after each,
  and when everything owed is paid. The base register reads back as it was written.
\<close>

section \<open>The palette leaves the pixels\<close>

definition pixels :: "hub75 \<Rightarrow> u32 list \<times> u32 list \<times> u32 \<times> nat \<times> u16 \<times> u32" where
  "pixels hub = (fb_back hub, fb_front hub, hlength hub, active_buf hub, r_width hub, r_fb_base hub)"

lemma pixels_bank [simp]: "pixels (set_palette_bank hw bank off d hub) = pixels hub"
  "pixels (write_bank hw bank off n hub) = pixels hub" "pixels (mark_bank bank hub) = pixels hub"
  "pixels (snd (stash off d hub)) = pixels hub" "pixels (set_auto_swap on hub) = pixels hub"
  by (simp_all add: pixels_def set_palette_bank_def write_bank_def mark_bank_def stash_def set_auto_swap_def Let_def)

lemma pixels_palette [simp]: "pixels (set_palette hw off d hub) = pixels hub"
  "pixels (set_palette_all hw off f hub) = pixels hub"
proof -
  show "pixels (set_palette hw off d hub) = pixels hub"
    using pixels_bank(4) [of off d hub] by (cases "stash off d hub") (simp add: set_palette_def Let_def)
  have "pixels (fold (\<lambda>bank h. mark_bank bank (write_bank hw bank off n h)) bs hub) = pixels hub" for bs n hub
    by (induction bs arbitrary: hub) simp_all
  then show "pixels (set_palette_all hw off f hub) = pixels hub"
    using pixels_bank(4) [of off "map f [0..<256]" hub] by (cases "stash off (map f [0..<256]) hub") (simp add: set_palette_all_def)
qed

lemma pixels_eq:
  assumes "pixels hub' = pixels hub"
  shows "fb_back hub' = fb_back hub" "fb_front hub' = fb_front hub" "geo w h hub' = geo w h hub"
    "bi hub' = bi hub" "r_fb_base hub' = r_fb_base hub"
  using assms by (simp_all add: pixels_def geo_def bi_def)

section \<open>Before the frame\<close>

definition live_tick :: "hub_hw \<Rightarrow> program list \<Rightarrow> int \<Rightarrow> stage \<Rightarrow> stage" where
  "live_tick hw progs t st = program_tick (hw\<lparr>hw_fb_base_now := r_fb_base (st_hub st)\<rparr>) progs t True st"

definition ready :: "hub_hw \<Rightarrow> program \<Rightarrow> nat \<Rightarrow> nat \<Rightarrow> int \<Rightarrow> stage \<Rightarrow> stage" where
  "ready hw prog w h t st =
     (let st0 = st\<lparr>next_ms := t + PROGRAM_PERIOD_MS\<rparr>;
          st1 = (if auto_swap (st_hub st0) then on_hub (set_auto_swap False) st0 else st0) in
      owe_repaint h (tick_palette hw prog (cx w h (prog_frame st) t (st_values st)) st1))"

lemma ready_keeps:
  fixes hw :: hub_hw and prog :: program and w h :: nat and t :: int and st :: stage
  defines "st' \<equiv> ready hw prog w h t st"
  shows "pixels (st_hub st') = pixels (st_hub st)" "prog_fn st' = prog_fn st" "prog_dynamic st' = prog_dynamic st"
    "st_values st' = st_values st" "full_left st' = full_left st" "prime_left st' = prime_left st"
    "prog_frame st' = prog_frame st" "next_ms st' = t + PROGRAM_PERIOD_MS" "\<not> stale st'"
    "\<not> stale st \<Longrightarrow> repaint_pos st' = repaint_pos st" "\<not> stale st \<Longrightarrow> repaint_left st' = repaint_left st"
    "stale st \<Longrightarrow> repaint_pos st' = [0, 0]" "stale st \<Longrightarrow> repaint_left st' = [h, h]"
  by (auto simp: st'_def ready_def Let_def owe_repaint_def tick_palette_def on_hub_def stale_def split: option.split)

lemma tick_ready:
  fixes hw :: hub_hw
  assumes inv: "glass_inv prog px w h st" and due: "next_ms st \<le> t"
  defines "hw' \<equiv> hw\<lparr>hw_fb_base_now := r_fb_base (st_hub st)\<rparr>"
  defines "st2 \<equiv> ready hw' prog w h t st"
  shows "live_tick hw progs t st =
    (if full_left st2 = 0 \<and> \<not> animated prog st2 then st2
     else on_hub show_frame (draw_frame (hw\<lparr>hw_fb_base_now := r_fb_base (st_hub st2)\<rparr>) prog
       (cx w h (prog_frame st2) t (st_values st2)) w h st2))"
proof -
  have g: "unat (r_width (st_hub st)) = w" "unat (hlength (st_hub st)) div w = h" "0 < w" "0 < h" "prog_fn st = Some prog"
    using inv by (auto simp: glass_inv_def geo_def)
  then have nz: "r_width (st_hub st) \<noteq> 0" "hlength (st_hub st) \<noteq> 0" by auto
  have k: "prog_frame st2 = prog_frame st" "st_values st2 = st_values st" "r_fb_base (st_hub st2) = r_fb_base (st_hub st)"
    using ready_keeps [where hw = hw' and prog = prog and w = w and h = h and t = t and st = st] pixels_eq(5) unfolding st2_def by blast+
  show ?thesis
    unfolding k hw'_def [symmetric] unfolding live_tick_def hw'_def [symmetric]
    using due g nz by (simp add: program_tick_def st2_def ready_def get_img_param_def Let_def cx_def)
qed

lemma ready_inv:
  assumes inv: "glass_inv prog px w h st"
  shows "glass_inv prog px w h (ready hw prog w h t st)"
proof -
  let ?s = "ready hw prog w h t st"
  note k = ready_keeps [where hw = hw and prog = prog and w = w and h = h and t = t and st = st]
  note p = pixels_eq [OF k(1)]
  have o: "\<not> stale st \<Longrightarrow> owed ?s b y = owed st b y" for b y by (simp add: owed_def k)
  have all: "owed ?s b y" if "stale st" "y < h" "b < 2" for b y
    using that by (auto simp: owed_def k less_2_cases_iff)
  have st: "settled prog px w h ?s buf b" if "settled prog px w h st buf b" "b < 2" for buf b
    using that o all by (cases "stale st") (auto simp: settled_def k)
  have "bi (st_hub st) < 2" by (simp add: bi_def)
  then show ?thesis
    using inv st k(10-13) unfolding glass_inv_def carried_def k p by (cases "stale st") auto
qed

section \<open>The frame\<close>

definition good_row :: "program \<Rightarrow> picture \<Rightarrow> ctx \<Rightarrow> nat \<Rightarrow> stage \<Rightarrow> nat \<Rightarrow> bool" where
  "good_row prog px c w st y \<longleftrightarrow> right_row px c w (fb_front (st_hub st)) y \<or>
     (still prog y \<and> owed st (1 - bi (st_hub st)) y)"

lemma show_frame_effect:
  assumes "geo w h hub"
  shows "geo w h (show_frame hub)" "fb_front (show_frame hub) = fb_back hub" "fb_back (show_frame hub) = fb_front hub"
    "bi (show_frame hub) = 1 - bi hub"
  using assms by (auto simp: show_frame_def hub_on_def set_mode_def swap_buffers_def swap_halves_def geo_def bi_def
      Let_def base_of_def less_2_cases_iff src_consts)

lemma still_law:
  assumes "declared prog px w h" "still prog y" "y < h"
  shows "right_row px (cx w h fr t v) w buf y = right_row px (cx w h fr' t' v) w buf y"
proof -
  have "\<forall>x < w. px (cx w h fr t v) y x = px (cx w h fr' t' v) y x"
    using assms unfolding declared_def by blast
  then show ?thesis by (auto simp: right_row_def)
qed

text \<open>A row that a frame does not draw depends on the values alone, and both halves are past their first picture.\<close>

lemma undrawn:
  assumes "\<not> drawn_now prog (prime_left st = 0) (frame_band h st) b st st' y" "y < h"
    and "prog_dynamic st = pr_dynamic prog" "full_left st = prime_left st"
  shows "full_left st = 0" "pr_dynamic prog \<noteq> None" "still prog y" "owed st b y \<longrightarrow> owed st' b y"
proof -
  have n: "\<not> in_scroll (prime_left st = 0) (pr_scroll prog) y"
    "\<not> (fst (frame_band h st) \<le> y \<and> y < snd (frame_band h st))" "owed st b y \<longrightarrow> owed st' b y"
    using assms(1) by (auto simp: drawn_now_def)
  show "owed st b y \<longrightarrow> owed st' b y" by (rule n(3))
  show f: "full_left st = 0" and d: "pr_dynamic prog \<noteq> None"
    using n(2) assms(2,3) by (auto simp: frame_band_def split: option.splits if_splits)
  then show "still prog y" using n assms(3,4) by (auto simp: still_def frame_band_def)
qed

lemma frame_keeps:
  fixes hw :: hub_hw and t :: int
  assumes inv: "glass_inv prog px w h st" and d: "declared prog px w h" and fresh: "\<not> stale st"
    and nowrap: "prog_frame st \<noteq> - 1"
  defines "c \<equiv> cx w h (prog_frame st) t (st_values st)"
  defines "st' \<equiv> on_hub show_frame (draw_frame (hw\<lparr>hw_fb_base_now := r_fb_base (st_hub st)\<rparr>) prog c w h st)"
  shows "glass_inv prog px w h st'" "\<not> stale st'" "st_values st' = st_values st" "next_ms st' = next_ms st"
    "prog_frame st' = prog_frame st + 1" "y < h \<Longrightarrow> good_row prog px c w st' y"
    "paid (bi (st_hub st)) st st'" "full_left st' = full_left st - 1" "bi (st_hub st') = 1 - bi (st_hub st)"
proof -
  let ?d = "draw_frame (hw\<lparr>hw_fb_base_now := r_fb_base (st_hub st)\<rparr>) prog c w h st"
  let ?b = "bi (st_hub st)" and ?v = "st_values st"
  have i: "geo w h (st_hub st)" "prog_fn st = Some prog" "prog_dynamic st = pr_dynamic prog" "full_left st = prime_left st"
    "full_left st \<le> 2" "length (repaint_pos st) = 2" "length (repaint_left st) = 2" "prime_left st = 0 \<longrightarrow> carried prog px w h st"
    "full_left st \<le> 1 \<Longrightarrow> settled prog px w h st (fb_front (st_hub st)) (1 - ?b)"
    "full_left st = 0 \<Longrightarrow> settled prog px w h st (fb_back (st_hub st)) ?b"
    using inv by (auto simp: glass_inv_def)
  note e = draw_frame_effect [where hw = hw and t = t, OF i(1) d i(6,7,8), folded c_def]
  have gd: "geo w h (st_hub ?d)" "fb_front (st_hub ?d) = fb_front (st_hub st)" "bi (st_hub ?d) = ?b"
    using redrawn_keeps [OF e(3)] i(1) by (simp_all add: bi_def)
  note s = show_frame_effect [OF gd(1)]
  have h': "st_hub st' = show_frame (st_hub ?d)" and same: "rest_same st st'" "full_left st' = full_left st - 1"
      "prime_left st' = prime_left st - 1" "prog_frame st' = prog_frame st + 1"
    using e(1,4-6) by (simp_all add: st'_def on_hub_def rest_same_def)
  have rp: "repaint_pos st' = repaint_pos ?d" "repaint_left st' = repaint_left ?d" by (simp_all add: st'_def on_hub_def)
  then have ow: "owed ?d b y = owed st' b y" for b y by (simp add: owed_def)
  show paid: "paid ?b st st'" using e(2) rp by (simp add: paid_def)
  have b': "bi (st_hub st') = 1 - ?b" "1 - (1 - ?b) = ?b" by (simp_all add: h' s gd(3)) (auto simp: bi_def)
  show "bi (st_hub st') = 1 - ?b" by (rule b'(1))
  show vals: "st_values st' = ?v" "next_ms st' = next_ms st" "prog_frame st' = prog_frame st + 1" "full_left st' = full_left st - 1"
    using same by (simp_all add: rest_same_def)
  show fresh': "\<not> stale st'" using fresh same(1) by (simp add: stale_def rest_same_def)
  have sl: "right_row px c w buf y = right_row px (cx w h 0 0 ?v) w buf y" if "still prog y" "y < h" for buf y
    unfolding c_def by (rule still_law [OF d that])
  have row: "right_row px c w (fb_front (st_hub st')) y \<or> (still prog y \<and> owed st' ?b y)" if y: "y < h" for y
  proof (cases "drawn_now prog (prime_left st = 0) (frame_band h st) ?b st ?d y")
    case True
    then show ?thesis using e(7) [OF y] by (auto simp: right_row_def h' s)
  next
    case False
    note u = undrawn [OF False y i(3,4)]
    have old: "owed st ?b y \<or> right_row px (cx w h 0 0 ?v) w (fb_back (st_hub st)) y"
      using i(10) u(1,3) y fresh by (auto simp: settled_def)
    have keep: "right_row px q w (fb_front (st_hub st')) y = right_row px q w (fb_back (st_hub st)) y" for q
      using e(7) [OF y] False by (auto simp: right_row_def h' s)
    show ?thesis using old u(3,4) ow unfolding keep sl [OF u(3) y] by blast
  qed
  show "y < h \<Longrightarrow> good_row prog px c w st' y" unfolding good_row_def b' by (rule row)
  have scr: "right_row px c w (fb_front (st_hub st')) y" if "y < h" "in_scroll True (pr_scroll prog) y" for y
    using row [OF that(1)] that(2) by (auto simp: still_def)
  have "carried prog px w h st'"
    unfolding carried_def using nowrap scr vals(3) by (auto simp: c_def)
  moreover have "settled prog px w h st' (fb_front (st_hub st')) ?b"
    using row sl by (auto simp: settled_def vals)
  moreover have "settled prog px w h st' (fb_back (st_hub st')) (1 - ?b)" if "full_left st' = 0"
  proof -
    have "owed st' (1 - ?b) y = owed st (1 - ?b) y" for y using paid by (simp add: owed_def paid_def)
    moreover have "fb_back (st_hub st') = fb_front (st_hub st)" by (simp add: h' s gd)
    moreover have "settled prog px w h st (fb_front (st_hub st)) (1 - ?b)" using i(9) that same(2) by simp
    ultimately show ?thesis using fresh fresh' by (simp add: settled_def vals)
  qed
  moreover have left: "repaint_left st' ! 0 \<le> h" "repaint_left st' ! 1 \<le> h"
    using inv paid by (auto simp: glass_inv_def paid_def bi_def split: if_splits)
  ultimately show "glass_inv prog px w h st'"
    using i(2-5) left same paid b' s(1) by (auto simp: glass_inv_def rest_same_def paid_def h')
qed

section \<open>Ticks and pushes\<close>

definition need :: "stage \<Rightarrow> nat" where
  "need st = (let b = bi (st_hub st); k = \<lambda>i. (repaint_left st ! i + 11) div 12 in
     max (full_left st) (max (2 * k b - 1) (2 * k (1 - b))))"

lemma ceil12:
  fixes a n :: nat
  assumes "a \<le> n - 12"
  shows "(a + 11) div 12 \<le> (n + 11) div 12 - 1"
proof (cases "12 \<le> n")
  case True
  then have "(a + 11) div 12 \<le> (n - 1) div 12" using assms by (intro div_le_mono) simp
  moreover have "n + 11 = (n - 1) + 12" using True by simp
  then have "(n + 11) div 12 = (n - 1) div 12 + 1" by simp
  ultimately show ?thesis by simp
qed (use assms in simp)

lemma need_less:
  "p' \<le> p - 1 \<Longrightarrow> q' = q \<Longrightarrow> max (f - 1) (max (2 * q' - 1) (2 * p')) \<le> max f (max (2 * p - 1) (2 * q)) - (1 :: nat)"
  by (auto simp: max_def)

lemma need_paid:
  assumes "paid b st st'" "b = bi (st_hub st)" "bi (st_hub st') = 1 - b" "full_left st' = full_left st - 1"
  shows "need st' \<le> need st - 1"
proof -
  have b: "1 - (1 - b) = b" using assms(2) by (simp add: bi_def)
  have "repaint_left st' ! b \<le> repaint_left st ! b - 12" "repaint_left st' ! (1 - b) = repaint_left st ! (1 - b)"
    using assms(1) by (simp_all add: paid_def src_consts)
  then show ?thesis
    unfolding need_def Let_def assms(2)[symmetric] assms(3,4) b by (intro need_less ceil12) simp_all
qed

text \<open>A due tick, drawn or not.\<close>

lemma tick_keeps:
  fixes hw :: hub_hw and progs :: "program list"
  assumes inv: "glass_inv prog px w h st" and d: "declared prog px w h" and nowrap: "prog_frame st \<noteq> - 1" and due: "next_ms st \<le> t"
  defines "st' \<equiv> live_tick hw progs t st"
  shows "glass_inv prog px w h st'" "\<not> stale st'" "st_values st' = st_values st" "next_ms st' = t + PROGRAM_PERIOD_MS"
    "unat (prog_frame st') \<le> unat (prog_frame st) + 1"
    "y < h \<Longrightarrow> good_row prog px (cx w h (prog_frame st) t (st_values st)) w st' y"
    "\<not> stale st \<Longrightarrow> need st' \<le> need st - 1" "need st' \<le> 2 * ((h + 11) div 12) - 1"
proof -
  let ?hw = "hw\<lparr>hw_fb_base_now := r_fb_base (st_hub st)\<rparr>"
  define st2 where "st2 = ready ?hw prog w h t st"
  let ?b = "bi (st_hub st2)"
  note k = ready_keeps [where hw = ?hw and prog = prog and w = w and h = h and t = t and st = st, folded st2_def]
  have inv2: "glass_inv prog px w h st2" unfolding st2_def by (rule ready_inv [OF inv])
  have need2: "\<not> stale st \<Longrightarrow> need st2 = need st" using k(10,11) by (simp add: need_def k pixels_eq(4) [OF k(1)])
  have h0: "0 < h" using inv by (simp add: glass_inv_def geo_def)
  have bd: "repaint_left st2 ! ?b \<le> h" "repaint_left st2 ! (1 - ?b) \<le> h" "full_left st2 \<le> 2"
    using inv2 by (auto simp: glass_inv_def bi_def)
  then have "(repaint_left st2 ! ?b + 11) div 12 \<le> (h + 11) div 12" "(repaint_left st2 ! (1 - ?b) + 11) div 12 \<le> (h + 11) div 12"
    by (auto intro: div_le_mono)
  moreover have "1 \<le> (h + 11) div 12" using h0 by (simp add: div_greater_zero_iff Suc_leI)
  ultimately have bound: "need st2 \<le> 2 * ((h + 11) div 12)" using bd(3) by (simp add: need_def Let_def)
  have st': "st' = (if full_left st2 = 0 \<and> \<not> animated prog st2 then st2
     else on_hub show_frame (draw_frame (hw\<lparr>hw_fb_base_now := r_fb_base (st_hub st2)\<rparr>) prog
       (cx w h (prog_frame st2) t (st_values st2)) w h st2))"
    unfolding st'_def st2_def by (rule tick_ready [OF inv due])
  let ?goal = "glass_inv prog px w h st' \<and> \<not> stale st' \<and> st_values st' = st_values st \<and>
    next_ms st' = t + PROGRAM_PERIOD_MS \<and> unat (prog_frame st') \<le> unat (prog_frame st) + 1 \<and>
    (\<forall>y < h. good_row prog px (cx w h (prog_frame st) t (st_values st)) w st' y) \<and> need st' \<le> need st2 - 1"
  have ?goal
  proof (cases "full_left st2 = 0 \<and> \<not> animated prog st2")
    case True
    have s: "st' = st2" using True st' by simp
    have quiet: "still prog y" for y
      using True inv2 by (auto simp: animated_def still_def lively_def in_scroll_def glass_inv_def split: option.splits)
    have "\<not> owed st2 (1 - ?b) y" for y using True by (auto simp: animated_def owed_def bi_def)
    moreover have "settled prog px w h st2 (fb_front (st_hub st2)) (1 - ?b)" using inv2 True by (simp add: glass_inv_def)
    ultimately have "right_row px (cx w h 0 0 (st_values st)) w (fb_front (st_hub st2)) y" if "y < h" for y
      using quiet that k(9) unfolding settled_def k(4) by blast
    then have "good_row prog px (cx w h (prog_frame st) t (st_values st)) w st2 y" if "y < h" for y
      using that still_law [where fr = 0 and fr' = "prog_frame st" and t = 0 and t' = t, OF d quiet that] by (auto simp: good_row_def)
    moreover have "need st2 = 0" using True inv2 by (auto simp: need_def animated_def glass_inv_def bi_def Let_def)
    ultimately show ?thesis using inv2 k(4,7,8,9) unfolding s by simp
  next
    case False
    have s: "st' = on_hub show_frame (draw_frame (hw\<lparr>hw_fb_base_now := r_fb_base (st_hub st2)\<rparr>) prog
       (cx w h (prog_frame st2) t (st_values st2)) w h st2)" using False st' by (simp only: if_False)
    have nw: "prog_frame st2 \<noteq> - 1" using nowrap k(7) by simp
    note f = frame_keeps [where hw = hw and t = t, OF inv2 d k(9) nw, folded s]
    from need_paid [OF f(7) refl f(9) f(8)] f(1-6) show ?thesis
      by (simp add: k unat_word_ariths) 
  qed
  then show "glass_inv prog px w h st'" "\<not> stale st'" "st_values st' = st_values st" "next_ms st' = t + PROGRAM_PERIOD_MS"
    "unat (prog_frame st') \<le> unat (prog_frame st) + 1"
    "y < h \<Longrightarrow> good_row prog px (cx w h (prog_frame st) t (st_values st)) w st' y"
    "\<not> stale st \<Longrightarrow> need st' \<le> need st - 1" "need st' \<le> 2 * ((h + 11) div 12) - 1"
    using need2 bound by auto
qed

section \<open>Events\<close>

text \<open>What happens to a running program: a value is pushed, or the main loop ticks it.\<close>

datatype feed = Push "u8 list" "u8 list" int | Tick int

fun feed_step :: "hub_hw \<Rightarrow> program list \<Rightarrow> feed \<Rightarrow> stage \<Rightarrow> stage" where
  "feed_step hw progs (Push k v n) st = st\<lparr>st_values := set_value k v n (st_values st)\<rparr>"
| "feed_step hw progs (Tick t) st = live_tick hw progs t st"

definition feed_run :: "hub_hw \<Rightarrow> program list \<Rightarrow> feed list \<Rightarrow> stage \<Rightarrow> stage" where
  "feed_run hw progs = fold (feed_step hw progs)"

definition behind :: "stage \<Rightarrow> nat" where "behind st = unat (writes (st_values st) - seen_writes st)"

lemma behind_stale: "stale st \<longleftrightarrow> behind st \<noteq> 0"
  by (simp add: stale_def behind_def unat_eq_0)

lemma step_keeps:
  assumes inv: "glass_inv prog px w h st" and d: "declared prog px w h"
    and few: "behind st + 1 < 2 ^ 32" "unat (prog_frame st) + 1 < 2 ^ 32"
  shows "glass_inv prog px w h (feed_step hw progs e st)" "behind (feed_step hw progs e st) \<le> behind st + 1"
    "unat (prog_frame (feed_step hw progs e st)) \<le> unat (prog_frame st) + 1"
proof -
  have goal: "glass_inv prog px w h (feed_step hw progs e st) \<and> behind (feed_step hw progs e st) \<le> behind st + 1 \<and>
    unat (prog_frame (feed_step hw progs e st)) \<le> unat (prog_frame st) + 1"
  proof (cases e)
    case (Push k v n)
    let ?s = "feed_step hw progs e st"
    have wr: "writes (st_values ?s) = writes (st_values st) + 1"
      by (simp add: Push set_value_def Let_def split: option.split)
    have "unat (writes (st_values st) - seen_writes st + 1) = behind st + 1"
      using few(1) by (simp add: behind_def unat_word_ariths(1))
    then have b: "behind ?s = behind st + 1"
      unfolding behind_def wr by (simp add: Push add_diff_eq diff_add_eq)
    then have "stale ?s" by (simp add: behind_stale)
    then have "glass_inv prog px w h ?s"
      using inv by (simp add: glass_inv_def settled_def carried_def Push)
    then show ?thesis using b by (simp add: Push)
  next
    case (Tick t)
    show ?thesis
    proof (cases "next_ms st \<le> t")
      case True
      have "prog_frame st \<noteq> - 1" using few(2) by (auto simp: unsigned_minus_1_eq_mask mask_eq_exp_minus_1)
      from tick_keeps [where hw = hw and progs = progs, OF inv d this True] show ?thesis by (simp add: Tick behind_stale)
    next
      case False
      then show ?thesis using inv by (simp add: Tick live_tick_def program_tick_def)
    qed
  qed
  then show "glass_inv prog px w h (feed_step hw progs e st)" "behind (feed_step hw progs e st) \<le> behind st + 1"
    "unat (prog_frame (feed_step hw progs e st)) \<le> unat (prog_frame st) + 1" by simp_all
qed

lemma run_keeps:
  assumes "declared prog px w h"
  shows "glass_inv prog px w h st \<Longrightarrow> behind st + length evs < 2 ^ 32 \<Longrightarrow> unat (prog_frame st) + length evs < 2 ^ 32 \<Longrightarrow>
    glass_inv prog px w h (feed_run hw progs evs st) \<and>
    unat (prog_frame (feed_run hw progs evs st)) \<le> unat (prog_frame st) + length evs"
proof (induction evs arbitrary: st)
  case (Cons e evs)
  have few: "behind st + 1 < 2 ^ 32" "unat (prog_frame st) + 1 < 2 ^ 32" using Cons.prems by simp_all
  note s = step_keeps [where hw = hw and progs = progs and e = e, OF Cons.prems(1) assms few]
  have "behind (feed_step hw progs e st) + length evs < 2 ^ 32"
    "unat (prog_frame (feed_step hw progs e st)) + length evs < 2 ^ 32" using s(2,3) Cons.prems(2,3) by simp_all
  from Cons.IH [OF s(1) this] show ?case using s(3) by (simp add: feed_run_def)
qed (simp add: feed_run_def)

text \<open>A stage a program can be started on, and what starting one gives.\<close>

definition fit :: "nat \<Rightarrow> nat \<Rightarrow> stage \<Rightarrow> bool" where
  "fit w h st \<longleftrightarrow> geo w h (st_hub st) \<and> length (repaint_pos st) = 2 \<and> length (repaint_left st) = 2 \<and>
     repaint_left st ! 0 \<le> h \<and> repaint_left st ! 1 \<le> h"

lemma start_inv:
  fixes filt :: bool and hw :: hub_hw
  assumes f: "fit w h st" and n: "by_name progs name = Some prog"
  defines "s \<equiv> program_set hw progs filt (Some name) True st"
  shows "glass_inv prog px w h s" "prog_frame s = 0" "behind s = behind st"
proof -
  have p: "pixels (st_hub s) = pixels (st_hub st)"
    by (simp add: s_def program_set_def select_program_def n choose_program_def set_stream_hold_def on_hub_def
        set_dma_enabled_def publish_dma_limit_def Let_def) (simp add: pixels_def set_auto_swap_def)
  show "prog_frame s = 0" "behind s = behind st"
    by (simp_all add: s_def program_set_def select_program_def n choose_program_def set_stream_hold_def on_hub_def
        behind_def Let_def)
  have "prog_fn s = Some prog" "prog_dynamic s = pr_dynamic prog" "full_left s = 2" "prime_left s = 2"
    "repaint_pos s = repaint_pos st" "repaint_left s = repaint_left st"
    by (simp_all add: s_def program_set_def select_program_def n choose_program_def set_stream_hold_def on_hub_def
        Let_def)
  then show "glass_inv prog px w h s" using f by (simp add: glass_inv_def fit_def pixels_eq [OF p])
qed

lemma run_start:
  fixes filt :: bool and hw :: hub_hw
  assumes "fit w h st" "by_name progs name = Some prog" "declared prog px w h" "behind st + length evs < 2 ^ 32 - 1"
  defines "s \<equiv> feed_run hw progs evs (program_set hw progs filt (Some name) True st)"
  shows "glass_inv prog px w h s" "unat (prog_frame s) \<le> length evs"
proof -
  note i = start_inv [where filt = filt and hw = hw, OF assms(1,2)]
  have "behind (program_set hw progs filt (Some name) True st) + length evs < 2 ^ 32"
    "unat (prog_frame (program_set hw progs filt (Some name) True st)) + length evs < 2 ^ 32"
    using assms(4) i(2,3) by simp_all
  from run_keeps [OF assms(3) i(1) this] show "glass_inv prog px w h s" "unat (prog_frame s) \<le> length evs"
    using i(2) by (simp_all add: s_def)
qed

section \<open>What is on the glass\<close>


lemma settle_need:
  assumes d: "declared prog px w h"
  shows "glass_inv prog px w h s \<Longrightarrow> \<not> stale s \<Longrightarrow> unat (prog_frame s) + length ts < 2 ^ 32 - 1 \<Longrightarrow>
    sorted_wrt (\<lambda>a b. a + PROGRAM_PERIOD_MS \<le> b) ts \<Longrightarrow> \<forall>t \<in> set ts. next_ms s \<le> t \<Longrightarrow>
    s' = feed_run hw progs (map Tick ts) s \<Longrightarrow>
    glass_inv prog px w h s' \<and> \<not> stale s' \<and> st_values s' = st_values s \<and> need s' \<le> need s - length ts \<and>
    unat (prog_frame s') \<le> unat (prog_frame s) + length ts \<and> (ts \<noteq> [] \<longrightarrow> next_ms s' = last ts + PROGRAM_PERIOD_MS) \<and>
    (ts = [] \<longrightarrow> s' = s)"
proof (induction ts arbitrary: s)
  case (Cons t ts)
  have fr: "prog_frame s \<noteq> - 1" using Cons.prems(3) by (auto simp: unsigned_minus_1_eq_mask mask_eq_exp_minus_1)
  have due: "next_ms s \<le> t" using Cons.prems(5) by simp
  note k = tick_keeps [where hw = hw and progs = progs, OF Cons.prems(1) d fr due]
  have "unat (prog_frame (live_tick hw progs t s)) + length ts < 2 ^ 32 - 1" using k(5) Cons.prems(3) by simp
  moreover have "sorted_wrt (\<lambda>a b. a + PROGRAM_PERIOD_MS \<le> b) ts"
    "\<forall>t' \<in> set ts. next_ms (live_tick hw progs t s) \<le> t'" using Cons.prems(4) k(4) by simp_all
  moreover have "s' = feed_run hw progs (map Tick ts) (live_tick hw progs t s)" using Cons.prems(6) by (simp add: feed_run_def)
  ultimately show ?case using Cons.IH [OF k(1,2)] k(3,4,5) k(7) [OF Cons.prems(2)] by auto
qed (simp add: feed_run_def)

lemma need_none:
  assumes "need s = 0"
  shows "\<not> owed s (1 - bi (st_hub s)) y"
proof -
  have "(repaint_left s ! (1 - bi (st_hub s)) + 11) div 12 = 0" using assms by (simp add: need_def Let_def max_def split: if_splits)
  then have "repaint_left s ! (1 - bi (st_hub s)) = 0" by (simp add: div_eq_0_iff)
  then show ?thesis by (simp add: owed_def)
qed

lemma need_last: "a \<le> b - l \<Longrightarrow> b \<le> 2 * c - 1 \<Longrightarrow> 2 * c \<le> l + 2 \<Longrightarrow> a \<le> (1 :: nat)"
  by linarith


section \<open>A program that keeps its promises\<close>

text \<open>Two columns and three rows: the first scrolls, the second counts frames, the third shows how many values came.\<close>

definition demo_picture :: picture where
  "demo_picture c y x = (if y = 0 then c_frame c + of_nat x else if y = 1 then c_frame c else writes (c_values c))"

definition demo_prog :: program where
  "demo_prog = \<lparr>pr_name = [100], pr_row = (\<lambda>c y x0 s. map (\<lambda>i. demo_picture c y (x0 + i)) [0..<length s]),
     palette_static = True, pr_dynamic = Some (1, 2), pr_scroll = [(0, 1, 1, False)], pr_palette = None\<rparr>"

definition demo_panel :: hub75 where
  "demo_panel = \<lparr>fb_back = [0, 0, 0, 0, 0, 0], fb_front = [0, 0, 0, 0, 0, 0], hlength = 6, active_buf = 0,
     palette_shadow = replicate 256 0, palette_gen = 0, bank_gen = [0, 0], auto_swap = False, r_enabled = True,
     r_indexed = False, r_width = 2, r_rgb_order = 0, r_auto_swap = 0, r_fb_base = FB_BASE_WORDS, r_panels = [],
     r_group_origins = [], palette_ram = replicate 512 0, dma_limit = 0, dma_on = False\<rparr>"

definition demo_gateware :: hub_hw where
  "demo_gateware = \<lparr>hw_palette_banks = 2, hw_fb_base_now = 0, hw_has_rgb_order = True, hw_columns = 2, hw_rows = 3,
     hw_config = 0x4000, hw_driver = 0, hw_frame_id = 0, hw_total_chunks = 0, hw_indexed = 0, hw_arrival = [], hw_done = [],
     hw_done_frame_id = 0, hw_done_total = 0, hw_done_indexed = 0, hw_done_seq = (0, 0), hw_last_chunk = 0\<rparr>"

definition demo_stage :: stage where
  "demo_stage = \<lparr>st_hub = demo_panel, st_rx = receiver_new, st_values = table_new, prog_active = False, prog_frame = 0,
     prog_fn = None, prog_dynamic = None, full_left = 2, prime_left = 0, seen_writes = 0, prog_name = [], next_ms = 0,
     repaint_pos = [0, 0], repaint_left = [0, 0], palette_dirty = True\<rparr>"

definition demo_after :: "feed list \<Rightarrow> stage" where
  "demo_after evs = feed_run demo_gateware [demo_prog] evs
     (program_set demo_gateware [demo_prog] True (Some [100]) True demo_stage)"

lemma demo_declared: "declared demo_prog demo_picture 2 3"
  by (auto simp: declared_def honest_def demo_prog_def scroll_law_def cx_def demo_picture_def still_def in_scroll_def
      add.commute add.left_commute)

lemma demo_fit: "fit 2 3 demo_stage" "behind demo_stage = 0" "by_name [demo_prog] [100] = Some demo_prog"
  by (simp_all add: fit_def geo_def demo_stage_def demo_panel_def base_of_def behind_def table_new_def by_name_def
      demo_prog_def)

lemma next_ms_tick: "next_ms (live_tick hw progs t st) \<le> max (next_ms st) (t + PROGRAM_PERIOD_MS)"
proof -
  have d: "next_ms (draw_frame hw prog c w h st) = next_ms st" for hw prog c w h st
    by (simp add: draw_frame_def pay_repaint_def on_hub_def Let_def split_beta)
  have o: "next_ms (owe_repaint h (tick_palette hw prog c st)) = next_ms st" for h hw prog c st
    by (simp add: owe_repaint_def tick_palette_def on_hub_def split: option.split)
  show ?thesis
    by (simp add: live_tick_def program_tick_def Let_def split_beta d o on_hub_def [of show_frame]) (simp add: on_hub_def)
qed

lemma next_ms_start: "next_ms (program_set hw progs filt name True st) = 0"
  by (simp add: program_set_def on_hub_def set_stream_hold_def Let_def)



end
