(* ===== verification/Net_Frames.thy ===== *)
theory Net_Frames
  imports Bitmap_Stream
begin

text \<open>
  \<^verbatim>\<open>src/network.rs\<close>, the receive loop of the interrupt handler: the filters on raw
  Ethernet frames, the fast path to the frame receiver, and the loop over the hardware FIFO.
  The FIFO is the list of frames in it; smoltcp is the parameter \<open>poll\<close>, which takes its
  state and the FIFO and gives both back. \<^const>\<open>None\<close> is a panic: an index or a slice
  outside the frame, or a panic of the receiver.
\<close>

unbundle bit_operations_syntax

section \<open>Filters\<close>

type_synonym eth_frame = "u8 list"

definition MAX_PACKETS_PER_ISR :: nat where [src_consts]: "MAX_PACKETS_PER_ISR = 64"
definition PUBLISH_EVERY :: u32 where [src_consts]: "PUBLISH_EVERY = 64"

definition ihl_of :: "eth_frame \<Rightarrow> nat" where
  "ihl_of f = unat (f ! 14 AND 0x0F)"

text \<open>Each test of a frame, with the indices it reads under the lengths it has tested.\<close>

definition is_bitmap_udp :: "eth_frame \<Rightarrow> bool option" where
  "is_bitmap_udp f =
     (if length f < 52 then Some False
      else in_bounds 14 f (if f ! 12 \<noteq> 0x08 \<or> f ! 13 \<noteq> 0x00 then Some False
      else let ihl = ihl_of f in
      if ihl < 5 then Some False
      else let udp_offset = 14 + ihl * 4 in
      if length f < udp_offset + 18 then Some False
      else in_bounds 23 f (if f ! 23 \<noteq> 17 then Some False
      else in_bounds (udp_offset + 3) f (Some (u16_be (f ! (udp_offset + 2)) (f ! (udp_offset + 3)) = 7000)))))"

definition is_foreign_arp :: "u8 list \<Rightarrow> eth_frame \<Rightarrow> bool option" where
  "is_foreign_arp ours f =
     (if length f < 42 then Some False
      else in_bounds 13 f (if u16_be (f ! 12) (f ! 13) \<noteq> 0x0806 then Some False
      else if ours = [0, 0, 0, 0] then Some False
      else in_slice 42 f (Some (take 4 (drop 38 f) \<noteq> ours))))"

definition is_multicast :: "eth_frame \<Rightarrow> bool option" where
  "is_multicast f =
     (if length f < 6 then Some False
      else in_bounds 5 f (if f ! 0 AND 0x01 = 0 then Some False
      else if f ! 0 = 0xFF \<and> f ! 1 = 0xFF \<and> f ! 2 = 0xFF \<and> f ! 3 = 0xFF \<and> f ! 4 = 0xFF \<and> f ! 5 = 0xFF then Some False
      else Some True))"

definition is_unwanted_udp :: "eth_frame \<Rightarrow> bool option" where
  "is_unwanted_udp f =
     (if length f < 44 then Some False
      else in_bounds 13 f (if f ! 12 \<noteq> 0x08 \<or> f ! 13 \<noteq> 0x00 then Some False
      else in_bounds 23 f (if f ! 23 \<noteq> 17 then Some False
      else let ihl = ihl_of f in
      if ihl < 5 then Some False
      else let udp_offset = 14 + ihl * 4 in
      if length f < udp_offset + 4 then Some False
      else in_bounds (udp_offset + 3) f
        (Some (u16_be (f ! (udp_offset + 2)) (f ! (udp_offset + 3)) \<notin> {7000, 6454, 67, 68, 69, 6900, 6901})))))"

definition is_arp_not_for_us :: "eth_frame \<Rightarrow> u8 list \<Rightarrow> bool option" where
  "is_arp_not_for_us f our_ip =
     (if length f < 42 then Some False
      else in_bounds 21 f (if f ! 12 \<noteq> 0x08 \<or> f ! 13 \<noteq> 0x06 then Some False
      else if f ! 20 \<noteq> 0x00 \<or> f ! 21 \<noteq> 0x01 then Some False
      else in_bounds 41 f (Some (f ! 38 \<noteq> our_ip ! 0 \<or> f ! 39 \<noteq> our_ip ! 1 \<or> f ! 40 \<noteq> our_ip ! 2 \<or> f ! 41 \<noteq> our_ip ! 3))))"

section \<open>State of the handler\<close>

record isr =
  i_hub :: hub75
  i_rx :: receiver
  i_time :: int
  our_ipv4 :: "u8 list"
  last_bitmap_ms :: int
  stats_publish_tick :: u32
  i_published :: bitmap_stats
  anim_none :: bool
  dbg_fast :: u32
  dbg_slow :: u32
  dbg_max_batch :: u32
  dbg_multicast :: u32
  dbg_arp_dropped :: u32
  dbg_slow_arp :: u32
  dbg_slow_tcp :: u32
  dbg_slow_udp :: u32
  dbg_slow_other :: u32
  dbg_pkt :: "u8 list"
  dbg_pkt_len :: nat
  dbg_captured :: bool
  had_arp :: bool
  had_tcp :: bool
  had_udp :: bool
  batch_count :: u32

section \<open>The fast path\<close>

text \<open>\<^const>\<open>None\<close>: the slice of the frame starts past its end, or the receiver panics.\<close>

definition process_raw_bitmap :: "hub_hw \<Rightarrow> bool \<Rightarrow> eth_frame \<Rightarrow> isr \<Rightarrow> (bool \<times> isr) option" where
  "process_raw_bitmap hw al f st0 =
     (let st = st0\<lparr>last_bitmap_ms := i_time st0\<rparr> in
      in_bounds 14 f (let udp_offset = 14 + ihl_of f * 4 + 8 in
      in_slice udp_offset f (case process_packet hw al (drop udp_offset f) (i_time st) (i_rx st) (i_hub st) of
        None \<Rightarrow> None
      | Some (presented, rx, h) \<Rightarrow>
         let st1 = st\<lparr>i_rx := rx, i_hub := (if presented then hub_on h else h), anim_none := anim_none st \<or> presented,
                   stats_publish_tick := stats_publish_tick st + 1\<rparr> in
         Some (presented,
           if presented \<or> stats_publish_tick st1 mod PUBLISH_EVERY = 0 then st1\<lparr>i_published := stats rx\<rparr> else st1))))"

section \<open>The slow path\<close>

definition classify :: "eth_frame \<Rightarrow> isr \<Rightarrow> isr option" where
  "classify f st =
     (if length f \<ge> 14 then
        in_bounds 13 f (let ethertype = u16_be (f ! 12) (f ! 13) in
         if ethertype = 0x0806 then Some (st\<lparr>dbg_slow_arp := dbg_slow_arp st + 1, had_arp := True\<rparr>)
         else if ethertype = 0x0800 \<and> length f \<ge> 24 then
           in_bounds 23 f
           (if f ! 23 = 6 then Some (st\<lparr>dbg_slow_tcp := dbg_slow_tcp st + 1, had_tcp := True\<rparr>)
            else if f ! 23 = 17 then Some (st\<lparr>dbg_slow_udp := dbg_slow_udp st + 1, had_udp := True\<rparr>)
            else Some (st\<lparr>dbg_slow_other := dbg_slow_other st + 1, had_arp := True\<rparr>))
         else Some (st\<lparr>dbg_slow_other := dbg_slow_other st + 1, had_arp := True\<rparr>))
      else Some (st\<lparr>had_arp := True\<rparr>))"

definition capture :: "eth_frame \<Rightarrow> isr \<Rightarrow> isr" where
  "capture f st =
     (if \<not> dbg_captured st \<and> dbg_fast st > 100
      then st\<lparr>dbg_pkt := splice 0 (take 64 f) (dbg_pkt st), dbg_pkt_len := length f, dbg_captured := True\<rparr> else st)"

definition slow_frame :: "eth_frame \<Rightarrow> isr \<Rightarrow> isr option" where
  "slow_frame f st = map_option (capture f) (classify f (st\<lparr>dbg_slow := dbg_slow st + 1, batch_count := batch_count st + 1\<rparr>))"

section \<open>The loop\<close>

type_synonym 'i stack = "int \<Rightarrow> 'i \<Rightarrow> eth_frame list \<Rightarrow> 'i \<times> eth_frame list"

fun rx_loop :: "hub_hw \<Rightarrow> bool \<Rightarrow> 'i stack \<Rightarrow> nat \<Rightarrow> isr \<Rightarrow> 'i \<Rightarrow> eth_frame list \<Rightarrow> (isr \<times> 'i \<times> eth_frame list) option" where
  "rx_loop hw al poll 0 st ifc fifo = Some (st, ifc, fifo)"
| "rx_loop hw al poll (Suc n) st ifc [] = Some (st, ifc, [])"
| "rx_loop hw al poll (Suc n) st ifc (f # fifo) =
     Option.bind (is_bitmap_udp f) (\<lambda>bitmap. if bitmap then
       Option.bind (process_raw_bitmap hw al f (st\<lparr>dbg_fast := dbg_fast st + 1, batch_count := batch_count st + 1\<rparr>))
         (\<lambda>(presented, st'). rx_loop hw al poll n st' ifc fifo)
     else Option.bind (is_foreign_arp (our_ipv4 st) f) (\<lambda>foreign. if foreign then
       rx_loop hw al poll n (st\<lparr>dbg_arp_dropped := dbg_arp_dropped st + 1, batch_count := batch_count st + 1\<rparr>) ifc fifo
     else Option.bind (is_multicast f) (\<lambda>multi. if multi then
       rx_loop hw al poll n (st\<lparr>dbg_multicast := dbg_multicast st + 1, batch_count := batch_count st + 1\<rparr>) ifc fifo
     else Option.bind (is_unwanted_udp f) (\<lambda>unwanted. if unwanted then
       rx_loop hw al poll n (st\<lparr>dbg_multicast := dbg_multicast st + 1, batch_count := batch_count st + 1\<rparr>) ifc fifo
     else Option.bind (slow_frame f st)
       (\<lambda>st'. let (ifc', fifo') = poll (i_time st') ifc (f # fifo) in rx_loop hw al poll n st' ifc' fifo')))))"

definition receive_batch :: "hub_hw \<Rightarrow> bool \<Rightarrow> 'i stack \<Rightarrow> isr \<Rightarrow> 'i \<Rightarrow> eth_frame list \<Rightarrow> (isr \<times> 'i \<times> eth_frame list) option" where
  "receive_batch hw al poll st0 ifc fifo =
     (case rx_loop hw al poll MAX_PACKETS_PER_ISR
        (st0\<lparr>had_arp := False, had_tcp := False, had_udp := False, batch_count := 0\<rparr>) ifc fifo of
        None \<Rightarrow> None
      | Some (st, ifc', fifo') \<Rightarrow>
         Some (if batch_count st > dbg_max_batch st then st\<lparr>dbg_max_batch := batch_count st\<rparr> else st, ifc', fifo'))"

section \<open>The tests read inside the frame\<close>

text \<open>What each test decides, with its reads known to be inside.\<close>

definition bitmap_udp :: "eth_frame \<Rightarrow> bool" where
  "bitmap_udp f \<longleftrightarrow> 52 \<le> length f \<and> f ! 12 = 0x08 \<and> f ! 13 = 0x00 \<and> 5 \<le> ihl_of f \<and> 14 + ihl_of f * 4 + 18 \<le> length f \<and>
     f ! 23 = 17 \<and> u16_be (f ! (14 + ihl_of f * 4 + 2)) (f ! (14 + ihl_of f * 4 + 3)) = 7000"

definition foreign_arp :: "u8 list \<Rightarrow> eth_frame \<Rightarrow> bool" where
  "foreign_arp ours f \<longleftrightarrow> 42 \<le> length f \<and> u16_be (f ! 12) (f ! 13) = 0x0806 \<and> ours \<noteq> [0, 0, 0, 0] \<and> take 4 (drop 38 f) \<noteq> ours"

definition multicast :: "eth_frame \<Rightarrow> bool" where
  "multicast f \<longleftrightarrow> 6 \<le> length f \<and> f ! 0 AND 0x01 \<noteq> 0 \<and>
     \<not> (f ! 0 = 0xFF \<and> f ! 1 = 0xFF \<and> f ! 2 = 0xFF \<and> f ! 3 = 0xFF \<and> f ! 4 = 0xFF \<and> f ! 5 = 0xFF)"

definition unwanted_udp :: "eth_frame \<Rightarrow> bool" where
  "unwanted_udp f \<longleftrightarrow> 44 \<le> length f \<and> f ! 12 = 0x08 \<and> f ! 13 = 0x00 \<and> f ! 23 = 17 \<and> 5 \<le> ihl_of f \<and>
     14 + ihl_of f * 4 + 4 \<le> length f \<and>
     u16_be (f ! (14 + ihl_of f * 4 + 2)) (f ! (14 + ihl_of f * 4 + 3)) \<notin> {7000, 6454, 67, 68, 69, 6900, 6901}"

lemma tests_in_bounds [simp]:
  "is_bitmap_udp f = Some (bitmap_udp f)" "is_foreign_arp ours f = Some (foreign_arp ours f)"
  "is_multicast f = Some (multicast f)" "is_unwanted_udp f = Some (unwanted_udp f)"
  by (auto simp: is_bitmap_udp_def bitmap_udp_def is_foreign_arp_def foreign_arp_def is_multicast_def multicast_def
      is_unwanted_udp_def unwanted_udp_def Let_def)

lemma arp_test_in_bounds: "is_arp_not_for_us f ip \<noteq> None"
  by (auto simp: is_arp_not_for_us_def)

lemma classify_in_bounds: "\<exists>st'. classify f st = Some st' \<and> i_rx st' = i_rx st \<and> i_hub st' = i_hub st"
  by (simp add: classify_def Let_def)

lemma slow_frame_in_bounds: "\<exists>st'. slow_frame f st = Some st' \<and> i_rx st' = i_rx st \<and> i_hub st' = i_hub st"
proof -
  obtain st1 where "classify f (st\<lparr>dbg_slow := dbg_slow st + 1, batch_count := batch_count st + 1\<rparr>) = Some st1"
    "i_rx st1 = i_rx st" "i_hub st1 = i_hub st"
    using classify_in_bounds [of f "st\<lparr>dbg_slow := dbg_slow st + 1, batch_count := batch_count st + 1\<rparr>"] by auto
  then show ?thesis by (simp add: slow_frame_def capture_def)
qed

end
