(* ===== verification/Net_Receive.thy ===== *)
theory Net_Receive
  imports Net_Frames Bitmap_Props
begin

text \<open>
  The receive loop of \<open>Net_Frames\<close>: it never panics, whatever is on the wire, and the frames
  it does not give to smoltcp reach the receiver of \<open>Bitmap_Udp\<close> and nothing else.
\<close>

section \<open>No panic\<close>

lemma bitmap_udp_long:
  assumes "bitmap_udp f"
  shows "14 < length f" "14 + ihl_of f * 4 + 8 \<le> length f" "10 \<le> length (drop (14 + ihl_of f * 4 + 8) f)"
  using assms by (auto simp: bitmap_udp_def)

text \<open>Whatever every packet keeps of the receiver and the display, the loop keeps.\<close>

definition packet_kept :: "(receiver \<Rightarrow> hub75 \<Rightarrow> bool) \<Rightarrow> bool" where
  "packet_kept P \<longleftrightarrow> (\<forall>hw al d t rx h. P rx h \<longrightarrow> (\<exists>p rx' h'. process_packet hw al d t rx h = Some (p, rx', h') \<and> P rx' h' \<and> P rx' (hub_on h')))"

lemma raw_bitmap_keeps:
  assumes "packet_kept P" "bitmap_udp f" "P (i_rx st) (i_hub st)"
  shows "\<exists>p st'. process_raw_bitmap hw al f st = Some (p, st') \<and> P (i_rx st') (i_hub st')"
proof -
  let ?st = "st\<lparr>last_bitmap_ms := i_time st\<rparr>"
  obtain p rx h where "process_packet hw al (drop (14 + ihl_of f * 4 + 8) f) (i_time st) (i_rx st) (i_hub st) = Some (p, rx, h)"
    "P rx h" "P rx (hub_on h)"
    using assms(1,3) unfolding packet_kept_def by blast
  then show ?thesis
    using bitmap_udp_long(1,2) [OF assms(2)] by (auto simp: process_raw_bitmap_def Let_def)
qed

lemma rx_loop_keeps:
  assumes kept: "packet_kept P"
  shows "P (i_rx st) (i_hub st) \<Longrightarrow>
    \<exists>st' ifc' fifo'. rx_loop hw al poll n st ifc fifo = Some (st', ifc', fifo') \<and> P (i_rx st') (i_hub st')"
proof (induction n arbitrary: st ifc fifo)
  case (Suc n)
  show ?case
  proof (cases fifo)
    case (Cons f fs)
    show ?thesis
    proof (cases "bitmap_udp f")
      case True
      from raw_bitmap_keeps [OF kept True, of "st\<lparr>dbg_fast := dbg_fast st + 1, batch_count := batch_count st + 1\<rparr>" hw al] Suc.prems
      obtain p st' where
        "process_raw_bitmap hw al f (st\<lparr>dbg_fast := dbg_fast st + 1, batch_count := batch_count st + 1\<rparr>) = Some (p, st')"
        "P (i_rx st') (i_hub st')"
        by auto
      then show ?thesis using Suc.IH [of st' ifc fs] True by (simp add: Cons)
    next
      case False
      obtain st' where "slow_frame f st = Some st'" "P (i_rx st') (i_hub st')" using slow_frame_in_bounds [of f st] Suc.prems by auto
      then show ?thesis
        using Suc.IH [of st'] Suc.IH [of "st\<lparr>dbg_arp_dropped := dbg_arp_dropped st + 1, batch_count := batch_count st + 1\<rparr>"]
          Suc.IH [of "st\<lparr>dbg_multicast := dbg_multicast st + 1, batch_count := batch_count st + 1\<rparr>"] Suc.prems False
        by (simp add: Cons Let_def split_beta)
    qed
  qed (use Suc.prems in simp)
qed simp

lemma batch_keeps:
  assumes "packet_kept P" "P (i_rx st) (i_hub st)"
  shows "\<exists>st' ifc' fifo'. receive_batch hw al poll st ifc fifo = Some (st', ifc', fifo') \<and> P (i_rx st') (i_hub st')"
  using rx_loop_keeps [OF assms(1), of "st\<lparr>had_arp := False, had_tcp := False, had_udp := False, batch_count := 0\<rparr>" hw al poll
      MAX_PACKETS_PER_ISR ifc fifo] assms(2)
  by (auto simp: receive_batch_def)

lemma fits_kept: "packet_kept (\<lambda>rx h. mask_fits rx)"
  unfolding packet_kept_def using process_packet_runs by blast

lemma inv_kept: "packet_kept (\<lambda>rx h. rx_inv rx \<and> \<not> dma_on h)"
proof -
  have "dma_on (hub_on h) = dma_on h" for h by (simp add: hub_on_def)
  then show ?thesis unfolding packet_kept_def using process_packet_total by metis
qed


section \<open>The fast path as a stream\<close>

definition udp_payload :: "eth_frame \<Rightarrow> u8 list" where
  "udp_payload f = drop (14 + ihl_of f * 4 + 8) f"

definition for_stack :: "u8 list \<Rightarrow> eth_frame \<Rightarrow> bool" where
  "for_stack ours f \<longleftrightarrow> \<not> bitmap_udp f \<and> \<not> foreign_arp ours f \<and> \<not> multicast f \<and> \<not> unwanted_udp f"

text \<open>Packets at the receiver; what is presented switches the panel on.\<close>

fun deliver :: "(hub_hw \<times> bool \<times> int \<times> u8 list) list \<Rightarrow> receiver \<Rightarrow> hub75 \<Rightarrow> (receiver \<times> hub75) option" where
  "deliver [] rx h = Some (rx, h)"
| "deliver ((hw, al, t, d) # es) rx h =
     (case process_packet hw al d t rx h of
        None \<Rightarrow> None
      | Some (p, rx1, h1) \<Rightarrow> deliver es rx1 (if p then hub_on h1 else h1))"

lemma deliver_append:
  "deliver (es @ es') rx h = (case deliver es rx h of None \<Rightarrow> None | Some (rx1, h1) \<Rightarrow> deliver es' rx1 h1)"
  by (induction es rx h rule: deliver.induct) (auto split: option.splits)

lemma deliver_last:
  "feed (es @ [e]) rx h = Some (replicate (length es) False @ [True], rx', h') \<Longrightarrow> deliver (es @ [e]) rx h = Some (rx', hub_on h')"
proof (induction es arbitrary: rx h)
  case Nil
  obtain hw al t d where "e = (hw, al, t, d)" by (cases e)
  then show ?case using Nil by (auto split: option.splits)
next
  case (Cons a es)
  obtain hw al t d where "a = (hw, al, t, d)" by (cases a)
  then show ?case using Cons by (auto split: option.splits)
qed

definition tagged :: "hub_hw \<Rightarrow> bool \<Rightarrow> int \<Rightarrow> eth_frame list \<Rightarrow> (hub_hw \<times> bool \<times> int \<times> u8 list) list" where
  "tagged hw al t fs = map (\<lambda>f. (hw, al, t, udp_payload f)) (filter bitmap_udp fs)"

definition same_net :: "isr \<Rightarrow> isr \<Rightarrow> bool" where
  "same_net st st' \<longleftrightarrow> i_time st' = i_time st \<and> our_ipv4 st' = our_ipv4 st"

lemma rx_loop_deliver:
  "\<forall>f \<in> set fifo. \<not> for_stack (our_ipv4 st) f \<Longrightarrow>
   deliver (tagged hw al (i_time st) (take n fifo)) (i_rx st) (i_hub st) = Some (rx', h') \<Longrightarrow>
   \<exists>st'. rx_loop hw al poll n st ifc fifo = Some (st', ifc, drop n fifo) \<and> i_rx st' = rx' \<and> i_hub st' = h' \<and> same_net st st'"
proof (induction n arbitrary: st fifo)
  case (Suc n)
  show ?case
  proof (cases fifo)
    case (Cons f fs)
    show ?thesis
    proof (cases "bitmap_udp f")
      case True
      let ?st = "st\<lparr>dbg_fast := dbg_fast st + 1, batch_count := batch_count st + 1\<rparr>"
      obtain p rx h where pp: "process_packet hw al (udp_payload f) (i_time st) (i_rx st) (i_hub st) = Some (p, rx, h)"
        and rest: "deliver (tagged hw al (i_time st) (take n fs)) rx (if p then hub_on h else h) = Some (rx', h')"
        using Suc.prems(2) True by (auto simp: Cons tagged_def split: option.splits)
      obtain st1 where r: "process_raw_bitmap hw al f ?st = Some (p, st1)" "i_rx st1 = rx"
        "i_hub st1 = (if p then hub_on h else h)" "same_net st st1"
        using pp bitmap_udp_long(1,2) [OF True]
        by (auto simp: process_raw_bitmap_def Let_def udp_payload_def same_net_def)
      have "\<forall>f \<in> set fs. \<not> for_stack (our_ipv4 st1) f" using Suc.prems(1) r(4) by (simp add: Cons same_net_def)
      moreover have "deliver (tagged hw al (i_time st1) (take n fs)) (i_rx st1) (i_hub st1) = Some (rx', h')"
        using rest r by (simp add: same_net_def)
      ultimately show ?thesis using Suc.IH [of fs st1] r True by (auto simp: Cons same_net_def)
    next
      case False
      let ?a = "st\<lparr>dbg_arp_dropped := dbg_arp_dropped st + 1, batch_count := batch_count st + 1\<rparr>"
      let ?m = "st\<lparr>dbg_multicast := dbg_multicast st + 1, batch_count := batch_count st + 1\<rparr>"
      have "deliver (tagged hw al (i_time st) (take n fs)) (i_rx st) (i_hub st) = Some (rx', h')"
        using Suc.prems(2) False by (simp add: Cons tagged_def)
      then have step: "\<exists>st'. rx_loop hw al poll n s ifc fs = Some (st', ifc, drop n fs) \<and> i_rx st' = rx' \<and> i_hub st' = h' \<and> same_net s st'"
        if "s = ?a \<or> s = ?m" for s
        using Suc.IH [of fs s] Suc.prems(1) that by (auto simp: Cons)
      from step [of ?a] step [of ?m] show ?thesis
        using Suc.prems(1) False by (auto simp: Cons for_stack_def same_net_def)
    qed
  qed (use Suc.prems in \<open>auto simp: tagged_def same_net_def\<close>)
qed (simp add: tagged_def same_net_def)

text \<open>A row of interrupts, each at its time with the frames it finds.\<close>

fun interrupts :: "hub_hw \<Rightarrow> bool \<Rightarrow> 'i stack \<Rightarrow> (int \<times> eth_frame list) list \<Rightarrow> isr \<Rightarrow> 'i \<Rightarrow> eth_frame list \<Rightarrow>
    (isr \<times> 'i \<times> eth_frame list) option" where
  "interrupts hw al poll [] st ifc left = Some (st, ifc, left)"
| "interrupts hw al poll ((t, fs) # es) st ifc left =
     (case receive_batch hw al poll (st\<lparr>i_time := t\<rparr>) ifc (left @ fs) of
        None \<Rightarrow> None
      | Some (st', ifc', left') \<Rightarrow> interrupts hw al poll es st' ifc' left')"

lemma interrupts_deliver:
  "\<forall>(t, fs) \<in> set evs. length fs \<le> 64 \<and> (\<forall>f \<in> set fs. \<not> for_stack (our_ipv4 st) f) \<Longrightarrow>
   deliver (concat (map (\<lambda>(t, fs). tagged hw al t fs) evs)) (i_rx st) (i_hub st) = Some (rx', h') \<Longrightarrow>
   \<exists>st'. interrupts hw al poll evs st ifc [] = Some (st', ifc, []) \<and> i_rx st' = rx' \<and> i_hub st' = h'"
proof (induction evs arbitrary: st)
  case (Cons e evs)
  obtain t fs where e: "e = (t, fs)" by (cases e)
  let ?st = "(st\<lparr>i_time := t\<rparr>)\<lparr>had_arp := False, had_tcp := False, had_udp := False, batch_count := 0\<rparr>"
  obtain rx1 h1 where d: "deliver (tagged hw al t fs) (i_rx st) (i_hub st) = Some (rx1, h1)"
    and rest: "deliver (concat (map (\<lambda>(t, fs). tagged hw al t fs) evs)) rx1 h1 = Some (rx', h')"
    using Cons.prems(2) by (auto simp: e deliver_append split: option.splits)
  have l: "length fs \<le> 64" using Cons.prems(1) by (simp add: e)
  then obtain st1 where s: "rx_loop hw al poll MAX_PACKETS_PER_ISR ?st ifc fs = Some (st1, ifc, [])"
    "i_rx st1 = rx1" "i_hub st1 = h1" "same_net ?st st1"
    using rx_loop_deliver [of fs ?st hw al MAX_PACKETS_PER_ISR rx1 h1 poll ifc] d Cons.prems(1)
    by (auto simp: e MAX_PACKETS_PER_ISR_def)
  let ?st2 = "if batch_count st1 > dbg_max_batch st1 then st1\<lparr>dbg_max_batch := batch_count st1\<rparr> else st1"
  have b: "receive_batch hw al poll (st\<lparr>i_time := t\<rparr>) ifc fs = Some (?st2, ifc, [])"
    using s(1) by (simp add: receive_batch_def)
  have "\<forall>(t, fs) \<in> set evs. length fs \<le> 64 \<and> (\<forall>f \<in> set fs. \<not> for_stack (our_ipv4 ?st2) f)"
    using Cons.prems(1) s(4) by (auto simp: same_net_def)
  moreover have "deliver (concat (map (\<lambda>(t, fs). tagged hw al t fs) evs)) (i_rx ?st2) (i_hub ?st2) = Some (rx', h')"
    using rest s(2,3) by simp
  ultimately show ?case using Cons.IH [of ?st2] b by (simp add: e)
qed simp

lemma as_sent:
  assumes "map (\<lambda>(hw, al, t, d). d) L = map (chunk_packet f) ks"
  shows "\<exists>es. L = map (sent f) es \<and> map chunk_of es = ks"
  using assms
proof (induction L arbitrary: ks)
  case (Cons a L)
  obtain hw al t d where a: "a = (hw, al, t, d)" by (cases a)
  obtain k ks' where ks: "ks = k # ks'" using Cons.prems by (cases ks) auto
  obtain es where "L = map (sent f) es \<and> map chunk_of es = ks'" using Cons.IH [of ks'] Cons.prems by (auto simp: ks)
  then show ?case
    using Cons.prems by (intro exI [of _ "(hw, al, t, k) # es"]) (auto simp: a ks sent_def chunk_of_def)
qed simp

lemma tagged_payloads:
  "map (\<lambda>(hw, al, t, d). d) (concat (map (\<lambda>(t, fs). tagged hw al t fs) evs))
     = map udp_payload (filter bitmap_udp (concat (map snd evs)))"
  by (induction evs) (auto simp: tagged_def)


section \<open>Two packets and an ARP request for another host\<close>

definition udp_head :: "u8 list" where
  "udp_head = [0, 1, 2, 3, 4, 5, 6, 7, 8, 9, 10, 11, 8, 0, 0x45, 0, 0, 0, 0, 0, 0, 0, 64, 17, 0, 0,
     10, 0, 0, 1, 10, 0, 0, 2, 0x1B, 0x58, 0x1B, 0x58, 0, 0, 0, 0]"

definition arp_frame :: eth_frame where
  "arp_frame = [0xFF, 0xFF, 0xFF, 0xFF, 0xFF, 0xFF, 6, 7, 8, 9, 10, 11, 8, 6] @ replicate 24 0 @ [10, 0, 0, 9]"

definition demo_isr :: isr where
  "demo_isr = \<lparr>i_hub = hub0, i_rx = receiver_new, i_time = 0, our_ipv4 = [10, 0, 0, 2], last_bitmap_ms = 0,
     stats_publish_tick = 0, i_published = stats receiver_new, anim_none = False, dbg_fast = 0, dbg_slow = 0, dbg_max_batch = 0,
     dbg_multicast = 0, dbg_arp_dropped = 0, dbg_slow_arp = 0, dbg_slow_tcp = 0, dbg_slow_udp = 0, dbg_slow_other = 0,
     dbg_pkt = replicate 64 0, dbg_pkt_len = 0, dbg_captured = False, had_arp = False, had_tcp = False, had_udp = False,
     batch_count = 0\<rparr>"

lemma udp_head_bitmap:
  assumes "10 \<le> length d"
  shows "bitmap_udp (udp_head @ d)" "udp_payload (udp_head @ d) = d"
proof -
  have l: "length udp_head = 42" by (simp add: udp_head_def)
  have ix: "(udp_head @ d) ! i = udp_head ! i" if "i < 42" for i using that l by (simp add: nth_append)
  have i: "ihl_of (udp_head @ d) = 5" by (simp add: ihl_of_def ix) (simp add: udp_head_def)
  show "bitmap_udp (udp_head @ d)"
    using assms by (simp add: bitmap_udp_def i l ix Let_def) (simp add: udp_head_def u16_be_def)
  show "udp_payload (udp_head @ d) = d" by (simp add: udp_payload_def i l)
qed

lemma chunk_packet_long: "10 \<le> length (chunk_packet f k)"
  by (cases "f_wire f") (simp_all add: chunk_packet_def le16_def)

lemma arp_dropped: "\<not> bitmap_udp arp_frame" "foreign_arp [10, 0, 0, 2] arp_frame"
  by (simp_all add: bitmap_udp_def foreign_arp_def arp_frame_def u16_be_def)



text \<open>
  The slice runs to the end of the frame, so the padding of a short Ethernet frame counts: a palette
  packet of one colour, thirteen bytes, arrives padded to sixty and sets two entries.
\<close>

lemma padding_sets_palette:
  "\<exists>st'. process_raw_bitmap hw0 al (udp_head @ [0x42, 0x50, 0, 0, 7, 0, 0, 0, 0, 0, 10, 20, 30] @ replicate 5 0) demo_isr = Some (False, st') \<and>
     pending_palette_start (i_rx st') = 7 \<and> pending_palette_len (i_rx st') = 2"
proof -
  let ?d = "[0x42, 0x50, 0, 0, 7, 0, 0, 0, 0, 0, 10, 20, 30] @ replicate 5 0 :: u8 list"
  let ?st = "demo_isr\<lparr>last_bitmap_ms := i_time demo_isr\<rparr>"
  note b = udp_head_bitmap [of ?d]
  have u: "drop (14 + ihl_of (udp_head @ ?d) * 4 + 8) (udp_head @ ?d) = ?d" using b(2) by (simp add: udp_payload_def)
  have p: "\<exists>rx h. process_packet hw0 al ?d (i_time ?st) (i_rx ?st) (i_hub ?st) = Some (False, rx, h) \<and>
      pending_palette_start rx = 7 \<and> pending_palette_len rx = 2"
    by (simp add: process_packet_def stash_palette_def demo_isr_def receiver_new_def with_stats_def HEADER_SIZE_def
        PALETTE_DEFER_MS_def PALETTE_LEN_def Let_def)
  have "bitmap_udp (udp_head @ ?d)" using b(1) by simp
  from p bitmap_udp_long(1,2) [OF this] show ?thesis
    by (auto simp: process_raw_bitmap_def Let_def u [simplified])
qed

end
