(* ===== verification/Net_Json.thy ===== *)
theory Net_Json
  imports Http_Request Panel_Prim
begin

text \<open>
  \<^verbatim>\<open>src/network.rs\<close>, the text side of the API: the scanner behind
  \<^verbatim>\<open>/api/values\<close>, the two field readers, and the parsers of numbers and addresses.
  A position in the body is the rest of the body from there.
\<close>

section \<open>Pushed values\<close>

definition QUOTE :: u8 where "QUOTE = 0x22"

lemma dropWhile_shorter: "length (dropWhile P xs) \<le> length xs"
  by (simp add: length_dropWhile_le)

function values_scan :: "int \<Rightarrow> int \<Rightarrow> u8 list \<Rightarrow> value_table \<Rightarrow> u32 \<Rightarrow> value_table \<times> u32" where
  "values_scan now depth [] t stored = (t, stored)"
| "values_scan now depth (c # rest) t stored =
     (if c = 0x7B then values_scan now (w32 (depth + 1)) rest t stored
      else if c = 0x7D then values_scan now (w32 (depth - 1)) rest t stored
      else if c = QUOTE \<and> depth = 1 then
        (let r1 = dropWhile (\<lambda>x. x \<noteq> QUOTE) rest in
         if r1 = [] then (t, stored)
         else let key = utf8_or_empty (takeWhile (\<lambda>x. x \<noteq> QUOTE) rest);
                  r2 = dropWhile (\<lambda>x. x = 0x20 \<or> x = 0x3A) (tl r1) in
         if r2 = [] then (t, stored)
         else if hd r2 = QUOTE then
           (let r3 = dropWhile (\<lambda>x. x \<noteq> QUOTE) (tl r2) in
            if r3 = [] then (t, stored)
            else let val = utf8_or_empty (takeWhile (\<lambda>x. x \<noteq> QUOTE) (tl r2)) in
              values_scan now depth (tl r3) (set_value (as_bytes key) (as_bytes val) now t) (stored + 1))
         else
           (let val = trim (utf8_or_empty (takeWhile (\<lambda>x. x \<noteq> 0x2C \<and> x \<noteq> 0x7D) r2)) in
            values_scan now depth (dropWhile (\<lambda>x. x \<noteq> 0x2C \<and> x \<noteq> 0x7D) r2)
              (set_value (as_bytes key) (as_bytes val) now t) (stored + 1)))
      else values_scan now depth rest t stored)"
  by pat_completeness auto

termination
proof (relation "measure (\<lambda>(now, depth, b, t, stored). length b)")
  fix now depth c rest t stored r1 key r2
  assume r1: "r1 = dropWhile (\<lambda>x. x \<noteq> QUOTE) rest" "\<not> r1 = []"
    and r2: "r2 = dropWhile (\<lambda>x. x = 0x20 \<or> x = 0x3A) (tl r1)" "\<not> r2 = []"
  have "length (tl r1) < length (c # rest)" using r1 dropWhile_shorter [of "\<lambda>x. x \<noteq> QUOTE" rest] by (cases r1) auto
  then have l: "length r2 < length (c # rest)" using dropWhile_shorter [of "\<lambda>x. x = 0x20 \<or> x = 0x3A" "tl r1"] r2 by simp
  show "((now, depth, dropWhile (\<lambda>x. x \<noteq> 0x2C \<and> x \<noteq> 0x7D) r2, t', s'), now, depth, c # rest, t, stored)
      \<in> measure (\<lambda>(now, depth, b, t, stored). length b)" for t' :: value_table and s' :: u32
    using l dropWhile_shorter [of "\<lambda>x. x \<noteq> 0x2C \<and> x \<noteq> 0x7D" r2] by simp
  show "((now, depth, tl r3, t', s'), now, depth, c # rest, t, stored)
      \<in> measure (\<lambda>(now, depth, b, t, stored). length b)"
    if "r3 = dropWhile (\<lambda>x. x \<noteq> QUOTE) (tl r2)" for r3 and t' :: value_table and s' :: u32
    using l dropWhile_shorter [of "\<lambda>x. x \<noteq> QUOTE" "tl r2"] that by simp
qed simp_all

text \<open>\<^verbatim>\<open>api_values_set\<close>: the table afterwards, and the three counts of its answer.\<close>

definition api_values_set :: "http_request \<Rightarrow> int \<Rightarrow> value_table \<Rightarrow> (u32 \<times> nat \<times> u32) \<times> value_table" where
  "api_values_set req now t =
     (let (t', stored) = values_scan now 0 (as_bytes (body_str req)) t 0 in ((stored, table_len t', writes t'), t'))"

section \<open>Fields of a flat object\<close>

fun json_str_from :: "u8 list \<Rightarrow> u8 list \<Rightarrow> str option" where
  "json_str_from kb [] = None"
| "json_str_from kb (c # r) =
     (let p = dropWhile (\<lambda>x. x = 0x20) (drop (length kb + 1) r);
          p2 = dropWhile (\<lambda>x. x = 0x20) (tl p);
          v = dropWhile (\<lambda>x. x \<noteq> QUOTE) (tl p2) in
      if c = QUOTE \<and> length kb < length r \<and> take (length kb) r = kb \<and> r ! length kb = QUOTE \<and>
         p \<noteq> [] \<and> hd p = 0x3A \<and> p2 \<noteq> [] \<and> hd p2 = QUOTE \<and> v \<noteq> []
      then from_utf8 (takeWhile (\<lambda>x. x \<noteq> QUOTE) (tl p2))
      else json_str_from kb r)"

definition json_get_str :: "str \<Rightarrow> str \<Rightarrow> str option" where
  "json_get_str json key = json_str_from (as_bytes key) (as_bytes json)"

definition digit_in :: "nat \<Rightarrow> nat \<Rightarrow> nat option" where
  "digit_in radix c =
     (let d = (if 48 \<le> c \<and> c \<le> 57 then c - 48 else if 97 \<le> c \<and> c \<le> 122 then c - 97 + 10
               else if 65 \<le> c \<and> c \<le> 90 then c - 65 + 10 else radix) in
      if d < radix then Some d else None)"

definition u32_from_radix :: "nat \<Rightarrow> str \<Rightarrow> u32 option" where
  "u32_from_radix radix s =
     (let v = foldl (\<lambda>v c. v * radix + the (digit_in radix c)) 0 s in
      if s = [] \<or> list_ex (\<lambda>c. digit_in radix c = None) s \<or> 2 ^ 32 \<le> v then None else Some (of_nat v))"

definition strip_hex :: "str \<Rightarrow> nat \<times> str" where
  "strip_hex s =
     (if take 2 s = lit ''0x'' \<or> take 2 s = lit ''0X'' then (16, drop 2 s) else (10, s))"

definition json_get_u32 :: "str \<Rightarrow> str \<Rightarrow> u32 option" where
  "json_get_u32 json key =
     (let pat = [0x22] @ key @ [0x22] in
      if length (as_bytes pat) > 32 then None
      else case find_sub pat json of
        None \<Rightarrow> None
      | Some i \<Rightarrow>
         let r1 = dropWhile white_space (drop (i + length pat) json) in
         if r1 = [] \<or> hd r1 \<noteq> 0x3A then None
         else let (radix, digits) = strip_hex (dropWhile (\<lambda>c. c = 0x22) (dropWhile white_space (tl r1)));
                  ds = takeWhile (\<lambda>c. digit_in radix c \<noteq> None) digits in
         if ds = [] then None else u32_from_radix radix ds)"

section \<open>Numbers and addresses\<close>

definition leading_digits :: "str \<Rightarrow> u32 option" where
  "leading_digits t = (let ds = takeWhile digit t in if ds = [] then None else parse_dec ds)"

text \<open>\<^verbatim>\<open>str::parse::<u8>\<close> takes a leading plus.\<close>

definition parse_u8 :: "str \<Rightarrow> u8 option" where
  "parse_u8 s = (if s \<noteq> [] \<and> hd s = 43 \<and> tl s \<noteq> [] then parse_dec (tl s) else parse_dec s)"

function split_on :: "nat \<Rightarrow> str \<Rightarrow> str list" where
  "split_on c s =
     (let r = dropWhile (\<lambda>x. x \<noteq> c) s; p = takeWhile (\<lambda>x. x \<noteq> c) s in
      if r = [] then [p] else p # split_on c (tl r))"
  by pat_completeness auto

termination
proof (relation "measure (\<lambda>(c, s). length s)")
  fix c :: nat and s r p :: str
  assume "r = dropWhile (\<lambda>x. x \<noteq> c) s" "r \<noteq> []"
  then have "length r \<le> length s" "0 < length r" using dropWhile_shorter [of "\<lambda>x. x \<noteq> c" s] by simp_all
  then have "length (tl r) < length s" unfolding length_tl by linarith
  then show "((c, tl r), c, s) \<in> measure (\<lambda>(c, s). length s)" by simp
qed simp

fun ipv4_parts :: "str list \<Rightarrow> u8 list \<Rightarrow> u8 list option" where
  "ipv4_parts [] acc = (if length acc = 4 then Some acc else None)"
| "ipv4_parts (p # ps) acc =
     (if length acc = 4 \<or> p = [] then None
      else case parse_u8 p of None \<Rightarrow> None | Some o1 \<Rightarrow> ipv4_parts ps (acc @ [o1]))"

definition parse_ipv4 :: "str \<Rightarrow> u8 list option" where
  "parse_ipv4 t = ipv4_parts (split_on 46 t) []"

end
