(* ===== verification/Net_Push.thy ===== *)
theory Net_Push
  imports Net_Json
begin

text \<open>
  A push of values: what \<^verbatim>\<open>/api/values\<close> makes of a flat JSON object, and of the
  request that carries it.
\<close>

section \<open>Objects and their text\<close>

datatype jval = Quoted str | Bare str

definition jval_str :: "jval \<Rightarrow> str" where
  "jval_str v = (case v of Quoted s \<Rightarrow> s | Bare s \<Rightarrow> s)"

definition render_pair :: "str \<times> jval \<Rightarrow> str" where
  "render_pair = (\<lambda>(k, v). [34] @ k @ [34, 58] @ (case v of Quoted s \<Rightarrow> [34] @ s @ [34] | Bare s \<Rightarrow> s))"

fun render_pairs :: "(str \<times> jval) list \<Rightarrow> str" where
  "render_pairs [] = []"
| "render_pairs [p] = render_pair p"
| "render_pairs (p # q # ps) = render_pair p @ [44] @ render_pairs (q # ps)"

definition render_object :: "(str \<times> jval) list \<Rightarrow> str" where
  "render_object ps = [123] @ render_pairs ps @ [125]"

text \<open>No escapes: quotes are not in strings, a bare value is a trimmed word.\<close>

definition plain_pair :: "str \<times> jval \<Rightarrow> bool" where
  "plain_pair = (\<lambda>(k, v). list_all scalar k \<and> 34 \<notin> set k \<and> list_all scalar (jval_str v) \<and>
     (case v of Quoted s \<Rightarrow> 34 \<notin> set s
      | Bare s \<Rightarrow> s \<noteq> [] \<and> hd s \<notin> {34, 32, 58} \<and> 44 \<notin> set s \<and> 125 \<notin> set s \<and> trim s = s))"

definition push_all :: "int \<Rightarrow> (str \<times> jval) list \<Rightarrow> value_table \<Rightarrow> value_table" where
  "push_all now = fold (\<lambda>(k, v). set_value (as_bytes k) (as_bytes (jval_str v)) now)"

section \<open>ASCII in UTF-8\<close>

lemma as_bytes_append [simp]: "as_bytes (a @ b) = as_bytes a @ as_bytes b"
  and as_bytes_nil [simp]: "as_bytes [] = []"
  by (simp_all add: as_bytes_def)

lemma as_bytes_Cons: "as_bytes (c # s) = enc_char c @ as_bytes s"
  by (simp add: as_bytes_def)

lemma enc_ascii: "c < 128 \<Longrightarrow> enc_char c = [of_nat c]"
  by (simp add: enc_char_def)

lemma ascii_Cons: "c < 128 \<Longrightarrow> as_bytes (c # s) = of_nat c # as_bytes s"
  by (simp add: as_bytes_Cons enc_ascii)

lemma high_bytes: "b \<in> set (map of_nat ns) \<Longrightarrow> \<forall>n \<in> set ns. 128 \<le> n \<and> n < 256 \<Longrightarrow> 128 \<le> unat (b :: u8)"
  by auto

lemma enc_high:
  assumes "scalar d" "128 \<le> d" "b \<in> set (enc_char d)"
  shows "128 \<le> unat b"
proof -
  have d: "d < 0x110000" using assms(1) by (auto simp: scalar_def)
  consider "d < 0x800" | "0x800 \<le> d" "d < 0x10000" | "0x10000 \<le> d" using assms(2) by linarith
  then show ?thesis
  proof cases
    case 1
    then have "d div 64 < 32" by (simp add: div_less_iff_less_mult)
    then show ?thesis using assms(2,3) 1 unfolding enc_char_def by (elim high_bytes) (auto simp: pos_mod_bound)
  next
    case 2
    then have "d div 4096 < 16" by (simp add: div_less_iff_less_mult)
    then show ?thesis using assms(2,3) 2 unfolding enc_char_def by (elim high_bytes) (auto simp: pos_mod_bound)
  next
    case 3
    have "d div 262144 < 8" using d by (simp add: div_less_iff_less_mult)
    then show ?thesis using assms(2,3) 3 unfolding enc_char_def by (elim high_bytes) (auto simp: pos_mod_bound)
  qed
qed

lemma ascii_in_bytes:
  assumes "list_all scalar s" "c < 128" "c \<notin> set s"
  shows "(of_nat c :: u8) \<notin> set (as_bytes s)"
  using assms
proof (induction s)
  case (Cons d s)
  have "of_nat c \<notin> set (enc_char d)"
  proof (cases "d < 128")
    case True
    then show ?thesis using Cons.prems by (auto simp: enc_ascii dest: arg_cong [of _ _ unat])
  next
    case False
    then show ?thesis using enc_high [of d "of_nat c"] Cons.prems by auto
  qed
  then show ?case using Cons by (simp add: as_bytes_Cons)
qed simp

section \<open>The scanner on an object\<close>

lemma until:
  assumes "c \<notin> set xs"
  shows "takeWhile (\<lambda>x. x \<noteq> c) (xs @ c # r) = xs" "dropWhile (\<lambda>x. x \<noteq> c) (xs @ c # r) = c # r"
  using assms by (auto simp: takeWhile_append dropWhile_append)

lemma until2:
  assumes "c \<notin> set xs" "d \<notin> set xs" "r \<noteq> []" "hd r = c \<or> hd r = d"
  shows "takeWhile (\<lambda>x. x \<noteq> c \<and> x \<noteq> d) (xs @ r) = xs" "dropWhile (\<lambda>x. x \<noteq> c \<and> x \<noteq> d) (xs @ r) = r"
  using assms by (cases r; auto simp: takeWhile_append dropWhile_append)+

lemma valid_bytes: "list_all scalar s \<Longrightarrow> utf8_or_empty (as_bytes s) = s"
  by (simp add: utf8_or_empty_def from_as_bytes)

lemma scan_pair:
  assumes ok: "plain_pair (k, v)" and r: "\<forall>s. v = Bare s \<longrightarrow> r \<noteq> [] \<and> (hd r = 0x2C \<or> hd r = 0x7D)"
  shows "values_scan now 1 (as_bytes (render_pair (k, v)) @ r) t n
    = values_scan now 1 r (set_value (as_bytes k) (as_bytes (jval_str v)) now t) (n + 1)"
proof -
  have k: "list_all scalar k" "QUOTE \<notin> set (as_bytes k)"
    using ok ascii_in_bytes [of k 34] by (auto simp: plain_pair_def QUOTE_def)
  have sv: "list_all scalar (jval_str v)" using ok by (simp add: plain_pair_def)
  have q2: "QUOTE \<noteq> 0x7B" "QUOTE \<noteq> 0x7D" "QUOTE \<noteq> 0x20" "QUOTE \<noteq> 0x3A" by (simp_all add: QUOTE_def)
  show ?thesis
  proof (cases v)
    case (Quoted s)
    have s: "QUOTE \<notin> set (as_bytes s)" using ok ascii_in_bytes [of s 34] by (auto simp: plain_pair_def Quoted jval_str_def QUOTE_def)
    have t: "as_bytes (render_pair (k, v)) @ r = QUOTE # as_bytes k @ QUOTE # 0x3A # QUOTE # as_bytes s @ QUOTE # r"
      by (simp add: render_pair_def Quoted ascii_Cons QUOTE_def)
    show ?thesis unfolding t using k sv s q2
      by (simp add: until valid_bytes Quoted jval_str_def)
  next
    case (Bare s)
    have s: "s \<noteq> []" "hd s \<notin> {34, 32, 58}" "44 \<notin> set s" "125 \<notin> set s" "trim s = s" "list_all scalar s"
      using ok by (auto simp: plain_pair_def Bare jval_str_def)
    obtain c s' where c: "s = c # s'" using s(1) by (cases s) auto
    have nb: "0x2C \<notin> set (as_bytes s)" "0x7D \<notin> set (as_bytes s)"
      using ascii_in_bytes [OF s(6), of 44] ascii_in_bytes [OF s(6), of 125] s by simp_all
    obtain b bs where b: "as_bytes s = b # bs" by (cases "as_bytes s") (auto simp: c as_bytes_Cons)
    have sc: "list_all scalar [c]" "c \<noteq> 34" "c \<noteq> 32" "c \<noteq> 58" using s(2,6) by (auto simp: c)
    have "b \<in> set (as_bytes [c])" using b enc_char_nonempty [of c] by (cases "enc_char c") (auto simp: c as_bytes_Cons)
    then have bn: "b \<noteq> QUOTE" "b \<noteq> 0x20" "b \<noteq> 0x3A"
      using ascii_in_bytes [OF sc(1), of 34] ascii_in_bytes [OF sc(1), of 32] ascii_in_bytes [OF sc(1), of 58] sc(2-4)
      by (auto simp: QUOTE_def)
    have rr: "r \<noteq> []" "hd r = 0x2C \<or> hd r = 0x7D" using r by (auto simp: Bare)
    note u = until2 [OF nb rr, unfolded b]
    have t: "as_bytes (render_pair (k, v)) @ r = QUOTE # as_bytes k @ QUOTE # 0x3A # (b # bs) @ r"
      by (simp add: render_pair_def Bare ascii_Cons QUOTE_def b)
    show ?thesis unfolding t using k q2 bn u b valid_bytes [OF s(6)]
      by (simp add: until valid_bytes Bare jval_str_def s(5))
  qed
qed

lemma scan_pairs:
  "\<forall>p \<in> set ps. plain_pair p \<Longrightarrow>
    values_scan now 1 (as_bytes (render_pairs ps) @ 0x7D # r) t n
      = values_scan now 1 (0x7D # r) (push_all now ps t) (n + of_nat (length ps))"
proof (induction ps arbitrary: t n rule: render_pairs.induct)
  case (2 p)
  obtain k v where p: "p = (k, v)" by (cases p)
  show ?case using scan_pair [of k v "0x7D # r" now t n] 2 by (simp add: p push_all_def del: values_scan.simps)
next
  case (3 p q ps)
  obtain k v where p: "p = (k, v)" by (cases p)
  let ?t = "set_value (as_bytes k) (as_bytes (jval_str v)) now t"
  let ?rest = "as_bytes (render_pairs (q # ps)) @ 0x7D # r"
  have "values_scan now 1 (as_bytes (render_pair p) @ 0x2C # ?rest) t n = values_scan now 1 (0x2C # ?rest) ?t (n + 1)"
    unfolding p using scan_pair [of k v "0x2C # ?rest" now t n] 3 by (simp add: p del: values_scan.simps)
  also have "\<dots> = values_scan now 1 ?rest ?t (n + 1)" by (subst values_scan.simps) (simp add: QUOTE_def del: values_scan.simps)
  also have "\<dots> = values_scan now 1 (0x7D # r) (push_all now (q # ps) ?t) (n + 1 + of_nat (length (q # ps)))"
    using 3 by (simp del: values_scan.simps)
  finally show ?case
    by (simp add: ascii_Cons p push_all_def add_ac del: values_scan.simps)
qed (simp add: push_all_def)

lemma scan_object:
  assumes "\<forall>p \<in> set ps. plain_pair p"
  shows "values_scan now 0 (as_bytes (render_object ps)) t 0 = (push_all now ps t, of_nat (length ps))"
proof -
  have o: "as_bytes (render_object ps) = 0x7B # as_bytes (render_pairs ps) @ 0x7D # []"
    by (simp add: render_object_def ascii_Cons)
  have "values_scan now 0 (as_bytes (render_object ps)) t 0 = values_scan now 1 (as_bytes (render_pairs ps) @ 0x7D # []) t 0"
    unfolding o by (subst values_scan.simps) (simp add: w32_id del: values_scan.simps)
  also have "\<dots> = (push_all now ps t, of_nat (length ps))"
    unfolding scan_pairs [OF assms] by (simp add: QUOTE_def)
  finally show ?thesis .
qed


definition push_head :: "u8 list" where
  "push_head = bytes ''POST /v HTTP/1.1'' @ [13, 10] @ bytes ''Content-Length: 16''"

definition push_pairs :: "(str \<times> jval) list" where
  "push_pairs = [([97], Quoted [98]), ([110], Bare [49, 50])]"

lemma push_body: "as_bytes (render_object push_pairs) = bytes [CHR 0x7B, CHR 0x22, CHR 0x61, CHR 0x22, CHR 0x3A, CHR 0x22,
    CHR 0x62, CHR 0x22, CHR 0x2C, CHR 0x22, CHR 0x6E, CHR 0x22, CHR 0x3A, CHR 0x31, CHR 0x32, CHR 0x7D]"
  by (simp add: render_object_def render_pair_def push_pairs_def ascii_Cons bytes_def)

lemma push_well_formed: "well_formed push_head (as_bytes (render_object push_pairs))"
  unfolding well_formed_def push_body
proof (intro conjI)
  show "find_header_end (push_head @ crlf2) = Some (length push_head)"
    by (simp add: find_header_end_def find_sub_def push_head_def bytes_def crlf2_def upt_rec)
  show "parse_content_length push_head = of_nat (length (bytes [CHR 0x7B, CHR 0x22, CHR 0x61, CHR 0x22, CHR 0x3A, CHR 0x22,
    CHR 0x62, CHR 0x22, CHR 0x2C, CHR 0x22, CHR 0x6E, CHR 0x22, CHR 0x3A, CHR 0x31, CHR 0x32, CHR 0x7D]))"
    by (simp add: parse_content_length_def header_number_def find_sub_def push_head_def bytes_def
        upt_rec digit_run_def parse_dec_def checked_mul_def checked_add_def digit_def)
  show "length (request push_head (bytes [CHR 0x7B, CHR 0x22, CHR 0x61, CHR 0x22, CHR 0x3A, CHR 0x22,
    CHR 0x62, CHR 0x22, CHR 0x2C, CHR 0x22, CHR 0x6E, CHR 0x22, CHR 0x3A, CHR 0x31, CHR 0x32, CHR 0x7D])) < MAX_REQUEST"
    by (simp add: request_def push_head_def bytes_def crlf2_def MAX_REQUEST_def)
qed


section \<open>Objects that are not flat\<close>

text \<open>
  A nested object is not skipped: it is stored up to its first closing brace, as the value of its
  key, and the keys after it are read outside any object and lost.
\<close>

definition nested_text :: str where
  "nested_text = [123, 34, 97, 34, 58, 123, 34, 98, 34, 58, 34, 99, 34, 125, 44, 34, 100, 34, 58, 34, 101, 34, 125]"

lemma nested_object_loses_rest:
  "values_scan now 0 (as_bytes nested_text) t 0 = (set_value [97] [123, 34, 98, 34, 58, 34, 99, 34] now t, 1)"
proof -
  have u: "utf8_or_empty [97] = [97]" "utf8_or_empty [123, 34, 98, 34, 58, 34, 99, 34] = [123, 34, 98, 34, 58, 34, 99, 34]"
    using valid_bytes [of "[97]"] valid_bytes [of "[123, 34, 98, 34, 58, 34, 99, 34]"] by (simp_all add: ascii_Cons scalar_def)
  show ?thesis
    by (simp add: nested_text_def ascii_Cons QUOTE_def w32_id u trim_def white_space_def)
qed

text \<open>Addresses: an octet may have a plus sign.\<close>

lemma plus_octet: "parse_ipv4 (lit ''+1.2.3.4'') = Some [1, 2, 3, 4]"
  by (simp add: parse_ipv4_def split_on.simps lit_def parse_u8_def parse_dec_def checked_mul_def checked_add_def digit_def)

end
