(* ===== verification/Net_Http.thy ===== *)
theory Net_Http
  imports Http_Request
begin

text \<open>
  \<^verbatim>\<open>src/network.rs\<close>, \<^verbatim>\<open>handle_http\<close>: the two connection slots of the HTTP
  server. smoltcp's socket is the parameter \<open>tcp_ops\<close>; the handlers are a parameter that takes
  what they ask of a request (method, path, body) and the rest of the firmware's state.
\<close>

section \<open>The socket\<close>

record 's tcp_ops =
  is_open :: "'s \<Rightarrow> bool"
  is_active :: "'s \<Rightarrow> bool"
  may_recv :: "'s \<Rightarrow> bool"
  may_send :: "'s \<Rightarrow> bool"
  can_recv :: "'s \<Rightarrow> bool"
  can_send :: "'s \<Rightarrow> bool"
  send_queue :: "'s \<Rightarrow> nat"
  recv_slice :: "nat \<Rightarrow> 's \<Rightarrow> u8 list option \<times> 's"
  send_slice :: "u8 list \<Rightarrow> 's \<Rightarrow> nat option \<times> 's"
  abort_tcp :: "'s \<Rightarrow> 's"
  close_tcp :: "'s \<Rightarrow> 's"
  listen_tcp :: "'s \<Rightarrow> 's"

section \<open>A slot\<close>

definition HTTP_CLOSE_CEILING_MS :: int where [src_consts]: "HTTP_CLOSE_CEILING_MS = 2000"

record 's slot =
  sl_sock :: 's
  sl_req :: http_request
  sl_resp :: "u8 list"
  sl_sent :: nat
  sl_close_at :: int
  sl_connected :: int

type_synonym 'w answers = "http_method \<Rightarrow> str \<Rightarrow> str \<Rightarrow> 'w \<Rightarrow> u8 list \<times> 'w"

definition recycle :: "'s tcp_ops \<Rightarrow> int \<Rightarrow> 's slot \<Rightarrow> 's slot" where
  "recycle ops t sl =
     (if sl_close_at sl > 0 then
        (let s = sl_sock sl; drained = (send_queue ops s = 0);
             past_grace = (t \<ge> sl_close_at sl); past_ceiling = (t \<ge> sl_close_at sl + HTTP_CLOSE_CEILING_MS) in
         if \<not> is_active ops s \<or> (drained \<and> past_grace) \<or> past_ceiling
         then sl\<lparr>sl_sock := (if is_open ops s then abort_tcp ops s else s), sl_close_at := 0\<rparr>
         else sl)
      else sl)"

definition relisten :: "'s tcp_ops \<Rightarrow> 's slot \<Rightarrow> 's slot" where
  "relisten ops sl =
     (if is_open ops (sl_sock sl) then sl
      else sl\<lparr>sl_req := http_reset (sl_req sl), sl_resp := [], sl_sent := 0, sl_connected := 0,
              sl_sock := listen_tcp ops (sl_sock sl)\<rparr>)"

definition receive_request :: "'s tcp_ops \<Rightarrow> 'w answers \<Rightarrow> 's slot \<Rightarrow> 'w \<Rightarrow> 's slot \<times> 'w" where
  "receive_request ops answer sl w =
     (if can_recv ops (sl_sock sl) \<and> \<not> is_complete (sl_req sl) then
        (case recv_slice ops 128 (sl_sock sl) of
           (None, s) \<Rightarrow> (sl\<lparr>sl_sock := s\<rparr>, w)
         | (Some d, s) \<Rightarrow>
            let r = feed (sl_req sl) d; sl1 = sl\<lparr>sl_sock := s, sl_req := r\<rparr> in
            if is_complete r then
              (case answer (req_method r) (path r) (body_str r) w of
                 (resp, w') \<Rightarrow> (sl1\<lparr>sl_resp := resp, sl_sent := 0\<rparr>, w'))
            else (sl1, w))
      else (sl, w))"

definition send_response :: "'s tcp_ops \<Rightarrow> int \<Rightarrow> 's slot \<Rightarrow> bool \<times> 's slot" where
  "send_response ops t sl =
     (if can_send ops (sl_sock sl) \<and> sl_sent sl < length (sl_resp sl) then
        (let sl1 = (case send_slice ops (drop (sl_sent sl) (sl_resp sl)) (sl_sock sl) of
             (None, s) \<Rightarrow> sl\<lparr>sl_sock := s\<rparr> | (Some n, s) \<Rightarrow> sl\<lparr>sl_sock := s, sl_sent := sl_sent sl + n\<rparr>) in
         if sl_sent sl1 \<ge> length (sl_resp sl1) \<and> length (sl_resp sl1) > 0
         then (True, sl1\<lparr>sl_sock := close_tcp ops (sl_sock sl1), sl_close_at := t + 50\<rparr>)
         else (False, sl1))
      else (False, sl))"

text \<open>One pass over a slot; the flag asks for a poll that sends the FIN.\<close>

definition http_slot :: "'s tcp_ops \<Rightarrow> 'w answers \<Rightarrow> int \<Rightarrow> 's slot \<Rightarrow> 'w \<Rightarrow> bool \<times> 's slot \<times> 'w" where
  "http_slot ops answer t sl0 w =
     (let sl = relisten ops (recycle ops t sl0); s = sl_sock sl in
      if \<not> may_recv ops s \<and> \<not> may_send ops s
      then (False, if is_active ops s then sl else sl\<lparr>sl_connected := 0\<rparr>, w)
      else
       let sl1 = (if is_active ops s then (if sl_connected sl = 0 then sl\<lparr>sl_connected := t\<rparr> else sl)
                  else sl\<lparr>sl_connected := 0\<rparr>) in
       if is_active ops s \<and> \<not> is_complete (sl_req sl1) \<and> t > 0 \<and> t - sl_connected sl1 > 5000
       then (False, sl1\<lparr>sl_sock := abort_tcp ops s, sl_connected := 0\<rparr>, w)
       else
        (case receive_request ops answer sl1 w of (sl2, w') \<Rightarrow>
          (case send_response ops t sl2 of (p, sl3) \<Rightarrow> (p, sl3, w'))))"

text \<open>\<^verbatim>\<open>handle_http\<close>: both slots in turn.\<close>

definition handle_http :: "'s tcp_ops \<Rightarrow> 'w answers \<Rightarrow> int \<Rightarrow> 's slot \<times> 's slot \<Rightarrow> 'w \<Rightarrow> bool \<times> ('s slot \<times> 's slot) \<times> 'w" where
  "handle_http ops answer t = (\<lambda>(a, b) w.
     (case http_slot ops answer t a w of (p, a', w1) \<Rightarrow>
      (case http_slot ops answer t b w1 of (q, b', w2) \<Rightarrow> (p \<or> q, (a', b'), w2))))"

end
