(* ===== verification/Net_Connection.thy ===== *)
theory Net_Connection
  imports Net_Http
begin

text \<open>
  A connection to a slot of \<open>Net_Http\<close>: what the peer is sent, under the laws of a TCP socket
  and whatever the network does between the passes.
\<close>

section \<open>A TCP socket\<close>

text \<open>
  The streams of a connection, read and written so far, are observed through \<open>inb\<close> and
  \<open>outb\<close>. Reading and writing move a part of what is asked; a socket that is not open starts
  over when it listens.
\<close>

definition tcp_laws :: "'s tcp_ops \<Rightarrow> ('s \<Rightarrow> u8 list) \<Rightarrow> ('s \<Rightarrow> u8 list) \<Rightarrow> bool" where
  "tcp_laws ops inb outb \<longleftrightarrow>
     (\<forall>n s. let (r, s') = recv_slice ops n s in (is_open ops s' \<longrightarrow> is_open ops s) \<and> outb s' = outb s \<and>
        inb s' = inb s @ (case r of Some d \<Rightarrow> d | None \<Rightarrow> [])) \<and>
     (\<forall>d s. let (r, s') = send_slice ops d s in (is_open ops s' \<longrightarrow> is_open ops s) \<and> inb s' = inb s \<and>
        (case r of Some n \<Rightarrow> n \<le> length d \<and> outb s' = outb s @ take n d | None \<Rightarrow> outb s' = outb s)) \<and>
     (\<forall>s. (is_open ops (close_tcp ops s) \<longrightarrow> is_open ops s) \<and> inb (close_tcp ops s) = inb s \<and> outb (close_tcp ops s) = outb s) \<and>
     (\<forall>s. \<not> is_open ops (abort_tcp ops s)) \<and> (\<forall>s. is_active ops s \<longrightarrow> is_open ops s) \<and>
     (\<forall>s. \<not> is_open ops s \<longrightarrow> inb (listen_tcp ops s) = [] \<and> outb (listen_tcp ops s) = [])"

text \<open>The network moves the socket: it may end a connection, it does not touch what was read or written.\<close>

definition net_step :: "'s tcp_ops \<Rightarrow> ('s \<Rightarrow> u8 list) \<Rightarrow> ('s \<Rightarrow> u8 list) \<Rightarrow> 's \<Rightarrow> 's \<Rightarrow> bool" where
  "net_step ops inb outb s s' \<longleftrightarrow> (is_open ops s' \<longrightarrow> is_open ops s \<and> inb s' = inb s \<and> outb s' = outb s)"

inductive slot_run :: "'s tcp_ops \<Rightarrow> ('s \<Rightarrow> u8 list) \<Rightarrow> ('s \<Rightarrow> u8 list) \<Rightarrow> 'w answers \<Rightarrow> 's slot \<Rightarrow> 's slot \<Rightarrow> bool"
  for ops inb outb answer start where
  fresh: "slot_run ops inb outb answer start start"
| network: "slot_run ops inb outb answer start sl \<Longrightarrow> net_step ops inb outb (sl_sock sl) s \<Longrightarrow>
    slot_run ops inb outb answer start (sl\<lparr>sl_sock := s\<rparr>)"
| pass: "slot_run ops inb outb answer start sl \<Longrightarrow> http_slot ops answer t sl w = (p, sl', w') \<Longrightarrow>
    slot_run ops inb outb answer start sl'"

section \<open>Requests up to what is left in the buffer\<close>

definition alike :: "http_request \<Rightarrow> http_request \<Rightarrow> bool" where
  "alike r r' \<longleftrightarrow> hlen r' = hlen r \<and> hstate r' = hstate r \<and> length (hbuf r) = MAX_REQUEST \<and> length (hbuf r') = MAX_REQUEST \<and>
     hlen r \<le> MAX_REQUEST \<and> hdata r' = hdata r"

lemma alike_reset: "length (hbuf r) = MAX_REQUEST \<Longrightarrow> alike http_new (http_reset r)"
  by (simp add: alike_def http_new_def http_reset_def hdata_def)

lemma advance_keeps [simp]: "hlen (advance r) = hlen r" "hbuf (advance r) = hbuf r"
  by (simp_all add: advance_def Let_def split: parse_state.split option.split)

lemma alike_feed:
  assumes "alike r r'"
  shows "alike (feed r d) (feed r' d)"
proof -
  let ?n = "min (length d) (MAX_REQUEST - hlen r)"
  have h: "hlen r' = hlen r" "hstate r' = hstate r" "length (hbuf r) = MAX_REQUEST" "length (hbuf r') = MAX_REQUEST"
    "hlen r \<le> MAX_REQUEST" "take (hlen r) (hbuf r') = take (hlen r) (hbuf r)"
    using assms by (auto simp: alike_def hdata_def)
  have d: "hdata (store d q) = take (hlen q) (hbuf q) @ take ?n d"
    if "hlen q = hlen r" "length (hbuf q) = MAX_REQUEST" for q
    using that h(5) take_splice [of "hlen q" "hbuf q" "take ?n d"] by (simp add: hdata_def store_def Let_def min.assoc)
  have s: "hdata (store d r') = hdata (store d r)" "hlen (store d r') = hlen (store d r)" "hstate (store d r') = hstate (store d r)"
    using d [of r] d [of r'] h by (simp_all add: store_def Let_def)
  then have "hstate (advance (store d r')) = hstate (advance (store d r))"
    by (simp add: advance_def Let_def split: parse_state.split option.split)
  then show ?thesis using s h by (simp add: alike_def feed_def hdata_def) (simp add: store_def Let_def)
qed

lemma alike_parts:
  assumes "alike r r'"
  shows "req_method r' = req_method r" "path r' = path r" "body_str r' = body_str r" "is_complete r' = is_complete r"
proof -
  have h: "hlen r' = hlen r" "hstate r' = hstate r" "hdata r' = hdata r" using assms by (auto simp: alike_def)
  have t: "take n (hbuf r') = take n (hbuf r)" if "n \<le> hlen r" for n
    using arg_cong [OF h(3), of "take n"] that h(1) by (simp add: hdata_def min_def)
  show m: "req_method r' = req_method r" using t [of 4] t [of 5] h(1) by (auto simp: req_method_def)
  show "path r' = path r" unfolding path_def h m ..
  show "body_str r' = body_str r" unfolding body_str_def h ..
  show "is_complete r' = is_complete r" unfolding is_complete_def h ..
qed

lemma alike_feeds: "alike r r' \<Longrightarrow> alike (feeds r chunks) (feeds r' chunks)"
  by (induction chunks arbitrary: r r') (simp_all add: feeds_def alike_feed)

section \<open>What a connection keeps\<close>

definition request_read :: "u8 list \<Rightarrow> http_request \<Rightarrow> bool" where
  "request_read received r \<longleftrightarrow> (\<exists>chunks. concat chunks = received \<and> alike (feeds http_new chunks) r)"

definition answered :: "'w answers \<Rightarrow> http_request \<Rightarrow> u8 list \<Rightarrow> bool" where
  "answered answer r resp \<longleftrightarrow> is_complete r \<and> (\<exists>w. resp = fst (answer (req_method r) (path r) (body_str r) w))"

definition conn_inv :: "'s tcp_ops \<Rightarrow> ('s \<Rightarrow> u8 list) \<Rightarrow> ('s \<Rightarrow> u8 list) \<Rightarrow> 'w answers \<Rightarrow> 's slot \<Rightarrow> bool" where
  "conn_inv ops inb outb answer sl \<longleftrightarrow> length (hbuf (sl_req sl)) = MAX_REQUEST \<and> hlen (sl_req sl) \<le> MAX_REQUEST \<and>
     (is_open ops (sl_sock sl) \<longrightarrow> request_read (inb (sl_sock sl)) (sl_req sl) \<and>
        outb (sl_sock sl) = take (sl_sent sl) (sl_resp sl) \<and> sl_sent sl \<le> length (sl_resp sl) \<and>
        (sl_resp sl = [] \<or> answered answer (sl_req sl) (sl_resp sl)) \<and>
        (sl_close_at sl > 0 \<longrightarrow> sl_sent sl = length (sl_resp sl) \<and> sl_resp sl \<noteq> []))"

lemma conn_inv_connected [simp]: "conn_inv ops inb outb answer (sl\<lparr>sl_connected := c\<rparr>) = conn_inv ops inb outb answer sl"
  by (simp add: conn_inv_def)

lemma conn_inv_abort:
  "tcp_laws ops inb outb \<Longrightarrow> conn_inv ops inb outb answer sl \<Longrightarrow>
    conn_inv ops inb outb answer (sl\<lparr>sl_sock := abort_tcp ops s, sl_connected := c\<rparr>)"
  by (simp add: conn_inv_def tcp_laws_def)

lemma recycle_inv:
  assumes "tcp_laws ops inb outb" "conn_inv ops inb outb answer sl"
  shows "conn_inv ops inb outb answer (relisten ops (recycle ops t sl))"
proof -
  have a: "\<not> is_open ops (abort_tcp ops s)" "is_active ops s \<Longrightarrow> is_open ops s"
    "\<not> is_open ops s \<Longrightarrow> inb (listen_tcp ops s) = [] \<and> outb (listen_tcp ops s) = []" for s
    using assms(1) by (auto simp: tcp_laws_def)
  have r: "conn_inv ops inb outb answer (recycle ops t sl) \<and> (\<not> is_open ops (sl_sock (recycle ops t sl)) \<longrightarrow> \<not> sl_close_at (recycle ops t sl) > 0)"
    using assms(2) a(1,2) by (auto simp: recycle_def conn_inv_def Let_def)
  let ?s = "recycle ops t sl"
  show ?thesis
  proof (cases "is_open ops (sl_sock ?s)")
    case False
    have "request_read [] (http_reset (sl_req ?s))"
      unfolding request_read_def using alike_reset r by (intro exI [of _ "[]"]) (simp add: feeds_def conn_inv_def)
    then show ?thesis using r False a(3) [OF False]
      by (simp add: relisten_def conn_inv_def http_reset_def)
  qed (use r in \<open>simp add: relisten_def\<close>)
qed

lemma recv_law:
  assumes "tcp_laws ops inb outb" "recv_slice ops n s = (r, s')"
  shows "is_open ops s' \<Longrightarrow> is_open ops s" "outb s' = outb s" "inb s' = inb s @ (case r of Some d \<Rightarrow> d | None \<Rightarrow> [])"
proof -
  have "let (r, s') = recv_slice ops n s in (is_open ops s' \<longrightarrow> is_open ops s) \<and> outb s' = outb s \<and>
      inb s' = inb s @ (case r of Some d \<Rightarrow> d | None \<Rightarrow> [])"
    using assms(1) unfolding tcp_laws_def by blast
  then show "is_open ops s' \<Longrightarrow> is_open ops s" "outb s' = outb s" "inb s' = inb s @ (case r of Some d \<Rightarrow> d | None \<Rightarrow> [])"
    unfolding assms(2) Let_def case_prod_conv by simp_all
qed

lemma send_law:
  assumes "tcp_laws ops inb outb" "send_slice ops d s = (r, s')"
  shows "is_open ops s' \<Longrightarrow> is_open ops s" "inb s' = inb s"
    "case r of Some n \<Rightarrow> n \<le> length d \<and> outb s' = outb s @ take n d | None \<Rightarrow> outb s' = outb s"
proof -
  have "let (r, s') = send_slice ops d s in (is_open ops s' \<longrightarrow> is_open ops s) \<and> inb s' = inb s \<and>
      (case r of Some n \<Rightarrow> n \<le> length d \<and> outb s' = outb s @ take n d | None \<Rightarrow> outb s' = outb s)"
    using assms(1) unfolding tcp_laws_def by blast
  then show "is_open ops s' \<Longrightarrow> is_open ops s" "inb s' = inb s"
    "case r of Some n \<Rightarrow> n \<le> length d \<and> outb s' = outb s @ take n d | None \<Rightarrow> outb s' = outb s"
    unfolding assms(2) Let_def case_prod_conv by simp_all
qed

lemma feed_bounds:
  assumes "length (hbuf r) = MAX_REQUEST" "hlen r \<le> MAX_REQUEST"
  shows "length (hbuf (feed r d)) = MAX_REQUEST" "hlen (feed r d) \<le> MAX_REQUEST"
  using assms by (simp_all add: feed_def store_def Let_def)

lemma receive_inv:
  assumes laws: "tcp_laws ops inb outb" and inv: "conn_inv ops inb outb answer sl"
  shows "conn_inv ops inb outb answer (fst (receive_request ops answer sl w))"
proof (cases "can_recv ops (sl_sock sl) \<and> \<not> is_complete (sl_req sl)")
  case True
  obtain res s where rs: "recv_slice ops 128 (sl_sock sl) = (res, s)" by fastforce
  note law = recv_law [OF laws rs]
  show ?thesis
  proof (cases res)
    case None
    then show ?thesis using inv True rs law by (auto simp: receive_request_def conn_inv_def)
  next
    case (Some d)
    let ?r = "feed (sl_req sl) d"
    have b: "length (hbuf ?r) = MAX_REQUEST" "hlen ?r \<le> MAX_REQUEST" using inv by (simp_all add: conn_inv_def feed_bounds)
    have e: "sl_resp sl = []" "outb (sl_sock sl) = []" "\<not> sl_close_at sl > 0" "sl_sent sl = 0" if "is_open ops s"
      using inv True law(1) [OF that] by (auto simp: conn_inv_def answered_def)
    have r: "request_read (inb s) ?r" if o: "is_open ops s"
    proof -
      obtain chunks where "concat chunks = inb (sl_sock sl)" "alike (feeds http_new chunks) (sl_req sl)"
        using inv law(1) [OF o] unfolding conn_inv_def request_read_def by blast
      then show ?thesis
        unfolding request_read_def using law(3) alike_feed [of _ "sl_req sl" d]
        by (intro exI [of _ "chunks @ [d]"]) (simp add: Some feeds_def)
    qed
    show ?thesis
    proof (cases "is_complete ?r")
      case c: True
      obtain resp w' where a: "answer (req_method ?r) (path ?r) (body_str ?r) w = (resp, w')" by fastforce
      then have "answered answer ?r resp" using c unfolding answered_def by (metis fst_conv)
      then show ?thesis using True rs Some b c a e r law(2) by (auto simp: receive_request_def conn_inv_def Let_def)
    next
      case False
      then show ?thesis using True rs Some b e r law(2) by (auto simp: receive_request_def conn_inv_def Let_def)
    qed
  qed
qed (use inv in \<open>auto simp: receive_request_def\<close>)

lemma send_inv:
  assumes laws: "tcp_laws ops inb outb" and inv: "conn_inv ops inb outb answer sl"
  shows "conn_inv ops inb outb answer (snd (send_response ops t sl))"
proof (cases "can_send ops (sl_sock sl) \<and> sl_sent sl < length (sl_resp sl)")
  case True
  obtain res s where rs: "send_slice ops (drop (sl_sent sl) (sl_resp sl)) (sl_sock sl) = (res, s)" by fastforce
  note law = send_law [OF laws rs]
  have cl: "is_open ops (close_tcp ops q) \<Longrightarrow> is_open ops q" "inb (close_tcp ops q) = inb q" "outb (close_tcp ops q) = outb q" for q
    using laws by (auto simp: tcp_laws_def)
  have nc: "\<not> sl_close_at sl > 0" if "is_open ops (sl_sock sl)" using inv True that by (auto simp: conn_inv_def)
  show ?thesis
  proof (cases res)
    case None
    then show ?thesis using inv True rs law cl by (auto simp: send_response_def conn_inv_def Let_def)
  next
    case (Some n)
    have o: "n \<le> length (sl_resp sl) - sl_sent sl" "outb s = outb (sl_sock sl) @ take n (drop (sl_sent sl) (sl_resp sl))"
      using law(3) Some by simp_all
    have "outb s = take (sl_sent sl + n) (sl_resp sl)" "sl_sent sl + n \<le> length (sl_resp sl)" if "is_open ops s"
      using o inv law(1) [OF that] True by (auto simp: conn_inv_def take_add)
    then show ?thesis using inv True rs law cl Some nc
      by (auto simp: send_response_def conn_inv_def Let_def)
  qed
qed (use inv in \<open>auto simp: send_response_def\<close>)

lemma slot_inv:
  assumes laws: "tcp_laws ops inb outb" and inv: "conn_inv ops inb outb answer sl"
    and r: "http_slot ops answer t sl w = (p, sl', w')"
  shows "conn_inv ops inb outb answer sl'"
proof -
  define s where "s = relisten ops (recycle ops t sl)"
  define s1 where "s1 = (if is_active ops (sl_sock s) then (if sl_connected s = 0 then s\<lparr>sl_connected := t\<rparr> else s)
      else s\<lparr>sl_connected := 0\<rparr>)"
  have i: "conn_inv ops inb outb answer s" unfolding s_def by (rule recycle_inv [OF laws inv])
  then have i1: "conn_inv ops inb outb answer s1" by (simp add: s1_def)
  obtain s2 w2 where r2: "receive_request ops answer s1 w = (s2, w2)" by fastforce
  have i2: "conn_inv ops inb outb answer s2" using receive_inv [OF laws i1, of w] by (simp only: r2 fst_conv)
  obtain q s3 where r3: "send_response ops t s2 = (q, s3)" by fastforce
  have i3: "conn_inv ops inb outb answer s3" using send_inv [OF laws i2, of t] by (simp only: r3 snd_conv)
  have h: "http_slot ops answer t sl w =
     (if \<not> may_recv ops (sl_sock s) \<and> \<not> may_send ops (sl_sock s)
      then (False, if is_active ops (sl_sock s) then s else s\<lparr>sl_connected := 0\<rparr>, w)
      else if is_active ops (sl_sock s) \<and> \<not> is_complete (sl_req s1) \<and> t > 0 \<and> t - sl_connected s1 > 5000
      then (False, s1\<lparr>sl_sock := abort_tcp ops (sl_sock s), sl_connected := 0\<rparr>, w)
      else (q, s3, w2))"
    unfolding http_slot_def Let_def s_def [symmetric] s1_def [symmetric] r2 case_prod_conv r3 ..
  show ?thesis using r i i3 conn_inv_abort [OF laws i1] unfolding h by (auto split: if_splits)
qed

section \<open>What ends a connection\<close>

text \<open>Both streams only grow: the connection goes on.\<close>

definition goes_on :: "('s \<Rightarrow> u8 list) \<Rightarrow> ('s \<Rightarrow> u8 list) \<Rightarrow> 's \<Rightarrow> 's \<Rightarrow> bool" where
  "goes_on inb outb s s' \<longleftrightarrow> (\<exists>i u. inb s' = inb s @ i \<and> outb s' = outb s @ u)"

lemma goes_on_refl [simp]: "goes_on inb outb s s"
  by (simp add: goes_on_def)

lemma goes_on_trans: "goes_on inb outb s s1 \<Longrightarrow> goes_on inb outb s1 s2 \<Longrightarrow> goes_on inb outb s s2"
  by (auto simp: goes_on_def)

lemma receive_goes_on:
  assumes "tcp_laws ops inb outb"
  shows "goes_on inb outb (sl_sock sl) (sl_sock (fst (receive_request ops answer sl w)))"
proof -
  obtain r s where rs: "recv_slice ops 128 (sl_sock sl) = (r, s)" by fastforce
  have "sl_sock (fst (receive_request ops answer sl w)) \<in> {sl_sock sl, s}"
    using rs by (auto simp: receive_request_def Let_def split: option.split prod.split)
  then show ?thesis using recv_law(2,3) [OF assms rs] by (auto simp: goes_on_def)
qed

lemma send_goes_on:
  assumes "tcp_laws ops inb outb"
  shows "goes_on inb outb (sl_sock sl) (sl_sock (snd (send_response ops t sl)))"
proof -
  obtain r s where rs: "send_slice ops (drop (sl_sent sl) (sl_resp sl)) (sl_sock sl) = (r, s)" by fastforce
  have "sl_sock (snd (send_response ops t sl)) \<in> {sl_sock sl, s, close_tcp ops s}"
    using rs by (auto simp: send_response_def Let_def split: option.split)
  moreover have "inb (close_tcp ops s) = inb s" "outb (close_tcp ops s) = outb s" using assms by (auto simp: tcp_laws_def)
  ultimately show ?thesis using send_law(2,3) [OF assms rs] by (auto simp: goes_on_def split: option.splits)
qed

text \<open>The server lets go of a connection for one of these reasons only.\<close>

definition may_end :: "'s tcp_ops \<Rightarrow> int \<Rightarrow> 's slot \<Rightarrow> bool" where
  "may_end ops t sl \<longleftrightarrow> \<not> is_active ops (sl_sock sl) \<or>
     sl_close_at sl > 0 \<and> (t \<ge> sl_close_at sl \<and> send_queue ops (sl_sock sl) = 0 \<or> t \<ge> sl_close_at sl + 2000) \<or>
     \<not> is_complete (sl_req sl) \<and> sl_connected sl \<noteq> 0 \<and> t - sl_connected sl > 5000"

lemma pass_goes_on:
  assumes laws: "tcp_laws ops inb outb" and a: "\<not> may_end ops t sl"
  shows "goes_on inb outb (sl_sock sl) (sl_sock (fst (snd (http_slot ops answer t sl w))))"
proof -
  have act: "is_active ops (sl_sock sl)" "is_open ops (sl_sock sl)" using a laws by (auto simp: may_end_def tcp_laws_def)
  have s: "relisten ops (recycle ops t sl) = sl"
    using a act by (auto simp: recycle_def relisten_def may_end_def Let_def HTTP_CLOSE_CEILING_MS_def)
  define s1 where "s1 = (if sl_connected sl = 0 then sl\<lparr>sl_connected := t\<rparr> else sl)"
  have s1: "sl_sock s1 = sl_sock sl" by (simp add: s1_def)
  have no_timeout: "\<not> (\<not> is_complete (sl_req s1) \<and> t - sl_connected s1 > 5000)" using a act by (auto simp: s1_def may_end_def)
  obtain s2 w2 where r2: "receive_request ops answer s1 w = (s2, w2)" by fastforce
  obtain q s3 where r3: "send_response ops t s2 = (q, s3)" by fastforce
  have "goes_on inb outb (sl_sock sl) (sl_sock s3)"
    using goes_on_trans [OF receive_goes_on [OF laws, of s1 answer w] send_goes_on [OF laws, of "fst (receive_request ops answer s1 w)" t]]
    by (simp add: r2 r3 s1)
  moreover have "http_slot ops answer t sl w = (if \<not> may_recv ops (sl_sock sl) \<and> \<not> may_send ops (sl_sock sl) then (False, sl, w) else (q, s3, w2))"
    unfolding http_slot_def s Let_def using act no_timeout r2 r3 by (auto simp: s1_def)
  ultimately show ?thesis by simp
qed

text \<open>
  C31. What a peer of the HTTP server is sent, at any moment and whatever the network and the rest of
  the firmware do in between, is a beginning of the answer to the request made of the bytes it sent,
  and the whole of it once the server has closed. The next pass leaves the connection going, both
  streams only growing, unless the connection is no longer active; or the server has closed, 50 ms
  have gone by and the send queue, which holds what the peer has not acknowledged, is empty; or
  2 s more have gone by; or the request is still not complete after 5 s.
\<close>

theorem peer_gets_its_answer:
  assumes "tcp_laws ops inb outb" and "slot_run ops inb outb answer start sl" and "is_open ops (sl_sock sl)"
    and "\<not> is_open ops (sl_sock start)" and "sl_req start = http_new"
  shows "(outb (sl_sock sl) = [] \<and> \<not> sl_close_at sl > 0 \<or>
    (\<exists>chunks w n. concat chunks = inb (sl_sock sl) \<and> is_complete (feeds http_new chunks) \<and>
       (let whole = fst (answer (req_method (feeds http_new chunks)) (path (feeds http_new chunks)) (body_str (feeds http_new chunks)) w) in
        outb (sl_sock sl) = take n whole \<and> (sl_close_at sl > 0 \<longrightarrow> outb (sl_sock sl) = whole)))) \<and>
    (goes_on inb outb (sl_sock sl) (sl_sock (fst (snd (http_slot ops answer t sl w')))) \<or> \<not> is_active ops (sl_sock sl) \<or>
     sl_close_at sl > 0 \<and> (t \<ge> sl_close_at sl \<and> send_queue ops (sl_sock sl) = 0 \<or> t \<ge> sl_close_at sl + 2000) \<or>
     \<not> is_complete (sl_req sl) \<and> sl_connected sl \<noteq> 0 \<and> t - sl_connected sl > 5000)"
    (is "?sent \<and> ?ends")
proof -
  have "conn_inv ops inb outb answer sl"
    using assms(2)
  proof induction
    case fresh
    then show ?case using assms(4,5) by (simp add: conn_inv_def http_new_def)
  next
    case (network sl s)
    then show ?case by (auto simp: conn_inv_def net_step_def)
  next
    case (pass sl t w p sl' w')
    show ?case by (rule slot_inv [OF assms(1) pass.IH pass.hyps(2)])
  qed
  then have i: "request_read (inb (sl_sock sl)) (sl_req sl)" "outb (sl_sock sl) = take (sl_sent sl) (sl_resp sl)"
    "sl_resp sl = [] \<or> answered answer (sl_req sl) (sl_resp sl)" "sl_close_at sl > 0 \<longrightarrow> sl_sent sl = length (sl_resp sl) \<and> sl_resp sl \<noteq> []"
    using assms(3) by (auto simp: conn_inv_def)
  obtain chunks where c: "concat chunks = inb (sl_sock sl)" "alike (feeds http_new chunks) (sl_req sl)"
    using i(1) by (auto simp: request_read_def)
  have ?ends using pass_goes_on [OF assms(1), of t sl answer w'] unfolding may_end_def by blast
  moreover have ?sent
  proof (cases "sl_resp sl = []")
    case False
    then obtain w where "is_complete (sl_req sl)" "sl_resp sl = fst (answer (req_method (sl_req sl)) (path (sl_req sl)) (body_str (sl_req sl)) w)"
      using i(3) by (auto simp: answered_def)
    then show ?thesis using c(1) i(2,4) unfolding alike_parts [OF c(2)]
      by (intro disjI2 exI [of _ chunks] exI [of _ w] exI [of _ "sl_sent sl"]) (simp add: Let_def)
  qed (use i(2,4) in simp)
  ultimately show ?thesis by blast
qed

text \<open>
  The ceiling counts from the moment the whole response is in the socket. A peer that stops reading
  before (the response can be longer than the socket's buffer) keeps its slot for good.
\<close>

lemma stalled_reader_keeps_slot:
  assumes "is_open ops (sl_sock sl)" "is_active ops (sl_sock sl)" "may_send ops (sl_sock sl)" "\<not> can_send ops (sl_sock sl)"
    and "is_complete (sl_req sl)" "sl_close_at sl = 0" "sl_connected sl \<noteq> 0"
  shows "http_slot ops answer t sl w = (False, sl, w)"
  using assms by (simp add: http_slot_def recycle_def relisten_def receive_request_def send_response_def Let_def)

section \<open>A socket in memory\<close>

text \<open>Open, still to be read, read, written, not acknowledged; it takes at most 64 bytes at a time.\<close>

type_synonym demo_sock = "bool \<times> u8 list \<times> u8 list \<times> u8 list \<times> nat"

definition demo_tcp :: "demo_sock tcp_ops" where
  "demo_tcp = \<lparr>is_open = fst, is_active = fst, may_recv = fst, may_send = fst,
     can_recv = (\<lambda>(on, p, i, u, q). on \<and> p \<noteq> []), can_send = fst, send_queue = (\<lambda>(on, p, i, u, q). q),
     recv_slice = (\<lambda>n (on, p, i, u, q). (Some (take n p), (on, drop n p, i @ take n p, u, q))),
     send_slice = (\<lambda>d (on, p, i, u, q). (Some (min 64 (length d)), (on, p, i, u @ take 64 d, q + min 64 (length d)))),
     abort_tcp = (\<lambda>(on, r). (False, r)), close_tcp = id,
     listen_tcp = (\<lambda>(on, p, i, u, q). (True, p, if on then i else [], if on then u else [], q))\<rparr>"

definition demo_in :: "demo_sock \<Rightarrow> u8 list" where "demo_in = (\<lambda>(on, p, i, u, q). i)"
definition demo_out :: "demo_sock \<Rightarrow> u8 list" where "demo_out = (\<lambda>(on, p, i, u, q). u)"

definition demo_answer :: "unit answers" where
  "demo_answer m p b w = (if m = Get then (bytes ''HTTP/1.1 200 OK'', w) else (bytes ''HTTP/1.1 404'', w))"

definition demo_slot :: "demo_sock slot" where
  "demo_slot = \<lparr>sl_sock = (False, bytes ''GET / HTTP/1.1'' @ crlf2, [], [], 0), sl_req = http_new, sl_resp = [], sl_sent = 0,
     sl_close_at = 0, sl_connected = 0\<rparr>"

lemma demo_tcp_laws: "tcp_laws demo_tcp demo_in demo_out"
  by (auto simp: tcp_laws_def demo_tcp_def demo_in_def demo_out_def min_def)

lemma demo_complete: "is_complete (feed http_new (bytes ''GET / HTTP/1.1'' @ crlf2))"
  by (simp add: feed_def store_def advance_def http_new_def is_complete_def hdata_def find_header_end_def find_sub_def
      bytes_def crlf2_def upt_rec MAX_REQUEST_def parse_content_length_def header_number_def Let_def splice_def)

lemma demo_pass:
  assumes "http_slot demo_tcp demo_answer 1 demo_slot () = (p, sl, w)"
  shows "is_open demo_tcp (sl_sock sl)" "demo_out (sl_sock sl) = bytes ''HTTP/1.1 200 OK''" "sl_close_at sl = 51"
    "send_queue demo_tcp (sl_sock sl) = 15" "is_active demo_tcp (sl_sock sl)" "is_complete (sl_req sl)"
proof -
  have "http_reset http_new = http_new" "\<not> is_complete http_new" by (simp_all add: http_reset_def http_new_def is_complete_def)
  moreover have "req_method (feed http_new (bytes ''GET / HTTP/1.1'' @ crlf2)) = Get"
    by (simp add: req_method_def feed_def store_def http_new_def bytes_def crlf2_def MAX_REQUEST_def Let_def splice_def)
  ultimately have "is_open demo_tcp (sl_sock sl) \<and> demo_out (sl_sock sl) = bytes ''HTTP/1.1 200 OK'' \<and> sl_close_at sl = 51 \<and>
      send_queue demo_tcp (sl_sock sl) = 15 \<and> is_active demo_tcp (sl_sock sl) \<and> is_complete (sl_req sl)"
    using assms demo_complete
    by (simp add: http_slot_def recycle_def relisten_def demo_slot_def demo_tcp_def receive_request_def send_response_def
        demo_answer_def demo_out_def bytes_def crlf2_def Let_def) auto
  then show "is_open demo_tcp (sl_sock sl)" "demo_out (sl_sock sl) = bytes ''HTTP/1.1 200 OK''" "sl_close_at sl = 51"
    "send_queue demo_tcp (sl_sock sl) = 15" "is_active demo_tcp (sl_sock sl)" "is_complete (sl_req sl)" by simp_all
qed

text \<open>The answer is written and the grace is over, but 15 bytes are not acknowledged: the connection goes on.\<close>

theorem peer_gets_its_answer_witness:
  "let sl = fst (snd (http_slot demo_tcp demo_answer 1 demo_slot ())) in
   demo_out (sl_sock sl) = bytes ''HTTP/1.1 200 OK'' \<and>
   (\<exists>chunks w. concat chunks = demo_in (sl_sock sl) \<and> is_complete (feeds http_new chunks) \<and>
      demo_out (sl_sock sl) = fst (demo_answer (req_method (feeds http_new chunks)) (path (feeds http_new chunks)) (body_str (feeds http_new chunks)) w)) \<and>
   goes_on demo_in demo_out (sl_sock sl) (sl_sock (fst (snd (http_slot demo_tcp demo_answer 60 sl ()))))"
proof -
  obtain p sl w where r: "http_slot demo_tcp demo_answer 1 demo_slot () = (p, sl, w)" by (metis prod_cases3)
  note o = demo_pass [OF r]
  have "\<not> is_open demo_tcp (sl_sock demo_slot)" "sl_req demo_slot = http_new"
    by (simp_all add: demo_tcp_def demo_slot_def)
  from peer_gets_its_answer [OF demo_tcp_laws slot_run.pass [OF slot_run.fresh r] o(1) this, of 60 "()"] o
  show ?thesis unfolding r fst_conv snd_conv Let_def by auto
qed

end
