(* ===== verification/Test_Screen.thy ===== *)
theory Test_Screen
  imports Hub75_Buffers Rust_Text
begin

text \<open>
  \<^verbatim>\<open>src/patterns.rs\<close>, the pictures drawn without a stream, and the version banner that
  \<^verbatim>\<open>hub75.rs\<close> stamps on them. The version text comes from the build and is a parameter.
\<close>

unbundle bit_operations_syntax

definition px_rgb :: "u8 \<Rightarrow> u8 \<Rightarrow> u8 \<Rightarrow> u32" where
  "px_rgb r g b = push_bit 16 (ucast b) OR push_bit 8 (ucast g) OR ucast r"

section \<open>Patterns\<close>

definition raster :: "nat \<Rightarrow> nat \<Rightarrow> (nat \<Rightarrow> nat \<Rightarrow> u32) \<Rightarrow> u32 list" where
  "raster w h f = concat (map (\<lambda>row. map (\<lambda>col. f col row) [0..<w]) [0..<h])"

lemma length_raster: "length (raster w n f) = w * n"
  by (induction n) (simp_all add: raster_def)

definition grid_px :: "nat \<Rightarrow> nat \<Rightarrow> nat \<Rightarrow> nat \<Rightarrow> u32" where
  "grid_px col row w h =
     (let is_h_line = (row = 0 \<or> row = h div 4 \<or> row = h div 2 \<or> row = 3 * h div 4 \<or> row + 1 = h);
          diag1 = (col = row * w div h); diag2 = (col + row * w div h + 1 = w) in
      if diag1 then px_rgb 0 255 255
      else if diag2 then px_rgb 255 0 255
      else if col = 0 then px_rgb 255 0 0
      else if col = w div 4 then px_rgb 0 255 0
      else if col = w div 2 then px_rgb 0 0 255
      else if col = 3 * w div 4 then px_rgb 255 255 0
      else if col + 1 = w then px_rgb 255 0 255
      else if is_h_line then px_rgb 255 255 255
      else px_rgb 0 0 0)"

definition grid :: "u16 \<Rightarrow> u16 \<Rightarrow> u32 list" where
  "grid width height = raster (unat width) (unat height) (\<lambda>col row. grid_px col row (unat width) (unat height))"

definition grid_tiled :: "u16 \<Rightarrow> u16 \<Rightarrow> u16 \<Rightarrow> u16 \<Rightarrow> u32 list" where
  "grid_tiled width height tile_w tile_h =
     (let tw = max (unat tile_w) 1; th = max (unat tile_h) 1 in
      raster (unat width) (unat height) (\<lambda>col row. grid_px (col mod tw) (row mod th) tw th))"

definition hsv_to_rgb :: "u16 \<Rightarrow> u8 \<Rightarrow> u8 \<Rightarrow> u8 \<times> u8 \<times> u8" where
  "hsv_to_rgb h s v =
     (if s = 0 then (v, v, v)
      else let region = h div 60; remainder = unat (h mod 60) * 255 div 60; vn = unat v; sn = unat s;
               p = of_nat (vn * (255 - sn) div 255); q = of_nat (vn * (255 - sn * remainder div 255) div 255);
               t = of_nat (vn * (255 - sn * (255 - remainder) div 255) div 255) in
      if region = 0 then (v, t, p) else if region = 1 then (q, v, p) else if region = 2 then (p, v, t)
      else if region = 3 then (p, q, v) else if region = 4 then (t, p, v) else (v, p, q))"

definition animated_rainbow :: "u16 \<Rightarrow> u16 \<Rightarrow> u32 \<Rightarrow> u32 list" where
  "animated_rainbow width height phase =
     raster (unat width) (unat height) (\<lambda>col row.
       let hue = ((of_nat col + of_nat row + phase) * 360 * 2) div (ucast width + ucast height) mod 360;
           (r, g, b) = hsv_to_rgb (ucast hue) 255 255 in px_rgb r g b)"

definition rainbow :: "u16 \<Rightarrow> u16 \<Rightarrow> u32 list" where
  "rainbow width height =
     raster (unat width) (unat height) (\<lambda>col row.
       let hue = ((of_nat col + of_nat row) * 360 * 2) div (ucast width + ucast height) mod 360;
           (r, g, b) = hsv_to_rgb (ucast (hue :: u32)) 255 255 in px_rgb r g b)"

definition solid :: "u16 \<Rightarrow> u16 \<Rightarrow> u8 \<Rightarrow> u8 \<Rightarrow> u8 \<Rightarrow> u32 list" where
  "solid width height r g b = replicate (unat width * unat height) (px_rgb r g b)"

definition quadrants :: "u16 \<Rightarrow> u16 \<Rightarrow> u32 list" where
  "quadrants width height =
     (let h = unat height; band = (if h \<ge> 4 then h div 4 else 1) in
      raster (unat width) h (\<lambda>col row.
        if row div band = 0 then px_rgb 255 0 0 else if row div band = 1 then px_rgb 0 255 0
        else if row div band = 2 then px_rgb 0 0 255 else px_rgb 255 255 255))"

section \<open>The version banner\<close>

definition FONT_5X7 :: "(u8 list \<times> nat) list" where
  "FONT_5X7 = [
     ([0x0E, 0x11, 0x13, 0x15, 0x19, 0x11, 0x0E], 48), ([0x04, 0x0C, 0x04, 0x04, 0x04, 0x04, 0x0E], 49),
     ([0x0E, 0x11, 0x01, 0x02, 0x04, 0x08, 0x1F], 50), ([0x1F, 0x02, 0x04, 0x02, 0x01, 0x11, 0x0E], 51),
     ([0x02, 0x06, 0x0A, 0x12, 0x1F, 0x02, 0x02], 52), ([0x1F, 0x10, 0x1E, 0x01, 0x01, 0x11, 0x0E], 53),
     ([0x06, 0x08, 0x10, 0x1E, 0x11, 0x11, 0x0E], 54), ([0x1F, 0x01, 0x02, 0x04, 0x08, 0x08, 0x08], 55),
     ([0x0E, 0x11, 0x11, 0x0E, 0x11, 0x11, 0x0E], 56), ([0x0E, 0x11, 0x11, 0x0F, 0x01, 0x02, 0x0C], 57),
     ([0x00, 0x00, 0x00, 0x00, 0x00, 0x0C, 0x0C], 46), ([0x00, 0x00, 0x11, 0x11, 0x11, 0x0A, 0x04], 118)]"

definition VERSION_TEXT_HEIGHT :: nat where [src_consts]: "VERSION_TEXT_HEIGHT = 7"

definition version_text_width :: "str \<Rightarrow> nat" where
  "version_text_width version = length (as_bytes version) * 6 - 1"

definition version_glyph_pixel :: "str \<Rightarrow> nat \<Rightarrow> nat \<Rightarrow> bool" where
  "version_glyph_pixel version dx dy =
     (if dy \<ge> VERSION_TEXT_HEIGHT then False
      else let pixel_x = dx mod 6 in
      if pixel_x \<ge> 5 then False
      else if dx div 6 < length version then
        (case find (\<lambda>(glyph, c). c = version ! (dx div 6)) FONT_5X7 of
           Some (glyph, _) \<Rightarrow> drop_bit (4 - pixel_x) (glyph ! dy) AND 1 = 1
         | None \<Rightarrow> False)
      else False)"

definition box_width :: "str \<Rightarrow> nat \<Rightarrow> nat" where
  "box_width version tile_w = max (min (version_text_width version + 2) (tile_w - 2)) 1"

definition box_left :: "str \<Rightarrow> nat \<Rightarrow> nat" where
  "box_left version tile_w = max ((tile_w - box_width version tile_w) div 2) 1"

definition box_height :: nat where "box_height = VERSION_TEXT_HEIGHT + 2"

text \<open>The cells of the box in their order; the first one past the image ends the drawing.\<close>

fun banner_cells :: "str \<Rightarrow> nat \<Rightarrow> nat \<Rightarrow> (nat \<times> nat) list \<Rightarrow> hub75 \<Rightarrow> hub75" where
  "banner_cells version width base [] h = h"
| "banner_cells version width base ((r, c) # cells) h =
     (let idx = base + r * width + c in
      if idx \<ge> img_len h then h
      else let lit = (r \<ge> 1 \<and> c \<ge> 1 \<and> version_glyph_pixel version (c - 1) (r - 1)) in
        banner_cells version width base cells (h\<lparr>fb_back := (fb_back h)[idx := if lit then 0x00FFFFFF else 0]\<rparr>))"

definition draw_version_banner_in :: "str \<Rightarrow> nat \<Rightarrow> nat \<Rightarrow> nat \<Rightarrow> nat \<Rightarrow> hub75 \<Rightarrow> hub75" where
  "draw_version_banner_in version width x0 y0 tile_w h =
     (if width = 0 \<or> tile_w = 0 then h
      else banner_cells version width ((y0 + 2) * width + x0 + box_left version tile_w)
        (List.product [0..<box_height] [0..<box_width version tile_w]) h)"

definition draw_version_banner :: "str \<Rightarrow> nat \<Rightarrow> hub75 \<Rightarrow> hub75" where
  "draw_version_banner version width h = draw_version_banner_in version width 0 0 width h"

text \<open>The corners of the tiles: multiples of the tile below the size.\<close>

definition corners :: "nat \<Rightarrow> nat \<Rightarrow> nat list" where
  "corners extent tile = map (\<lambda>k. k * tile) [0..<(extent + tile - 1) div tile]"

definition draw_version_banners :: "str \<Rightarrow> nat \<Rightarrow> nat \<Rightarrow> nat \<Rightarrow> nat \<Rightarrow> hub75 \<Rightarrow> hub75" where
  "draw_version_banners version width height tile_w tile_h h =
     (if width = 0 \<or> height = 0 \<or> tile_w = 0 \<or> tile_h = 0 then h
      else fold (\<lambda>(y0, x0). draw_version_banner_in version width x0 y0 tile_w)
        (List.product (corners height tile_h) (corners width tile_w)) h)"

end
