(* ===== verification/Layout_Apply.thy ===== *)
theory Layout_Apply
  imports Layout Test_Screen Program_Run
begin

text \<open>
  A layout put into force: \<^verbatim>\<open>LayoutConfig::apply\<close> of \<^verbatim>\<open>src/layout.rs\<close> and
  \<^verbatim>\<open>apply_layout\<close>, \<^verbatim>\<open>apply_default_config\<close> of \<^verbatim>\<open>src/network.rs\<close>, on a build
  for plain HUB75 panels (the S-PWM chip tables are compiled out of it).
\<close>

record card =
  cd_stage :: stage
  cd_layout :: layout
  clk_div_reg :: u32
  throttle_reg :: u32
  output_mismatch :: u8
  module_mismatch :: u8
  rgb_order_unsupported :: bool

section \<open>Registers\<close>

definition panel_position :: "layout \<Rightarrow> u8 \<times> u8 \<Rightarrow> u8 \<times> u8" where
  "panel_position cfg = (\<lambda>(col, row).
     (ucast (ucast col * panel_width cfg div POS_UNIT), ucast (ucast row * panel_height cfg div POS_UNIT)))"

definition place_panel :: "hub_hw \<Rightarrow> layout \<Rightarrow> nat \<times> nat \<Rightarrow> hub75 \<Rightarrow> hub75" where
  "place_panel hw cfg = (\<lambda>(output, chain) h.
     (case assignments cfg ! output ! chain of
        None \<Rightarrow> h
      | Some p \<Rightarrow> (case panel_position cfg p of (x, y) \<Rightarrow>
          set_panel_param hw (of_nat output) (of_nat chain) x y 0 h)))"

text \<open>The flag: the order cannot be honoured.\<close>

definition apply_registers :: "hub_hw \<Rightarrow> layout \<Rightarrow> hub75 \<Rightarrow> bool \<times> hub75" where
  "apply_registers hw cfg h0 =
     (let h1 = set_img_param (virtual_width cfg) (virtual_length cfg) h0;
          (ok, h2) = set_rgb_order hw (rgb_order cfg) h1;
          h3 = (if group_origins_len cfg > 0
                then snd (set_group_origins False (take (group_origins_len cfg) (group_origins cfg)) h2) else h2) in
      (\<not> ok, fold (place_panel hw cfg) (List.product [0..<MAX_OUTPUTS] [0..<MAX_CHAIN]) h3))"

section \<open>The whole\<close>

definition test_screen :: "str \<Rightarrow> layout \<Rightarrow> hub75 \<Rightarrow> hub75" where
  "test_screen version cfg h =
     (let w = virtual_width cfg; ht = virtual_height cfg; pw = panel_width cfg; ph = panel_height cfg;
          h1 = set_img_param w (ucast w * ucast ht) h;
          h2 = write_img_data 0 (grid_tiled w ht pw ph) h1;
          h3 = draw_version_banners version (unat w) (unat ht) (unat pw) (unat ph) h2 in
      swap_buffers h3)"

definition start_program :: "hub_hw \<Rightarrow> program list \<Rightarrow> layout \<Rightarrow> stage \<Rightarrow> stage" where
  "start_program hw progs cfg st =
     (case by_name progs (program_name cfg) of
        Some pr \<Rightarrow>
          set_stream_hold True (on_hub (set_palette_all hw 0 palette_default)
            (st\<lparr>prog_fn := Some pr, prog_dynamic := pr_dynamic pr, full_left := 2, prime_left := 2,
                prog_name := pr_name pr, prog_active := True, prog_frame := 0, next_ms := 0\<rparr>))
      | None \<Rightarrow> set_stream_hold False (st\<lparr>prog_active := False\<rparr>))"

definition apply_layout :: "hub_hw \<Rightarrow> program list \<Rightarrow> str \<Rightarrow> layout \<Rightarrow> card \<Rightarrow> card" where
  "apply_layout hw progs version cfg cd =
     (let (hw_w, hw_h, _, _, n_out) = get_hw_info hw;
          cd1 = cd\<lparr>clk_div_reg := (if clk_div cfg \<ge> 2 then ucast (clk_div cfg) else clk_div_reg cd),
                   throttle_reg := (if write_throttle cfg > 0 then ucast (write_throttle cfg) else throttle_reg cd),
                   output_mismatch := (if n_out \<noteq> OUTPUTS then n_out else 0),
                   module_mismatch := (if hw_w \<noteq> 0 \<and> (hw_w \<noteq> panel_width cfg \<or> hw_h \<noteq> panel_height cfg) then 1 else 0)\<rparr>;
          (unsup, h1) = apply_registers hw cfg (st_hub (cd_stage cd1));
          st1 = (cd_stage cd1)\<lparr>st_hub := test_screen version cfg h1\<rparr>;
          st2 = (if lmode cfg = ProgramMode then start_program hw progs cfg st1 else st1) in
      cd1\<lparr>cd_stage := st2, cd_layout := cfg, rgb_order_unsupported := rgb_order_unsupported cd1 \<or> unsup\<rparr>)"

definition apply_default_config :: "hub_hw \<Rightarrow> program list \<Rightarrow> str \<Rightarrow> str option \<Rightarrow> card \<Rightarrow> bool \<times> card" where
  "apply_default_config hw progs version baked cd =
     (case Option.bind baked layout_parse of
        Some cfg \<Rightarrow> (True, apply_layout hw progs version cfg cd)
      | None \<Rightarrow> (False, cd))"

end
