(* ===== verification/Layout_Shown.thy ===== *)
theory Layout_Shown
  imports Layout_Apply Program_Props
begin

text \<open>
  What a layout in force shows: every panel of the wall carries the test screen of a card with
  that one panel, and its register says where it is.
\<close>

section \<open>The raster\<close>

lemma raster_nth:
  assumes "x < w" "y < h"
  shows "y * w + x < length (raster w h f)" "raster w h f ! (y * w + x) = f x y"
proof -
  note len = length_raster [of w _ f]
  have "Suc y * w \<le> h * w" using assms(2) by (intro mult_le_mono1) simp
  then show "y * w + x < length (raster w h f)" using assms(1) len [of h] by (simp add: mult.commute)
  show "raster w h f ! (y * w + x) = f x y" using assms(2)
  proof (induction h)
    case (Suc n)
    have r: "raster w (Suc n) f = raster w n f @ map (\<lambda>col. f col n) [0..<w]" by (simp add: raster_def)
    show ?case
    proof (cases "y < n")
      case True
      have "Suc y * w \<le> n * w" using True by (intro mult_le_mono1) simp
      then have "y * w + x < length (raster w n f)" using assms(1) len [of n] by (simp add: mult.commute)
      then show ?thesis using Suc.IH True by (simp add: r nth_append)
    next
      case False
      then have "y = n" using Suc.prems by simp
      then show ?thesis using assms(1) len [of n] by (simp add: r nth_append mult.commute)
    qed
  qed simp
qed

section \<open>The banner\<close>

definition banner_px :: "str \<Rightarrow> nat \<Rightarrow> nat \<Rightarrow> u32" where
  "banner_px version c r = (if r \<ge> 1 \<and> c \<ge> 1 \<and> version_glyph_pixel version (c - 1) (r - 1) then 0x00FFFFFF else 0)"

lemma banner_cells_effect:
  "\<forall>(r, c) \<in> set cells. base + r * width + c < img_len h \<Longrightarrow> \<forall>(r, c) \<in> set cells. c < width \<Longrightarrow>
    redrawn h (banner_cells version width base cells h) \<and>
    (\<forall>r c. c < width \<longrightarrow> base + r * width + c < img_len h \<longrightarrow> fb_back (banner_cells version width base cells h) ! (base + r * width + c) =
      (if (r, c) \<in> set cells then banner_px version c r else fb_back h ! (base + r * width + c))) \<and>
    (\<forall>i. (\<forall>(r, c) \<in> set cells. i \<noteq> base + r * width + c) \<longrightarrow> fb_back (banner_cells version width base cells h) ! i = fb_back h ! i)"
proof (induction cells arbitrary: h)
  case (Cons rc cells)
  obtain r c where rc: "rc = (r, c)" by (cases rc)
  let ?i = "base + r * width + c"
  let ?h = "h\<lparr>fb_back := (fb_back h)[?i := banner_px version c r]\<rparr>"
  have i: "?i < img_len h" "c < width" using Cons.prems by (simp_all add: rc)
  have red: "redrawn h ?h" unfolding redrawn_def by (intro exI [of _ "(fb_back h)[?i := banner_px version c r]"]) simp
  have same: "img_len ?h = img_len h" by (simp add: img_len_def)
  have b: "banner_cells version width base (rc # cells) h = banner_cells version width base cells ?h"
    using i by (simp add: rc banner_px_def Let_def)
  have inj: "(base + r' * width + c' = ?i) = (r' = r \<and> c' = c)" if "c' < width" for r' c'
  proof
    assume "base + r' * width + c' = ?i"
    then have "(r' * width + c') div width = (r * width + c) div width" "(r' * width + c') mod width = (r * width + c) mod width" by simp_all
    then show "r' = r \<and> c' = c" using that i(2) by simp
  qed simp
  have il: "?i < length (fb_back h)" using i(1) img_len_le [of h] by simp
  have "\<forall>(r, c) \<in> set cells. base + r * width + c < img_len ?h" "\<forall>(r, c) \<in> set cells. c < width"
    unfolding same using Cons.prems by auto
  note ih = Cons.IH [OF this, unfolded same]
  show ?case unfolding b
  proof (intro conjI allI impI)
    show "redrawn h (banner_cells version width base cells ?h)" using redrawn_trans [OF red] ih by blast
  next
    fix r' c' assume rc': "c' < width" "base + r' * width + c' < img_len h"
    have e: "base + r' * width + c' \<noteq> ?i" if "\<not> (r' = r \<and> c' = c)" using inj [OF rc'(1), of r'] that by blast
    have "fb_back ?h ! (base + r' * width + c') = (if r' = r \<and> c' = c then banner_px version c r else fb_back h ! (base + r' * width + c'))"
    proof (cases "r' = r \<and> c' = c")
      case False
      have "fb_back ?h = (fb_back h)[?i := banner_px version c r]" by simp
      then show ?thesis using nth_list_update_neq [OF e [OF False, symmetric]] False by (simp only: if_False)
    qed (use il in simp)
    moreover have "fb_back (banner_cells version width base cells ?h) ! (base + r' * width + c') =
      (if (r', c') \<in> set cells then banner_px version c' r' else fb_back ?h ! (base + r' * width + c'))"
      using ih rc' by blast
    ultimately show "fb_back (banner_cells version width base cells ?h) ! (base + r' * width + c') =
      (if (r', c') \<in> set (rc # cells) then banner_px version c' r' else fb_back h ! (base + r' * width + c'))"
      by (auto simp: rc)
  next
    fix j assume "\<forall>(r, c) \<in> set (rc # cells). j \<noteq> base + r * width + c"
    then show "fb_back (banner_cells version width base cells ?h) ! j = fb_back h ! j"
      using ih by (auto simp: rc)
  qed
qed simp

definition in_box :: "str \<Rightarrow> nat \<Rightarrow> nat \<Rightarrow> nat \<Rightarrow> bool" where
  "in_box version tw c r \<longleftrightarrow> box_left version tw \<le> c \<and> c < box_left version tw + box_width version tw \<and>
     2 \<le> r \<and> r < 2 + box_height"

definition box_px :: "str \<Rightarrow> nat \<Rightarrow> nat \<Rightarrow> nat \<Rightarrow> u32" where
  "box_px version tw c r = banner_px version (c - box_left version tw) (r - 2)"

lemma box_inside:
  assumes "3 \<le> tw"
  shows "box_left version tw + box_width version tw \<le> tw"
  using assms by (auto simp: box_left_def box_width_def)

lemma same_cell:
  fixes w :: nat
  assumes "x < w" "x' < w" "y * w + x = y' * w + x'"
  shows "y = y' \<and> x = x'"
  using pix_div [OF assms(1), of y] pix_div [OF assms(2), of y'] assms(3) by simp

lemma banner_in_effect:
  fixes version :: str and h :: hub75
  assumes fit: "x0 + tw \<le> w" "y0 + th \<le> ht" and tile: "3 \<le> tw" "11 \<le> th" and len: "ht * w \<le> img_len h"
  defines "h' \<equiv> draw_version_banner_in version w x0 y0 tw h"
  shows "redrawn h h'"
    and "y < ht \<Longrightarrow> x < w \<Longrightarrow> pix w (fb_back h') y x =
      (if x0 \<le> x \<and> y0 \<le> y \<and> in_box version tw (x - x0) (y - y0) then box_px version tw (x - x0) (y - y0)
       else pix w (fb_back h) y x)"
proof -
  let ?bl = "box_left version tw" and ?bw = "box_width version tw"
  let ?base = "(y0 + 2) * w + x0 + ?bl"
  let ?cells = "List.product [0..<box_height] [0..<?bw]"
  have bi: "?bl + ?bw \<le> tw" by (rule box_inside [OF tile(1)])
  have bh: "box_height = 9" by (simp add: box_height_def VERSION_TEXT_HEIGHT_def)
  have h': "h' = banner_cells version w ?base ?cells h" using fit tile by (simp add: h'_def draw_version_banner_in_def)
  have idx: "?base + r * w + c = (y0 + 2 + r) * w + (x0 + ?bl + c)" for r c by (simp add: algebra_simps)
  have cw: "x0 + ?bl + c < w" if "c < ?bw" for c using fit bi that by linarith
  have lim: "?base + r * w + c < img_len h" if "r < 9" "c < ?bw" for r c
  proof -
    have "Suc (y0 + 2 + r) * w \<le> ht * w" using fit(2) tile(2) that(1) by (intro mult_le_mono1) simp
    then show ?thesis unfolding idx using cw [OF that(2)] len by simp
  qed
  have "\<forall>(r, c) \<in> set ?cells. ?base + r * w + c < img_len h" "\<forall>(r, c) \<in> set ?cells. c < w"
    using lim fit(1) bi bh by auto
  note e = banner_cells_effect [OF this, of version]
  show "redrawn h h'" unfolding h' using e by blast
  assume yx: "y < ht" "x < w"
  show "pix w (fb_back h') y x =
      (if x0 \<le> x \<and> y0 \<le> y \<and> in_box version tw (x - x0) (y - y0) then box_px version tw (x - x0) (y - y0)
       else pix w (fb_back h) y x)"
  proof (cases "x0 \<le> x \<and> y0 \<le> y \<and> in_box version tw (x - x0) (y - y0)")
    case True
    let ?r = "y - y0 - 2" and ?c = "x - x0 - ?bl"
    have rc: "?r < 9" "?c < ?bw" "y0 + 2 + ?r = y" "x0 + ?bl + ?c = x" using True bh by (auto simp: in_box_def)
    have i: "?base + ?r * w + ?c = y * w + x" unfolding idx rc(3,4) ..
    have "?c < w" "?base + ?r * w + ?c < img_len h" "(?r, ?c) \<in> set ?cells" using lim [OF rc(1,2)] yx rc bh by auto
    then have "fb_back h' ! (?base + ?r * w + ?c) = banner_px version ?c ?r" unfolding h' using e by simp
    then show ?thesis unfolding i using True by (simp add: pix_def box_px_def)
  next
    case False
    have "y * w + x \<noteq> ?base + r * w + c" if "(r, c) \<in> set ?cells" for r c
    proof
      assume "y * w + x = ?base + r * w + c"
      then have "y * w + x = (y0 + 2 + r) * w + (x0 + ?bl + c)" unfolding idx .
      moreover have "c < ?bw" using that by simp
      ultimately have "y = y0 + 2 + r \<and> x = x0 + ?bl + c" by (intro same_cell [OF yx(2) cw])
      then show False using False that bh by (auto simp: in_box_def)
    qed
    then have "fb_back h' ! (y * w + x) = fb_back h ! (y * w + x)" unfolding h' using e by blast
    then show ?thesis using False by (simp only: pix_def if_False)
  qed
qed

section \<open>The banners of the tiles\<close>

lemma tile_unique:
  fixes tw :: nat
  assumes "tw dvd x0" "x0 \<le> x" "x - x0 < tw"
  shows "x0 = x div tw * tw" "x - x0 = x mod tw"
proof -
  obtain k where k: "x0 = k * tw" using assms(1) by (auto simp: dvd_def mult.commute)
  have "x = k * tw + (x - x0)" using assms(2) k by simp
  then have "x div tw = k" "x mod tw = x - x0" using assms(3) by (metis pix_div(1), metis pix_div(2))
  then show "x0 = x div tw * tw" "x - x0 = x mod tw" using k by simp_all
qed

lemma banner_tile:
  assumes "tw dvd x0" "th dvd y0" "3 \<le> tw" "11 \<le> th"
  shows "(x0 \<le> x \<and> y0 \<le> y \<and> in_box version tw (x - x0) (y - y0)) =
    ((y0, x0) = (y div th * th, x div tw * tw) \<and> in_box version tw (x mod tw) (y mod th))"
proof
  assume a: "x0 \<le> x \<and> y0 \<le> y \<and> in_box version tw (x - x0) (y - y0)"
  then have "x - x0 < tw" "y - y0 < th"
    using box_inside [OF assms(3), of version] assms(4) by (auto simp: in_box_def box_height_def VERSION_TEXT_HEIGHT_def)
  then show "(y0, x0) = (y div th * th, x div tw * tw) \<and> in_box version tw (x mod tw) (y mod th)"
    using tile_unique [OF assms(1)] tile_unique [OF assms(2)] a by auto
qed (auto simp: minus_div_mult_eq_mod)

lemma banners_effect:
  assumes tile: "3 \<le> tw" "11 \<le> th"
  shows "\<forall>(y0, x0) \<in> set cs. tw dvd x0 \<and> th dvd y0 \<and> x0 + tw \<le> w \<and> y0 + th \<le> ht \<Longrightarrow> ht * w \<le> img_len h \<Longrightarrow>
    redrawn h (fold (\<lambda>(y0, x0). draw_version_banner_in version w x0 y0 tw) cs h) \<and>
    (\<forall>y < ht. \<forall>x < w. pix w (fb_back (fold (\<lambda>(y0, x0). draw_version_banner_in version w x0 y0 tw) cs h)) y x =
      (if (y div th * th, x div tw * tw) \<in> set cs \<and> in_box version tw (x mod tw) (y mod th)
       then box_px version tw (x mod tw) (y mod th) else pix w (fb_back h) y x))"
proof (induction cs arbitrary: h)
  case (Cons p cs)
  obtain y0 x0 where p: "p = (y0, x0)" by (cases p)
  let ?h = "draw_version_banner_in version w x0 y0 tw h"
  have c: "tw dvd x0" "th dvd y0" "x0 + tw \<le> w" "y0 + th \<le> ht" using Cons.prems(1) by (auto simp: p)
  note e = banner_in_effect [OF c(3,4) tile Cons.prems(2), where version = version]
  have len: "ht * w \<le> img_len ?h" using e(1) Cons.prems(2) by (auto simp: redrawn_def img_len_def)
  have "\<forall>(y0, x0) \<in> set cs. tw dvd x0 \<and> th dvd y0 \<and> x0 + tw \<le> w \<and> y0 + th \<le> ht" using Cons.prems(1) by auto
  note ih = Cons.IH [OF this len]
  have f: "fold (\<lambda>(y0, x0). draw_version_banner_in version w x0 y0 tw) (p # cs) h =
    fold (\<lambda>(y0, x0). draw_version_banner_in version w x0 y0 tw) cs ?h" by (simp add: p)
  show ?case unfolding f
  proof (intro conjI allI impI)
    show "redrawn h (fold (\<lambda>(y0, x0). draw_version_banner_in version w x0 y0 tw) cs ?h)"
      using redrawn_trans [OF e(1)] ih by blast
  next
    fix y x assume yx: "y < ht" "x < w"
    have "pix w (fb_back ?h) y x = (if (y0, x0) = (y div th * th, x div tw * tw) \<and> in_box version tw (x mod tw) (y mod th)
      then box_px version tw (x mod tw) (y mod th) else pix w (fb_back h) y x)"
      unfolding e(2) [OF yx] banner_tile [OF c(1,2) tile] by (auto simp: minus_div_mult_eq_mod)
    then show "pix w (fb_back (fold (\<lambda>(y0, x0). draw_version_banner_in version w x0 y0 tw) cs ?h)) y x =
      (if (y div th * th, x div tw * tw) \<in> set (p # cs) \<and> in_box version tw (x mod tw) (y mod th)
       then box_px version tw (x mod tw) (y mod th) else pix w (fb_back h) y x)"
      using ih yx by (auto simp: p)
  qed
qed simp

lemma corners_multiple:
  assumes "0 < tw"
  shows "set (corners (tw * k) tw) = (\<lambda>j. j * tw) ` {..<k}"
proof -
  have "(tw * k + tw - 1) div tw = k"
  proof -
    have "tw * k + tw - 1 = k * tw + (tw - 1)" using assms by (simp add: mult.commute)
    then show ?thesis using assms pix_div(1) [of "tw - 1" tw k] by simp
  qed
  then show ?thesis by (auto simp: corners_def)
qed

lemma draw_banners_effect:
  fixes version :: str
  assumes tile: "3 \<le> tw" "11 \<le> th" and size: "w = tw * kc" "ht = th * kr" and len: "ht * w \<le> img_len h"
  shows "redrawn h (draw_version_banners version w ht tw th h)"
    and "y < ht \<Longrightarrow> x < w \<Longrightarrow> pix w (fb_back (draw_version_banners version w ht tw th h)) y x =
      (if in_box version tw (x mod tw) (y mod th) then box_px version tw (x mod tw) (y mod th) else pix w (fb_back h) y x)"
proof -
  let ?cs = "List.product (corners ht th) (corners w tw)"
  have pos: "0 < tw" "0 < th" using tile by simp_all
  have cs: "set ?cs = ((\<lambda>j. j * th) ` {..<kr}) \<times> ((\<lambda>j. j * tw) ` {..<kc})"
    by (simp add: size corners_multiple [OF pos(1)] corners_multiple [OF pos(2)])
  have fits: "j * t + t \<le> t * k" if "j < k" for j t k :: nat
    using mult_le_mono1 [of "Suc j" k t] that by (simp add: mult.commute)
  have "\<forall>(y0, x0) \<in> set ?cs. tw dvd x0 \<and> th dvd y0 \<and> x0 + tw \<le> w \<and> y0 + th \<le> ht"
    unfolding cs unfolding size using fits by auto
  note e = banners_effect [OF tile this len, where version = version]
  show red: "redrawn h (draw_version_banners version w ht tw th h)" using e by (simp add: draw_version_banners_def)
  assume yx: "y < ht" "x < w"
  have "x div tw < kc" "y div th < kr" using yx size pos by (simp_all add: less_mult_imp_div_less mult.commute)
  then have "(y div th * th, x div tw * tw) \<in> set ?cs" unfolding cs by blast
  moreover have "w \<noteq> 0" "ht \<noteq> 0" using yx by simp_all
  ultimately show "pix w (fb_back (draw_version_banners version w ht tw th h)) y x =
      (if in_box version tw (x mod tw) (y mod th) then box_px version tw (x mod tw) (y mod th) else pix w (fb_back h) y x)"
    using e yx pos by (simp add: draw_version_banners_def)
qed

section \<open>The registers\<close>

lemma slot_of:
  assumes "out < 4" "out < panel_csr_count hw"
  shows "set_panel_param hw (of_nat out) 0 x y 0 h = h\<lparr>r_panels := (r_panels h)[out := panel_word x y 0]\<rparr>"
    "get_panel_param hw (of_nat out) 0 h = (ucast (r_panels h ! out AND 0xFF), ucast (drop_bit 8 (r_panels h ! out) AND 0xFF),
       ucast (drop_bit 16 (r_panels h ! out) AND 3))"
proof -
  have u: "unat (of_nat out :: u8) = out" using assms(1) by (simp add: unat_of_nat)
  then have c: "\<not> OUTPUTS \<le> of_nat out" "\<not> CHAIN_LENGTH \<le> 0" "unat (of_nat out * CHAIN_LENGTH + 0) = out"
    using assms(1) by (simp_all add: OUTPUTS_def CHAIN_LENGTH_def word_le_nat_alt)
  have g: "(OUTPUTS \<le> of_nat out \<or> CHAIN_LENGTH \<le> 0) = False" "(panel_csr_count hw \<le> out) = False"
    using c(1,2) assms(2) by simp_all
  show "set_panel_param hw (of_nat out) 0 x y 0 h = h\<lparr>r_panels := (r_panels h)[out := panel_word x y 0]\<rparr>"
    unfolding set_panel_param_def Let_def c(3) g if_False ..
  show "get_panel_param hw (of_nat out) 0 h = (ucast (r_panels h ! out AND 0xFF), ucast (drop_bit 8 (r_panels h ! out) AND 0xFF),
       ucast (drop_bit 16 (r_panels h ! out) AND 3))"
    unfolding get_panel_param_def Let_def c(3) g if_False ..
qed

lemma panel_word_parts:
  "ucast (panel_word x y 0 AND 0xFF) = x" "ucast (drop_bit 8 (panel_word x y 0) AND 0xFF) = y"
  "(ucast (drop_bit 16 (panel_word x y 0) AND 3) :: u8) = 0"
proof -
  have m: "(0xFF :: u32) = mask 8" "(3 :: u32) = mask 2" by (simp_all add: mask_eq_exp_minus_1)
  show "ucast (panel_word x y 0 AND 0xFF) = x" "ucast (drop_bit 8 (panel_word x y 0) AND 0xFF) = y"
    "(ucast (drop_bit 16 (panel_word x y 0) AND 3) :: u8) = 0"
    unfolding m by (auto simp: panel_word_def bit_eq_iff bit_simps dest: bit_imp_le_length)
qed

lemma place_panel_other:
  assumes "p \<noteq> (out, 0)" "fst p < 8" "snd p < 2" "out < 4"
  shows "r_panels (place_panel hw cfg p h) ! out = r_panels h ! out"
proof (cases "snd p = 0")
  case True
  then have "fst p \<noteq> out" using assms(1) by (cases p) auto
  moreover have "unat (of_nat (fst p) :: u8) = fst p" using assms(2) by (simp add: unat_of_nat)
  ultimately show ?thesis using True
    by (cases p) (auto simp: place_panel_def set_panel_param_def CHAIN_LENGTH_def Let_def split: option.split prod.split)
next
  case False
  then have "snd p = 1" using assms(3) by simp
  then show ?thesis
    by (cases p) (auto simp: place_panel_def set_panel_param_def CHAIN_LENGTH_def split: option.split prod.split)
qed

lemma place_panel_keeps:
  "pixels (place_panel hw cfg p h) = pixels h" "length (r_panels (place_panel hw cfg p h)) = length (r_panels h)"
  by (auto simp: place_panel_def set_panel_param_def pixels_def Let_def split: option.split prod.split)

lemma place_panels_keep:
  "pixels (fold (place_panel hw cfg) ps h) = pixels h \<and> length (r_panels (fold (place_panel hw cfg) ps h)) = length (r_panels h)"
  by (induction ps arbitrary: h) (simp_all add: place_panel_keeps)

lemma place_panels_other:
  "\<forall>p \<in> set ps. p \<noteq> (out, 0) \<and> fst p < 8 \<and> snd p < 2 \<Longrightarrow> out < 4 \<Longrightarrow>
    r_panels (fold (place_panel hw cfg) ps h) ! out = r_panels h ! out"
  by (induction ps arbitrary: h) (simp_all add: place_panel_other)

lemma place_panels_slot:
  assumes "out < 4" "out < panel_csr_count hw" "out < length (r_panels h)" "assignments cfg ! out ! 0 = Some p"
  shows "r_panels (fold (place_panel hw cfg) (List.product [0..<8] [0..<2]) h) ! out =
    panel_word (fst (panel_position cfg p)) (snd (panel_position cfg p)) 0"
proof -
  have "(out, 0) \<in> set (List.product [0..<8] [0..<2])" using assms(1) by auto
  then obtain ys zs where split: "List.product [0..<8] [0..<2] = ys @ (out, 0) # zs" "(out, 0) \<notin> set zs"
    by (blast dest: split_list_last)
  have "set zs \<subseteq> {0..<8} \<times> {0..<2}"
    using arg_cong [OF split(1), of set] by auto
  then have zs: "\<forall>p \<in> set zs. p \<noteq> (out, 0) \<and> fst p < 8 \<and> snd p < 2" using split(2) by auto
  let ?h = "fold (place_panel hw cfg) ys h"
  have len: "out < length (r_panels ?h)" using assms(3) place_panels_keep by simp
  have "r_panels (place_panel hw cfg (out, 0) ?h) ! out = panel_word (fst (panel_position cfg p)) (snd (panel_position cfg p)) 0"
    using len assms(4) by (simp add: place_panel_def slot_of [OF assms(1,2)] split: prod.split)
  then show ?thesis unfolding split(1) using place_panels_other [OF zs assms(1)] by simp
qed

section \<open>The test screen\<close>

definition panel_px :: "str \<Rightarrow> nat \<Rightarrow> nat \<Rightarrow> nat \<Rightarrow> nat \<Rightarrow> u32" where
  "panel_px version tw th c r = (if in_box version tw c r then box_px version tw c r else grid_px c r tw th)"

lemma whole_splice: "length d = n \<Longrightarrow> n \<le> length b \<Longrightarrow> i < n \<Longrightarrow> splice 0 d b ! i = d ! i"
  by (simp add: nth_splice)

lemma test_screen_effect:
  assumes size: "unat (virtual_width cfg) = unat (panel_width cfg) * kc" "unat (virtual_height cfg) = unat (panel_height cfg) * kr"
    and tile: "3 \<le> unat (panel_width cfg)" "11 \<le> unat (panel_height cfg)"
    and room: "unat (virtual_width cfg) * unat (virtual_height cfg) \<le> length (fb_back h)"
  shows "get_img_param (test_screen version cfg h) = (virtual_width cfg, virtual_length cfg)"
    and "r_panels (test_screen version cfg h) = r_panels h"
    and "y < unat (virtual_height cfg) \<Longrightarrow> x < unat (virtual_width cfg) \<Longrightarrow>
      shown (test_screen version cfg h) (y * unat (virtual_width cfg) + x) =
      panel_px version (unat (panel_width cfg)) (unat (panel_height cfg)) (x mod unat (panel_width cfg)) (y mod unat (panel_height cfg))"
proof -
  let ?w = "unat (virtual_width cfg)" and ?ht = "unat (virtual_height cfg)"
  let ?tw = "unat (panel_width cfg)" and ?th = "unat (panel_height cfg)"
  let ?d = "grid_tiled (virtual_width cfg) (virtual_height cfg) (panel_width cfg) (panel_height cfg)"
  let ?f = "\<lambda>col row. grid_px (col mod ?tw) (row mod ?th) ?tw ?th"
  define h1 where "h1 = set_img_param (virtual_width cfg) (ucast (virtual_width cfg) * ucast (virtual_height cfg)) h"
  define h2 where "h2 = write_img_data 0 ?d h1"
  define h3 where "h3 = draw_version_banners version ?w ?ht ?tw ?th h2"
  have t: "test_screen version cfg h = swap_buffers h3" by (simp add: test_screen_def h1_def h2_def h3_def Let_def)
  have "?w * ?ht \<le> (2 ^ 16 - 1) * (2 ^ 16 - 1)" using unat_u16_less [of "virtual_width cfg"] unat_u16_less [of "virtual_height cfg"]
    by (intro mult_le_mono) simp_all
  then have prod: "unat (ucast (virtual_width cfg) * ucast (virtual_height cfg) :: u32) = ?w * ?ht"
    using unat_u16_less [of "virtual_width cfg"] unat_u16_less [of "virtual_height cfg"]
    by (simp add: unat_word_ariths unsigned_ucast_eq take_bit_eq_mod)
  have l1: "img_len h1 = ?w * ?ht" "fb_back h1 = fb_back h"
    using room by (simp_all add: h1_def set_img_param_def publish_dma_limit_def img_len_def prod)
  have d: "?d = raster ?w ?ht ?f" using tile by (simp add: grid_tiled_def Let_def max_def)
  have ld: "length ?d = ?w * ?ht" unfolding d by (rule length_raster)
  have b2: "redrawn h1 h2" "fb_back h2 = (if ?w * ?ht = 0 then fb_back h else splice 0 ?d (fb_back h))"
  proof -
    have z: "h2 = h1" if "?w * ?ht = 0" using that l1 by (simp add: h2_def write_img_data_def)
    have nz: "h2 = h1\<lparr>fb_back := splice 0 ?d (fb_back h)\<rparr>" if "?w * ?ht \<noteq> 0"
      using that l1 ld by (simp add: h2_def write_img_data_def Let_def)
    have "redrawn h1 h2" if "?w * ?ht \<noteq> 0"
      unfolding redrawn_def using nz [OF that] room ld l1(2) by (intro exI [of _ "splice 0 ?d (fb_back h)"]) simp
    then show "redrawn h1 h2" using z by (cases "?w * ?ht = 0") simp_all
    show "fb_back h2 = (if ?w * ?ht = 0 then fb_back h else splice 0 ?d (fb_back h))"
      using z nz l1(2) by (cases "?w * ?ht = 0") simp_all
  qed
  have l2: "img_len h2 = ?w * ?ht" using b2(1) l1 by (auto simp: redrawn_def img_len_def)
  then have "?ht * ?w \<le> img_len h2" by (simp add: mult.commute)
  note e = draw_banners_effect [OF tile size this, where version = version, folded h3_def]
  have keep: "redrawn h1 h3" by (rule redrawn_trans [OF b2(1) e(1)])
  then show "get_img_param (test_screen version cfg h) = (virtual_width cfg, virtual_length cfg)"
    "r_panels (test_screen version cfg h) = r_panels h"
    by (auto simp: t swap_buffers_def swap_halves_def redrawn_def h1_def set_img_param_def publish_dma_limit_def
        get_img_param_def virtual_length_def Let_def)
  assume yx: "y < ?ht" "x < ?w"
  have "pix ?w (fb_back h2) y x = ?f x y"
    using b2(2) yx whole_splice [OF ld room, of "y * ?w + x"] raster_nth [OF yx(2,1), of ?f] by (auto simp: pix_def d length_raster)
  then have "pix ?w (fb_back h3) y x = panel_px version ?tw ?th (x mod ?tw) (y mod ?th)"
    unfolding e(2) [OF yx] panel_px_def by simp
  then show "shown (test_screen version cfg h) (y * ?w + x) = panel_px version ?tw ?th (x mod ?tw) (y mod ?th)"
    by (simp add: t shown_def pix_def swap_buffers_def swap_halves_def Let_def)
qed

section \<open>In force\<close>

lemma start_program_keeps:
  "pixels (st_hub (start_program hw progs cfg st)) = pixels (st_hub st)"
  "r_panels (st_hub (start_program hw progs cfg st)) = r_panels (st_hub st)"
proof -
  have b: "r_panels (fold (\<lambda>bank h. mark_bank bank (write_bank hw bank off n h)) bs hub) = r_panels hub" for off bs n hub
    by (induction bs arbitrary: hub) (simp_all add: mark_bank_def write_bank_def set_palette_bank_def Let_def)
  have r: "r_panels (set_palette_all hw off f hub) = r_panels hub" for off f hub
    unfolding set_palette_all_def stash_def Let_def by (simp add: b)
  have d: "pixels (set_dma_enabled on hub) = pixels hub" "r_panels (set_dma_enabled on hub) = r_panels hub" for on hub
    by (simp_all add: pixels_def set_dma_enabled_def publish_dma_limit_def)
  show "pixels (st_hub (start_program hw progs cfg st)) = pixels (st_hub st)"
    "r_panels (st_hub (start_program hw progs cfg st)) = r_panels (st_hub st)"
    by (auto simp: start_program_def on_hub_def set_stream_hold_def d r split: option.split)
qed

lemma apply_registers_effect:
  "fb_back (snd (apply_registers hw cfg h)) = fb_back h"
  "length (assignments cfg) = 8 \<Longrightarrow> out < 4 \<Longrightarrow> out < panel_csr_count hw \<Longrightarrow> out < length (r_panels h) \<Longrightarrow>
    assignments cfg ! out ! 0 = Some p \<Longrightarrow>
    r_panels (snd (apply_registers hw cfg h)) ! out = panel_word (fst (panel_position cfg p)) (snd (panel_position cfg p)) 0"
proof -
  obtain h3 where h3: "snd (apply_registers hw cfg h) = fold (place_panel hw cfg) (List.product [0..<8] [0..<2]) h3"
    "fb_back h3 = fb_back h" "r_panels h3 = r_panels h"
    by (simp add: apply_registers_def MAX_OUTPUTS_def MAX_CHAIN_def set_img_param_def publish_dma_limit_def
        set_rgb_order_def set_group_origins_def Let_def)
  show "fb_back (snd (apply_registers hw cfg h)) = fb_back h"
    unfolding h3(1) using place_panels_keep h3(2) by (simp add: pixels_def)
  show "r_panels (snd (apply_registers hw cfg h)) ! out = panel_word (fst (panel_position cfg p)) (snd (panel_position cfg p)) 0"
    if "out < 4" "out < panel_csr_count hw" "out < length (r_panels h)" "assignments cfg ! out ! 0 = Some p"
    unfolding h3(1) using place_panels_slot that h3(3) by simp
qed

lemma axis:
  fixes e :: u16 and i n :: u8
  assumes "i < n" "16 dvd unat e" "unat e * unat n \<le> 4096"
  shows "unat (ucast (ucast i * e div POS_UNIT) :: u8) * 16 = unat i * unat e"
    and "unat (e * ucast n) = unat e * unat n" and "unat i * unat e + unat e \<le> unat e * unat n"
proof -
  have "Suc (unat i) * unat e \<le> unat n * unat e" using assms(1) by (intro mult_le_mono1) (simp add: word_less_nat_alt Suc_leI)
  then show s: "unat i * unat e + unat e \<le> unat e * unat n" by (simp add: mult.commute)
  have e: "unat (ucast i :: u16) = unat i" "unat (ucast n :: u16) = unat n"
    using unat_u8_less [of i] unat_u8_less [of n] by (simp_all add: unsigned_ucast_eq take_bit_eq_mod)
  show "unat (e * ucast n) = unat e * unat n" using assms(3) by (simp add: unat_word_ariths e)
  have pos: "0 < unat e \<Longrightarrow> unat i * unat e < 4096" using s assms(3) by linarith
  have m: "unat (ucast i * e) = unat i * unat e" using s assms(3) by (simp add: unat_word_ariths e)
  have "unat (ucast i * e div POS_UNIT) = unat i * unat e div 16" by (simp add: unat_div m POS_UNIT_def)
  moreover have "unat i * unat e div 16 < 256" using pos by (cases "unat e = 0") simp_all
  ultimately have "unat (ucast (ucast i * e div POS_UNIT) :: u8) = unat i * unat e div 16"
    by (simp add: unsigned_ucast_eq take_bit_eq_mod)
  then show "unat (ucast (ucast i * e div POS_UNIT) :: u8) * 16 = unat i * unat e" using assms(2) by simp
qed

lemma layout_shown:
  fixes hw :: hub_hw and progs :: "program list" and version :: str
  assumes cfg: "layout_inv cfg" "0 < panel_width cfg" "0 < panel_height cfg" "16 dvd unat (panel_width cfg)" "16 dvd unat (panel_height cfg)"
    and wall: "unat (panel_width cfg) * unat (grid_cols cfg) \<le> 4096" "unat (panel_height cfg) * unat (grid_rows cfg) \<le> 4096"
    and room: "unat (virtual_width cfg) * unat (virtual_height cfg) \<le> length (fb_back (st_hub (cd_stage cd)))"
    and regs: "panel_csr_count hw \<le> length (r_panels (st_hub (cd_stage cd)))"
    and pan: "out < 4" "out < panel_csr_count hw" "assignments cfg ! out ! 0 = Some (col, row)" "col < grid_cols cfg" "row < grid_rows cfg"
  defines "hub \<equiv> st_hub (cd_stage (apply_layout hw progs version cfg cd))"
  shows "get_img_param hub = (virtual_width cfg, virtual_length cfg) \<and>
    (\<exists>x y. get_panel_param hw (of_nat out) 0 hub = (x, y, 0) \<and>
      (\<forall>r c. r < unat (panel_height cfg) \<longrightarrow> c < unat (panel_width cfg) \<longrightarrow>
        shown hub ((unat y * 16 + r) * unat (virtual_width cfg) + (unat x * 16 + c)) =
        panel_px version (unat (panel_width cfg)) (unat (panel_height cfg)) c r))"
proof -
  let ?w = "unat (virtual_width cfg)" and ?ht = "unat (virtual_height cfg)"
  let ?tw = "unat (panel_width cfg)" and ?th = "unat (panel_height cfg)"
  let ?h0 = "st_hub (cd_stage cd)"
  define h1 where "h1 = snd (apply_registers hw cfg ?h0)"
  define h2 where "h2 = test_screen version cfg h1"
  have tw: "3 \<le> ?tw" using cfg(2,4) by (auto simp: word_less_nat_alt dvd_def)
  have th: "11 \<le> ?th" using cfg(3,5) by (auto simp: word_less_nat_alt dvd_def)
  note ax = axis [OF pan(4) cfg(4) wall(1)] and ay = axis [OF pan(5) cfg(5) wall(2)]
  have size: "?w = ?tw * unat (grid_cols cfg)" "?ht = ?th * unat (grid_rows cfg)"
    using ax(2) ay(2) by (simp_all add: virtual_width_def virtual_height_def)
  have len: "length (assignments cfg) = 8" using cfg(1) by (simp add: layout_inv_def MAX_OUTPUTS_def)
  note r = apply_registers_effect(1) [of hw cfg ?h0, folded h1_def]
    apply_registers_effect(2) [OF len pan(1,2) less_le_trans [OF pan(2) regs] pan(3), folded h1_def]
  have "?w * ?ht \<le> length (fb_back h1)" using room r(1) by simp
  note t = test_screen_effect [OF size tw th this, where version = version, folded h2_def]
  have "pixels hub = pixels h2 \<and> r_panels hub = r_panels h2"
    using start_program_keeps by (simp add: hub_def apply_layout_def h2_def h1_def Let_def split: prod.split)
  then have k: "get_img_param hub = get_img_param h2" "fb_front hub = fb_front h2" "r_panels hub = r_panels h1"
    using t(2) by (simp_all add: pixels_def get_img_param_def)
  let ?p = "panel_position cfg (col, row)"
  have reg: "get_panel_param hw (of_nat out) 0 hub = (fst ?p, snd ?p, 0)"
    by (simp only: slot_of(2) [OF pan(1,2)] k(3) r(2) panel_word_parts)
  have p: "unat (fst ?p) * 16 = unat col * ?tw" "unat (snd ?p) * 16 = unat row * ?th"
    using ax(1) ay(1) by (simp_all add: panel_position_def)
  have px: "shown hub ((unat (snd ?p) * 16 + r) * ?w + (unat (fst ?p) * 16 + c)) = panel_px version ?tw ?th c r"
    if "r < ?th" "c < ?tw" for r c
  proof -
    have "unat row * ?th + r < ?ht" "unat col * ?tw + c < ?w" using that ax(3) ay(3) size by linarith+
    from t(3) [OF this] show ?thesis using pix_div(2) [OF that(1)] pix_div(2) [OF that(2)] by (simp add: shown_def k(2) p)
  qed
  show ?thesis using t(1) k(1) reg px by (intro conjI exI [of _ "fst ?p"] exI [of _ "snd ?p"]) simp_all
qed

text \<open>
  C32. Once a layout of whole panels is in force, the image has its size, and every assigned panel's
  register holds an origin at which the glass carries, pixel for pixel, the test screen of a card with
  this one panel: version box and grid, at the panel's own place of the wall.
\<close>

theorem layout_in_force:
  assumes "layout_inv cfg" "0 < panel_width cfg" "0 < panel_height cfg" "16 dvd unat (panel_width cfg)" "16 dvd unat (panel_height cfg)"
    and "unat (panel_width cfg) * unat (grid_cols cfg) \<le> 4096" "unat (panel_height cfg) * unat (grid_rows cfg) \<le> 4096"
    and "unat (virtual_width cfg) * unat (virtual_height cfg) \<le> length (fb_back (st_hub (cd_stage cd)))"
    and "panel_csr_count hw \<le> length (r_panels (st_hub (cd_stage cd)))"
    and "out < 4" "out < panel_csr_count hw" "assignments cfg ! out ! 0 = Some (col, row)" "col < grid_cols cfg" "row < grid_rows cfg"
    and "hub = st_hub (cd_stage (apply_layout hw progs version cfg cd))"
  shows "get_img_param hub = (virtual_width cfg, virtual_length cfg) \<and>
    (\<exists>x y. get_panel_param hw (of_nat out) 0 hub = (x, y, 0) \<and>
      (\<forall>r c. r < unat (panel_height cfg) \<longrightarrow> c < unat (panel_width cfg) \<longrightarrow>
        shown hub ((unat y * 16 + r) * unat (virtual_width cfg) + (unat x * 16 + c)) =
        panel_px version (unat (panel_width cfg)) (unat (panel_height cfg)) c r))"
  unfolding assms(15) by (rule layout_shown [OF assms(1-14)])

definition demo_wall :: layout where
  "demo_wall = (single_panel 16 16)\<lparr>grid_cols := 2,
     assignments := no_assignments[0 := [Some (0, 0), None], 1 := [Some (1, 0), None]]\<rparr>"

definition demo_card :: card where
  "demo_card = \<lparr>cd_stage = demo_stage\<lparr>st_hub := demo_panel\<lparr>fb_back := replicate 512 0, fb_front := replicate 512 0,
       r_panels := replicate 4 0\<rparr>\<rparr>, cd_layout = single_panel 64 32, clk_div_reg = 0, throttle_reg = 0,
     output_mismatch = 0, module_mismatch = 0, rgb_order_unsupported = False\<rparr>"

lemma demo_wall_facts:
  "layout_inv demo_wall" "panel_width demo_wall = 16" "panel_height demo_wall = 16" "grid_cols demo_wall = 2" "grid_rows demo_wall = 1"
  "virtual_width demo_wall = 32" "virtual_height demo_wall = 16" "assignments demo_wall ! 1 ! 0 = Some (1, 0)"
proof -
  show "layout_inv demo_wall"
    by (auto simp: demo_wall_def single_panel_def no_assignments_def layout_inv_def
        MAX_OUTPUTS_def MAX_CHAIN_def MAX_GROUPS_def MAX_PROGRAM_NAME_def RGB_ORDERS_def numeral_eq_Suc)
qed (simp_all add: demo_wall_def single_panel_def no_assignments_def MAX_OUTPUTS_def virtual_width_def virtual_height_def)

lemma demo_gateware_panels: "panel_csr_count demo_gateware = 4"
  by (simp add: panel_csr_count_def get_hw_info_def demo_gateware_def OUTPUTS_def CHAIN_LENGTH_def Let_def)

lemma demo_box: "panel_px [118, 49] 16 16 2 5 = 0x00FFFFFF"
  by code_simp

theorem layout_in_force_witness:
  "\<exists>x y. get_panel_param demo_gateware 1 0 (st_hub (cd_stage (apply_layout demo_gateware [] [118, 49] demo_wall demo_card))) = (x, y, 0) \<and>
    shown (st_hub (cd_stage (apply_layout demo_gateware [] [118, 49] demo_wall demo_card))) ((unat y * 16 + 5) * 32 + (unat x * 16 + 2)) = 0x00FFFFFF"
proof -
  let ?hub = "st_hub (cd_stage (apply_layout demo_gateware [] [118, 49] demo_wall demo_card))"
  have "\<exists>x y. get_panel_param demo_gateware (of_nat 1) 0 ?hub = (x, y, 0) \<and>
      (\<forall>r c. r < unat (panel_height demo_wall) \<longrightarrow> c < unat (panel_width demo_wall) \<longrightarrow>
        shown ?hub ((unat y * 16 + r) * unat (virtual_width demo_wall) + (unat x * 16 + c)) =
        panel_px [118, 49] (unat (panel_width demo_wall)) (unat (panel_height demo_wall)) c r)"
    by (rule layout_in_force [where cd = demo_card and col = 1 and row = 0, THEN conjunct2])
      (simp_all add: demo_wall_facts demo_wall_facts(8) [unfolded One_nat_def] demo_gateware_panels demo_card_def)
  then obtain x y where reg: "get_panel_param demo_gateware 1 0 ?hub = (x, y, 0)"
    and px: "\<forall>r c. r < 16 \<longrightarrow> c < 16 \<longrightarrow> shown ?hub ((unat y * 16 + r) * 32 + (unat x * 16 + c)) = panel_px [118, 49] 16 16 c r"
    by (auto simp: demo_wall_facts)
  have "shown ?hub ((unat y * 16 + 5) * 32 + (unat x * 16 + 2)) = panel_px [118, 49] 16 16 2 5"
    by (rule px [rule_format]) simp_all
  then show ?thesis unfolding demo_box using reg by blast
qed

end
