(* ===== verification/Wiring_Screens.thy ===== *)
theory Wiring_Screens
  imports Test_Screen
begin

text \<open>
  The rest of \<^verbatim>\<open>src/patterns.rs\<close>: the pictures that show how a module is wired, and the
  table that finds a picture by the name a request gives.
\<close>

unbundle bit_operations_syntax

abbreviation black :: u32 where "black \<equiv> px_rgb 0 0 0"
abbreviation white :: u32 where "white \<equiv> px_rgb 255 255 255"

definition QUAD_W :: nat where [src_consts]: "QUAD_W = 128"
definition QUAD_H :: nat where [src_consts]: "QUAD_H = 64"

definition quarter :: "nat \<Rightarrow> nat" where "quarter h = (if h \<ge> 4 then h div 4 else 1)"

section \<open>Bands and columns\<close>

definition ramps :: "u16 \<Rightarrow> u16 \<Rightarrow> u32 list" where
  "ramps width height =
     (let w = unat width; h = unat height; band = quarter h in
      raster w h (\<lambda>col row.
        let g = min (row div band) 3; v = (if w > 1 then of_nat (col * 255 div (w - 1)) else 255) in
        if col mod 32 = 0 then white
        else if g = 0 then px_rgb v 0 0 else if g = 1 then px_rgb 0 v 0
        else if g = 2 then px_rgb 0 0 v else px_rgb v v v))"

definition colmarks :: "u16 \<Rightarrow> u16 \<Rightarrow> u32 list" where
  "colmarks width height =
     (let h = unat height; band = quarter h in
      raster (unat width) h (\<lambda>col row.
        let g = min (row div band) 3; k = col div 64 mod 8 in
        if row mod band < 4 \<and> col < (g + 1) * 8 then white
        else if col mod 64 < 2 then
          (if k = 0 then px_rgb 255 0 0 else if k = 1 then px_rgb 0 255 0 else if k = 2 then px_rgb 0 0 255
           else if k = 3 then px_rgb 255 255 0 else if k = 4 then px_rgb 255 0 255 else if k = 5 then px_rgb 0 255 255
           else if k = 6 then white else px_rgb 255 128 0)
        else black))"

definition FINE_HUES :: "u32 list" where
  "FINE_HUES = [px_rgb 255 0 0, px_rgb 255 96 0, px_rgb 255 192 0, px_rgb 192 255 0,
     px_rgb 0 255 0, px_rgb 0 255 128, px_rgb 0 255 255, px_rgb 0 128 255,
     px_rgb 0 0 255, px_rgb 128 0 255, px_rgb 255 0 255, px_rgb 255 0 128,
     px_rgb 255 255 255, px_rgb 128 128 128, px_rgb 255 128 128, px_rgb 128 255 128]"

definition logical_width :: "nat \<Rightarrow> nat \<Rightarrow> nat" where
  "logical_width w outputs = (if outputs > 0 then w div outputs else w)"

definition colmarks_fine :: "u16 \<Rightarrow> u16 \<Rightarrow> nat \<Rightarrow> u32 list" where
  "colmarks_fine width height outputs =
     (let w = unat width; logical_w = logical_width w outputs; win = logical_w - QUAD_W in
      raster w (unat height) (\<lambda>col row.
        if logical_w = 0 then black
        else let within = col mod logical_w in
        if within < win \<or> within \<ge> win + QUAD_W \<or> (within - win) mod 8 \<noteq> 0 then black
        else FINE_HUES ! ((within - win) div 8 mod 16)))"

definition row_hue :: "nat \<Rightarrow> u32" where
  "row_hue r = (if r mod 4 = 0 then px_rgb 255 0 0 else if r mod 4 = 1 then px_rgb 0 255 0
     else if r mod 4 = 2 then px_rgb 0 0 255 else white)"

definition rowid :: "u16 \<Rightarrow> u16 \<Rightarrow> u32 list" where
  "rowid width height = raster (unat width) (unat height) (\<lambda>col row. row_hue row)"

definition rowid_adv :: "u16 \<Rightarrow> u16 \<Rightarrow> u32 list" where
  "rowid_adv width height =
     raster (unat width) (unat height) (\<lambda>col row. if col mod 16 = 15 then row_hue (row + 1) else row_hue row)"

definition SHIFTS :: "nat list" where "SHIFTS = [0, 1, 2, 15]"

definition sweepcal :: "u16 \<Rightarrow> u16 \<Rightarrow> nat \<Rightarrow> u32 list" where
  "sweepcal width height scan =
     (let sc = (if scan = 0 then 64 else scan) in
      raster (unat width) (unat height) (\<lambda>col row.
        let shift = SHIFTS ! (row div sc mod 4); ks = col mod 16 + shift in
        row_hue (if ks \<ge> 16 then row + 1 else row)))"

definition chanends :: "u16 \<Rightarrow> u16 \<Rightarrow> u32 list" where
  "chanends width height =
     raster (unat width) (unat height) (\<lambda>col row.
       if col mod 16 = 0 then px_rgb 255 0 0 else if col mod 16 = 15 then px_rgb 0 0 255 else px_rgb 24 24 24)"

section \<open>Pictures of one module, repeated for each output\<close>

definition quad_src_xy :: "nat \<Rightarrow> nat \<Rightarrow> nat \<Rightarrow> nat \<Rightarrow> (nat \<times> nat) option" where
  "quad_src_xy row col logical_w scan = (if logical_w = 0 then None else Some (col mod logical_w, row))"

definition per_module :: "u16 \<Rightarrow> u16 \<Rightarrow> nat \<Rightarrow> (nat \<Rightarrow> nat \<Rightarrow> u32) \<Rightarrow> u32 list" where
  "per_module width height outputs f =
     (let w = unat width; h = unat height; scan = quarter h; logical_w = logical_width w outputs in
      raster w h (\<lambda>col row. case quad_src_xy row col logical_w scan of Some (ix, iy) \<Rightarrow> f ix iy | None \<Rightarrow> black))"

definition orient_px :: "nat \<Rightarrow> nat \<Rightarrow> u32" where
  "orient_px x y =
     (if x = 0 \<or> y = 0 \<or> x = 255 \<or> y = 127 then white
      else if x < 20 \<and> y < 20 then px_rgb 0 255 0
      else if x > 235 \<and> y < 20 then px_rgb 255 0 0
      else if x < 20 \<and> y > 107 then px_rgb 0 0 255
      else if x > 235 \<and> y > 107 then px_rgb 255 255 0
      else if x div 2 = y then px_rgb 255 0 255
      else black)"

definition remap_test :: "u16 \<Rightarrow> u16 \<Rightarrow> nat \<Rightarrow> u32 list" where
  "remap_test width height outputs = per_module width height outputs orient_px"

definition CHAN_HUES :: "u32 list" where
  "CHAN_HUES = [px_rgb 255 0 0, px_rgb 255 110 0, px_rgb 255 220 0, px_rgb 170 255 0,
     px_rgb 0 255 0, px_rgb 0 255 140, px_rgb 0 230 255, px_rgb 0 110 255,
     px_rgb 40 0 255, px_rgb 150 0 255, px_rgb 255 0 230, px_rgb 255 0 110,
     px_rgb 255 255 255, px_rgb 90 90 90, px_rgb 255 160 160, px_rgb 160 255 160]"

definition chanmap :: "u16 \<Rightarrow> u16 \<Rightarrow> nat \<Rightarrow> u32 list" where
  "chanmap width height outputs = per_module width height outputs (\<lambda>ix iy. CHAN_HUES ! (ix mod 16))"

definition chanstair :: "u16 \<Rightarrow> u16 \<Rightarrow> nat \<Rightarrow> u32 list" where
  "chanstair width height outputs = per_module width height outputs (\<lambda>ix iy.
     if iy mod QUAD_H < (ix mod 16 + 1) * 4 then (if ix div 16 mod 2 = 0 then white else px_rgb 0 200 255) else black)"

definition chan0 :: "u16 \<Rightarrow> u16 \<Rightarrow> nat \<Rightarrow> u32 list" where
  "chan0 width height outputs = per_module width height outputs (\<lambda>ix iy.
     if ix mod 16 = 0 then white else if ix mod 16 = 15 then px_rgb 255 0 0 else black)"

definition chanhalf :: "u16 \<Rightarrow> u16 \<Rightarrow> nat \<Rightarrow> u32 list" where
  "chanhalf width height outputs = per_module width height outputs (\<lambda>ix iy.
     if ix mod 16 < 8 then white else px_rgb 255 0 0)"

definition probe :: "u16 \<Rightarrow> u16 \<Rightarrow> nat \<Rightarrow> u32 list" where
  "probe width height outputs = per_module width height outputs (\<lambda>ix iy.
     let k = ix mod QUAD_W in
     if k = 0 then white else if k = 1 then px_rgb 255 0 0 else if k = 16 then px_rgb 0 255 0
     else if k = 17 then px_rgb 0 80 255 else if k = 64 then px_rgb 255 255 0
     else if k = 127 then px_rgb 255 0 255 else black)"

definition bincode :: "u16 \<Rightarrow> u16 \<Rightarrow> nat \<Rightarrow> u32 list" where
  "bincode width height outputs = per_module width height outputs (\<lambda>ix iy.
     let y = iy mod QUAD_H; band = y div 9 in
     if band \<ge> 7 \<or> y mod 9 = 8 then black
     else if bit (ix mod QUAD_W) band then (if band mod 2 = 0 then white else px_rgb 0 220 255)
     else black)"

definition redge :: "u16 \<Rightarrow> u16 \<Rightarrow> nat \<Rightarrow> u32 list" where
  "redge width height outputs = per_module width height outputs (\<lambda>ix iy.
     if ix = 2 * QUAD_W - 1 then white
     else if ix \<ge> 2 * QUAD_W - 16 then
       (if word_of_nat (2 * QUAD_W - 1) - word_of_nat ix AND (1 :: u32) = 1 then px_rgb 255 0 0 else px_rgb 0 255 0)
     else black)"

definition hstripe :: "u16 \<Rightarrow> u16 \<Rightarrow> nat \<Rightarrow> u32 list" where
  "hstripe width height outputs = per_module width height outputs (\<lambda>ix iy.
     if iy mod QUAD_H mod 2 = 0 then white else black)"

section \<open>By name\<close>

definition solid_white :: "u16 \<Rightarrow> u16 \<Rightarrow> u32 list" where "solid_white width height = solid width height 255 255 255"
definition solid_red :: "u16 \<Rightarrow> u16 \<Rightarrow> u32 list" where "solid_red width height = solid width height 255 0 0"
definition solid_green :: "u16 \<Rightarrow> u16 \<Rightarrow> u32 list" where "solid_green width height = solid width height 0 255 0"
definition solid_blue :: "u16 \<Rightarrow> u16 \<Rightarrow> u32 list" where "solid_blue width height = solid width height 0 0 255"

definition named_patterns :: "nat \<Rightarrow> (str \<times> (u16 \<Rightarrow> u16 \<Rightarrow> u32 list)) list" where
  "named_patterns outputs =
     [(lit ''grid'', grid), (lit ''quad'', quadrants), (lit ''ramp'', ramps), (lit ''cols'', colmarks),
      (lit ''cols8'', \<lambda>w h. colmarks_fine w h outputs), (lit ''remap'', \<lambda>w h. remap_test w h outputs),
      (lit ''redge'', \<lambda>w h. redge w h outputs), (lit ''hstripe'', \<lambda>w h. hstripe w h outputs),
      (lit ''chanends'', chanends), (lit ''rowid'', rowid), (lit ''rowid_adv'', rowid_adv),
      (lit ''sweepcal'', \<lambda>w h. sweepcal w h (quarter (unat h))), (lit ''chanmap'', \<lambda>w h. chanmap w h outputs),
      (lit ''stair'', \<lambda>w h. chanstair w h outputs), (lit ''chan0'', \<lambda>w h. chan0 w h outputs),
      (lit ''chanhalf'', \<lambda>w h. chanhalf w h outputs), (lit ''probe'', \<lambda>w h. probe w h outputs),
      (lit ''bincode'', \<lambda>w h. bincode w h outputs), (lit ''rainbow'', rainbow),
      (lit ''rainbow_anim'', \<lambda>w h. animated_rainbow w h 0), (lit ''white'', solid_white), (lit ''red'', solid_red),
      (lit ''green'', solid_green), (lit ''blue'', solid_blue)]"

text \<open>Every picture has exactly one word for each pixel of the image.\<close>

lemmas pattern_defs =
  grid_def quadrants_def ramps_def colmarks_def colmarks_fine_def remap_test_def redge_def hstripe_def chanends_def
  rowid_def rowid_adv_def sweepcal_def chanmap_def chanstair_def chan0_def chanhalf_def probe_def bincode_def
  rainbow_def animated_rainbow_def solid_white_def solid_red_def solid_green_def solid_blue_def solid_def per_module_def

lemma pattern_fills:
  assumes "(name, f) \<in> set (named_patterns outputs)"
  shows "length (f w h) = unat w * unat h"
proof -
  have "list_all (\<lambda>(name, f). length (f w h) = unat w * unat h) (named_patterns outputs)"
    by (simp only: named_patterns_def list.pred_inject prod.case pattern_defs Let_def length_raster length_replicate simp_thms)
  then show ?thesis using assms by (auto simp: list_all_iff)
qed

end
