(* ===== verification/Net_Tick.thy ===== *)
theory Net_Tick
  imports Layout_Apply Wiring_Screens Net_Frames Artnet
begin

text \<open>
  \<^verbatim>\<open>src/network.rs\<close>, what the main loop calls and the socket handlers of the pixel path:
  \<^verbatim>\<open>bitmap_tick\<close>, \<^verbatim>\<open>bitmap_present_tick\<close>, the measurements they run, the animation of
  \<^verbatim>\<open>src/menu.rs\<close>, and the packets that come through smoltcp. The pointers to the
  framebuffer and the statistics are set at start-up, so their null tests always pass.
\<close>

datatype animation = NoAnimation | Rainbow u32

record board =
  bd_card :: card
  bd_isr :: isr
  anim :: animation
  profile_state :: nat
  profile_kind :: nat
  bd_stats :: bitmap_stats
  last_bitmap :: int

definition bd_stage :: "board \<Rightarrow> stage" where "bd_stage bd = cd_stage (bd_card bd)"
definition bd_hub :: "board \<Rightarrow> hub75" where "bd_hub bd = st_hub (bd_stage bd)"
definition bd_rx :: "board \<Rightarrow> receiver" where "bd_rx bd = st_rx (bd_stage bd)"

definition with_stage :: "(stage \<Rightarrow> stage) \<Rightarrow> board \<Rightarrow> board" where
  "with_stage f bd = bd\<lparr>bd_card := (bd_card bd)\<lparr>cd_stage := f (cd_stage (bd_card bd))\<rparr>\<rparr>"

definition with_rx :: "receiver \<Rightarrow> hub75 \<Rightarrow> board \<Rightarrow> board" where
  "with_rx rx h = with_stage (\<lambda>st. st\<lparr>st_rx := rx, st_hub := h\<rparr>)"

section \<open>Packets\<close>

text \<open>A frame on the glass also ends the animation of the menu.\<close>

definition took_packet :: "int \<Rightarrow> bool \<times> receiver \<times> hub75 \<Rightarrow> board \<Rightarrow> board" where
  "took_packet t = (\<lambda>(presented, rx, h) bd.
     (with_rx rx (if presented then hub_on h else h) bd)
       \<lparr>anim := if presented then NoAnimation else anim bd, bd_stats := stats rx, last_bitmap := t\<rparr>)"

fun handle_bitmap_smoltcp :: "hub_hw \<Rightarrow> bool \<Rightarrow> int \<Rightarrow> u8 list list \<Rightarrow> board \<Rightarrow> board option" where
  "handle_bitmap_smoltcp hw al t [] bd = Some bd"
| "handle_bitmap_smoltcp hw al t (data # ds) bd =
     Option.bind (process_packet hw al data t (bd_rx bd) (bd_hub bd))
       (\<lambda>r. handle_bitmap_smoltcp hw al t ds (took_packet t r bd))"

text \<open>The fast path works on the same statics.\<close>

definition fast_frame :: "hub_hw \<Rightarrow> bool \<Rightarrow> int \<Rightarrow> eth_frame \<Rightarrow> board \<Rightarrow> board option" where
  "fast_frame hw al t f bd =
     (case process_raw_bitmap hw al f ((bd_isr bd)\<lparr>i_hub := bd_hub bd, i_rx := bd_rx bd, i_time := t,
             last_bitmap_ms := last_bitmap bd, i_published := bd_stats bd, anim_none := (anim bd = NoAnimation)\<rparr>) of
        None \<Rightarrow> None
      | Some (_, st) \<Rightarrow> Some ((with_rx (i_rx st) (i_hub st) bd)
          \<lparr>bd_isr := st, bd_stats := i_published st, last_bitmap := last_bitmap_ms st,
           anim := if anim_none st then NoAnimation else anim bd\<rparr>))"

definition artnet_in :: "hub_hw \<Rightarrow> u8 list list \<Rightarrow> board \<Rightarrow> board" where
  "artnet_in hw ds = with_stage (on_hub (handle_artnet hw ds))"

section \<open>Measurements\<close>

text \<open>
  A closure under measurement runs at the given times; only what it writes is modelled, not the
  nanoseconds. \<^const>\<open>None\<close>: a slice past the end of the back buffer.
\<close>

definition run_ctx :: "nat \<Rightarrow> nat \<Rightarrow> stage \<Rightarrow> int \<Rightarrow> ctx" where
  "run_ctx w h st t = \<lparr>c_w = of_nat w, c_h = of_nat h, c_frame = prog_frame st, c_time = t, c_values = st_values st\<rparr>"

definition bench_run :: "hub_hw \<Rightarrow> program list \<Rightarrow> int list \<Rightarrow> stage \<Rightarrow> stage" where
  "bench_run hw progs ts st =
     (let (wd, len) = get_img_param (st_hub st) in
      if wd = 0 \<or> len = 0 then st
      else let w = unat wd; h = unat len div w;
        row = pr_row (case prog_fn st of Some p \<Rightarrow> p | None \<Rightarrow> progs ! 0);
        st1 = on_hub (put_back (replicate (length (back_buffer (st_hub st))) 0)) st;
        st2 = fold (\<lambda>t s. on_hub (\<lambda>hub. put_back (render_rows row (run_ctx w h s t) w 0 w [0..<h] (back_buffer hub)) hub) s) ts st1 in
      on_hub (set_palette_all hw 0 palette_default) st2)"

definition profile_row :: "row_fn \<Rightarrow> nat \<Rightarrow> nat \<Rightarrow> nat \<Rightarrow> int list \<Rightarrow> stage \<Rightarrow> stage option" where
  "profile_row row w h y ts st =
     (if y * w + w > length (back_buffer (st_hub st)) then None
      else Some (fold (\<lambda>t s. on_hub (\<lambda>hub.
        put_back (splice (y * w) (row (run_ctx w h s t) y 0 (take w (drop (y * w) (back_buffer hub)))) (back_buffer hub)) hub) s) ts st))"

fun profile_rows :: "row_fn \<Rightarrow> nat \<Rightarrow> nat \<Rightarrow> nat list \<Rightarrow> int list \<Rightarrow> stage \<Rightarrow> stage option" where
  "profile_rows row w h [] ts st = Some st"
| "profile_rows row w h (y # ys) ts st = Option.bind (profile_row row w h y ts st) (profile_rows row w h ys ts)"

definition PROFILE_MAX_ROWS :: nat where [src_consts]: "PROFILE_MAX_ROWS = 256"

definition profile_run :: "hub_hw \<Rightarrow> program list \<Rightarrow> int list \<Rightarrow> board \<Rightarrow> board option" where
  "profile_run hw progs ts bd =
     (if profile_state bd \<noteq> 1 then Some bd
      else if profile_kind bd = 1 then Some (with_stage (bench_run hw progs ts) (bd\<lparr>profile_state := 3\<rparr>))
      else let (wd, len) = get_img_param (bd_hub bd) in
      if wd = 0 \<or> len = 0 then Some (bd\<lparr>profile_state := 0\<rparr>)
      else let w = unat wd; h = min (unat len div w) PROFILE_MAX_ROWS in
      if w > length (back_buffer (bd_hub bd)) then None
      else let bd1 = with_stage (on_hub (put_back (replicate w 0))) bd in
      case prog_fn (bd_stage bd1) of
        None \<Rightarrow> Some (bd1\<lparr>profile_state := 3\<rparr>)
      | Some p \<Rightarrow> map_option (\<lambda>st. with_stage (\<lambda>_. st) (bd1\<lparr>profile_state := 3\<rparr>))
          (profile_rows (pr_row p) w h [0..<h] ts (bd_stage bd1)))"

section \<open>The main loop\<close>

definition bitmap_present_tick :: "hub_hw \<Rightarrow> int \<Rightarrow> board \<Rightarrow> board option" where
  "bitmap_present_tick hw t bd =
     (if prog_active (bd_stage bd) then Some bd
      else case present_done_now hw t (bd_rx bd) (bd_hub bd) of
        None \<Rightarrow> None
      | Some (presented, rx, h) \<Rightarrow> Some (with_rx rx (if presented then hub_on (sync_palette_bank hw h) else h) bd))"

definition bitmap_tick :: "hub_hw \<Rightarrow> program list \<Rightarrow> bool \<Rightarrow> int list \<Rightarrow> int \<Rightarrow> board \<Rightarrow> board option" where
  "bitmap_tick hw progs act ts t bd =
     (if profile_state bd = 1 then profile_run hw progs ts bd
      else if prog_active (bd_stage bd) then Some (with_stage (program_tick hw progs t act) bd)
      else case receiver_tick hw t (bd_rx bd) (bd_hub bd) of
        None \<Rightarrow> None
      | Some (presented, rx, h) \<Rightarrow>
         Some ((with_rx rx (if presented then hub_on (sync_palette_bank hw h) else h) bd)
           \<lparr>anim := if presented then NoAnimation else anim bd, bd_stats := stats rx\<rparr>))"

definition is_streaming :: "int \<Rightarrow> board \<Rightarrow> bool" where
  "is_streaming t bd \<longleftrightarrow> t > 10000 \<and> t - last_bitmap bd < 200"

definition animation_tick :: "board \<Rightarrow> board" where
  "animation_tick bd =
     (case anim bd of
        NoAnimation \<Rightarrow> bd
      | Rainbow ph \<Rightarrow>
         (let bd1 = bd\<lparr>anim := Rainbow (ph + 1)\<rparr>; (w, len) = get_img_param (bd_hub bd1) in
          if w = 0 then bd1
          else let h = (ucast (len div ucast w) :: u16) in
          if h = 0 then bd1
          else with_stage (on_hub (\<lambda>hub. swap_buffers (write_img_data 0 (animated_rainbow w h (ph + 1)) hub))) bd1))"

end
