(* ===== verification/Net_Api.thy ===== *)
theory Net_Api
  imports Net_Tick Net_Json Flash_System
begin

text \<open>
  \<^verbatim>\<open>src/network.rs\<close>, the HTTP API: the table of routes and every handler that changes
  state, over the whole card. An answer is modelled as what it tells the caller apart from its
  wording: a report, an error in a JSON body, or a plain page with its status. The routes that an
  S-PWM build adds are compiled out. \<open>t\<close> is \<^verbatim>\<open>TIME_MS\<close>.
\<close>

unbundle bit_operations_syntax

datatype reply = Report | Refused str | Plain nat str

record 's node =
  nd_board :: board
  nd_flash :: "'s flash_sys"
  boot_server :: "u8 list option"
  pixel_filter :: bool
  swap_whole :: bool
  isr_prof :: "u64 \<times> u32 \<times> u32"
  reboot_at :: int

definition on_board :: "(board \<Rightarrow> board) \<Rightarrow> 's node \<Rightarrow> 's node" where
  "on_board f nd = nd\<lparr>nd_board := f (nd_board nd)\<rparr>"

definition on_stage :: "(stage \<Rightarrow> stage) \<Rightarrow> 's node \<Rightarrow> 's node" where
  "on_stage f = on_board (with_stage f)"

definition nd_stage :: "'s node \<Rightarrow> stage" where "nd_stage nd = bd_stage (nd_board nd)"

section \<open>Display\<close>

definition api_program_set :: "hub_hw \<Rightarrow> program list \<Rightarrow> str \<Rightarrow> bool \<Rightarrow> 's node \<Rightarrow> reply \<times> 's node" where
  "api_program_set hw progs body on nd =
     (Report, on_stage (program_set hw progs (pixel_filter nd) (if on then json_get_str body (lit ''name'') else None) on) nd)"

definition api_hold_set :: "bool \<Rightarrow> 's node \<Rightarrow> reply \<times> 's node" where
  "api_hold_set on nd = (Report, on_stage (set_stream_hold on) nd)"

definition api_dma_set :: "bool \<Rightarrow> 's node \<Rightarrow> reply \<times> 's node" where
  "api_dma_set on nd = (Report, on_stage (on_hub (set_dma_enabled on)) nd)"

definition parse_usize :: "str \<Rightarrow> u32 option" where
  "parse_usize s = (if s \<noteq> [] \<and> hd s = 43 \<and> tl s \<noteq> [] then parse_dec (tl s) else parse_dec s)"

definition wanted_order :: "str \<Rightarrow> nat option" where
  "wanted_order raw =
     (let want = (case json_get_str raw (lit ''order'') of Some o1 \<Rightarrow> o1 | None \<Rightarrow> trim raw) in
      case find (\<lambda>i. eq_ignore_ascii_case (RGB_ORDERS ! i) want) [0..<length RGB_ORDERS] of
        Some i \<Rightarrow> Some i
      | None \<Rightarrow> (case parse_usize want of Some n \<Rightarrow> if n < 6 then Some (unat n) else None | None \<Rightarrow> None))"

definition api_rgb_order :: "hub_hw \<Rightarrow> str \<Rightarrow> 's node \<Rightarrow> reply \<times> 's node" where
  "api_rgb_order hw body nd =
     (case wanted_order body of
        None \<Rightarrow> (Refused (lit ''unknown order''), nd)
      | Some i \<Rightarrow> (Report, on_stage (on_hub (\<lambda>h. snd (set_rgb_order hw (of_nat i) h))) nd))"

definition api_auto_swap :: "bool \<Rightarrow> 's node \<Rightarrow> reply \<times> 's node" where
  "api_auto_swap on nd = (Report, on_stage (on_hub (set_auto_swap on)) nd)"

definition api_swap_whole :: "bool \<Rightarrow> 's node \<Rightarrow> reply \<times> 's node" where
  "api_swap_whole on nd = (Report, nd\<lparr>swap_whole := on\<rparr>)"

definition set_pixel_filter :: "bool \<Rightarrow> 's node \<Rightarrow> 's node" where
  "set_pixel_filter on nd =
     on_stage (\<lambda>st. (on_hub (set_auto_swap (on \<and> \<not> prog_active st)) st)
         \<lparr>st_rx := (let rx = set_hw_filter on (st_rx st) in if on then forget_frame rx else rx)\<rparr>)
       (nd\<lparr>pixel_filter := on\<rparr>)"

definition api_hw_filter :: "bool option \<Rightarrow> 's node \<Rightarrow> reply \<times> 's node" where
  "api_hw_filter set_to nd = (Report, case set_to of Some on \<Rightarrow> set_pixel_filter on nd | None \<Rightarrow> nd)"

definition api_cpu_pixels :: "bool \<Rightarrow> 's node \<Rightarrow> reply \<times> 's node" where
  "api_cpu_pixels on nd = (Report, on_stage (\<lambda>st. st\<lparr>st_rx := set_cpu_pixels on (st_rx st)\<rparr>) nd)"

definition api_display :: "bool \<Rightarrow> 's node \<Rightarrow> reply \<times> 's node" where
  "api_display on nd = (Report, on_stage (on_hub (if on then hub_on else hub_off)) nd)"

text \<open>
  The picture is written whole before the swap. The wait for twenty refreshes of the panel is
  bounded and changes nothing.
\<close>

definition show_pattern :: "u32 list \<Rightarrow> bool \<Rightarrow> stage \<Rightarrow> stage" where
  "show_pattern pict moving st =
     (let st1 = on_hub (\<lambda>h. swap_buffers (write_img_data 0 pict h)) st;
          st2 = set_stream_hold True (on_hub (set_mode FullColor) (st1\<lparr>prog_active := False\<rparr>));
          st3 = on_hub hub_on (st2\<lparr>st_rx := invalidate_mode_cache (st_rx st2)\<rparr>) in
      if moving then st3 else on_hub hub_off st3)"

definition api_display_pattern :: "str \<Rightarrow> 's node \<Rightarrow> reply \<times> 's node" where
  "api_display_pattern body nd =
     (case json_get_str body (lit ''name'') of
        None \<Rightarrow> (Plain 400 (lit ''missing '' @ 34 # lit ''name'' @ [34]), nd)
      | Some name \<Rightarrow>
         (let (w, len) = get_img_param (st_hub (nd_stage nd));
              h = (if w > 0 then ucast (len div ucast w) else 0) :: u16 in
          if w = 0 \<or> h = 0 then (Plain 400 (lit ''image params not set''), nd)
          else case map_of (named_patterns (unat OUTPUTS)) name of
            None \<Rightarrow> (Plain 400 (lit ''unknown pattern''), nd)
          | Some pict \<Rightarrow>
             (let moving = (name = lit ''rainbow_anim'') in
              (Report, on_board (\<lambda>bd. (with_stage (show_pattern (pict w h) moving) bd)
                 \<lparr>anim := if moving then Rainbow 0 else NoAnimation\<rparr>) nd))))"

section \<open>Measurements\<close>

text \<open>A measurement is queued by one request, run by the main loop, and collected by another.\<close>

definition api_profile :: "'s node \<Rightarrow> reply \<times> 's node" where
  "api_profile nd =
     (let s = profile_state (nd_board nd) in
      if s = 0 then
        (if \<not> prog_active (nd_stage nd) then (Refused (lit ''no program running''), nd)
         else (Report, on_board (\<lambda>bd. bd\<lparr>profile_kind := 0, profile_state := 1\<rparr>) nd))
      else if s = 1 \<or> s = 2 then (Report, nd)
      else (Report, on_board (\<lambda>bd. bd\<lparr>profile_state := 0\<rparr>) nd))"

definition api_bench :: "'s node \<Rightarrow> reply \<times> 's node" where
  "api_bench nd =
     (let s = profile_state (nd_board nd) in
      if s = 0 then (Report, on_board (\<lambda>bd. bd\<lparr>profile_kind := 1, profile_state := 1\<rparr>) nd)
      else if s = 1 \<or> s = 2 then (Report, nd)
      else (Report, on_board (\<lambda>bd. bd\<lparr>profile_state := 0\<rparr>) nd))"

definition api_isr_prof :: "bool \<Rightarrow> 's node \<Rightarrow> reply \<times> 's node" where
  "api_isr_prof reset nd = (Report, if reset then nd\<lparr>isr_prof := (0, 0, 0)\<rparr> else nd)"

section \<open>Flash\<close>

definition on_flash :: "('s flash_sys \<Rightarrow> 's flash_sys) \<Rightarrow> 's node \<Rightarrow> 's node" where
  "on_flash f nd = nd\<lparr>nd_flash := f (nd_flash nd)\<rparr>"

definition api_flash_job_post :: "'s spi_ops \<Rightarrow> str \<Rightarrow> 's node \<Rightarrow> reply \<times> 's node" where
  "api_flash_job_post ops body nd =
     (let named = json_get_str body (lit ''kind'') in
      if named \<noteq> Some (lit ''erase'') \<and> named \<noteq> Some (lit ''selftest'')
      then (Refused (lit ''kind must be erase or selftest''), nd)
      else let kind = (if named = Some (lit ''erase'') then Erase else SelfTest) in
      case (json_get_u32 body (lit ''addr''), json_get_u32 body (lit ''len'')) of
        (Some addr, Some len) \<Rightarrow>
          (case queue ops kind addr len (fs_world (nd_flash nd)) (fs_job (nd_flash nd)) of
             (Inr _, job) \<Rightarrow> (Report, on_flash (\<lambda>s. s\<lparr>fs_job := job\<rparr>) nd)
           | (Inl e, job) \<Rightarrow> (Refused (lit (as_str e)), on_flash (\<lambda>s. s\<lparr>fs_job := job\<rparr>) nd))
      | _ \<Rightarrow> (Refused (lit ''addr and len are required''), nd))"

definition ip_word :: "u8 list \<Rightarrow> u32" where
  "ip_word o1 = push_bit 24 (ucast (o1 ! 0)) OR push_bit 16 (ucast (o1 ! 1)) OR push_bit 8 (ucast (o1 ! 2)) OR ucast (o1 ! 3)"

definition fetch_server :: "str \<Rightarrow> 's node \<Rightarrow> u8 list option" where
  "fetch_server body nd =
     (case Option.bind (json_get_str body (lit ''server'')) parse_ipv4 of Some ip \<Rightarrow> Some ip | None \<Rightarrow> boot_server nd)"

definition api_flash_bitstream_post :: "'s spi_ops \<Rightarrow> str \<Rightarrow> 's node \<Rightarrow> reply \<times> 's node" where
  "api_flash_bitstream_post ops body nd =
     (case json_get_str body (lit ''file'') of
        None \<Rightarrow> (Refused (lit ''file is required''), nd)
      | Some file \<Rightarrow>
         if file = [] then (Refused (lit ''file is required''), nd)
         else if loader_is_active (fs_loader (nd_flash nd)) then (Refused (lit ''an update is already running''), nd)
         else case fetch_server body nd of
           None \<Rightarrow> (Refused (lit ''no boot server known yet; pass server''), nd)
         | Some ip \<Rightarrow>
            (case loader_start ops (ip_word ip) (as_bytes file) (fs_world (nd_flash nd)) (fs_loader (nd_flash nd)) of
               (Inr _, l) \<Rightarrow> (Report, on_flash (\<lambda>s. s\<lparr>fs_loader := l\<rparr>) nd)
             | (Inl e, l) \<Rightarrow> (Refused (lit (as_str e)), on_flash (\<lambda>s. s\<lparr>fs_loader := l\<rparr>) nd)))"

text \<open>The digits that follow a key, wherever they are; the sum wraps.\<close>

fun digits_after :: "str \<Rightarrow> u32 \<Rightarrow> bool \<Rightarrow> u32 \<times> bool" where
  "digits_after [] n seen = (n, seen)"
| "digits_after (c # cs) n seen =
     (if digit c then digits_after cs (n * 10 + of_nat (c - 48)) True
      else if seen then (n, seen) else digits_after cs n seen)"

definition sr_value :: "str \<Rightarrow> str \<Rightarrow> u8" where
  "sr_value key body =
     (case find_sub key body of
        None \<Rightarrow> 0
      | Some i \<Rightarrow> (case digits_after (drop (i + 5) body) 0 False of (n, seen) \<Rightarrow>
          if seen \<and> n \<le> 255 then ucast n else 0))"

definition SR2_KEY :: str where "SR2_KEY = 34 # lit ''sr2'' @ [34]"
definition SR3_KEY :: str where "SR3_KEY = 34 # lit ''sr3'' @ [34]"

definition api_flash_drive :: "'s spi_ops \<Rightarrow> str \<Rightarrow> 's node \<Rightarrow> reply \<times> 's node" where
  "api_flash_drive ops body nd =
     (let sr2 = (find_sub SR2_KEY body \<noteq> None);
          want = (if sr2 then sr_value SR2_KEY body else sr_value SR3_KEY body) in
      (Report, on_flash (\<lambda>s. s\<lparr>fs_world := drive_status ops sr2 want (fs_world s)\<rparr>) nd))"

definition api_flash_verify :: "str \<Rightarrow> 's node \<Rightarrow> reply \<times> 's node" where
  "api_flash_verify body nd =
     (case (json_get_u32 body (lit ''addr''), json_get_u32 body (lit ''len'')) of
        (Some addr, Some len) \<Rightarrow>
          if len = 0 \<or> sat_add addr len > FLASH_SIZE then (Refused (lit ''out of range''), nd) else (Report, nd)
      | _ \<Rightarrow> (Refused (lit ''addr and len are required''), nd))"

definition api_reboot :: "int \<Rightarrow> 's node \<Rightarrow> reply \<times> 's node" where
  "api_reboot t nd = (Report, nd\<lparr>reboot_at := t + 300\<rparr>)"

text \<open>The main loop's side of it: is the reset due.\<close>

definition reboot_tick :: "int \<Rightarrow> 's node \<Rightarrow> bool" where
  "reboot_tick t nd \<longleftrightarrow> reboot_at nd \<noteq> 0 \<and> t \<ge> reboot_at nd"

section \<open>Routes\<close>

text \<open>
  Reports that change nothing. (\<^verbatim>\<open>api_dma_arrival\<close> panics when the gateware announces more
  than 512 chunks; a panic is no step of the model.)
\<close>

definition report_paths :: "str list" where
  "report_paths = map lit [''/'', ''/api/status'', ''/api/layout'', ''/api/display'', ''/api/bitmap/stats'', ''/api/dmatest'',
     ''/api/dma/arrival'', ''/api/rgborder'', ''/api/programs'', ''/api/fb'', ''/api/palette'', ''/api/flash'',
     ''/api/flashbench'', ''/api/flash/job'', ''/api/bitstream'', ''/api/gateware'', ''/api/flash/bitstream'', ''/api/values'']"

definition get_request :: "str \<Rightarrow> 's node \<Rightarrow> reply \<times> 's node" where
  "get_request p nd =
     (if p \<in> set report_paths then (Report, nd)
      else if p = lit ''/api/isrprof'' then api_isr_prof False nd
      else if p = lit ''/api/hwfilter'' then api_hw_filter None nd
      else if p = lit ''/api/bench'' then api_bench nd
      else if p = lit ''/api/profile'' then api_profile nd
      else (Plain 404 (lit ''Not Found''), nd))"

type_synonym 's handler = "str \<Rightarrow> 's node \<Rightarrow> reply \<times> 's node"

definition switches :: "(str \<times> 's handler) list" where
  "switches =
     [(lit ''/api/dma/on'', \<lambda>_. api_dma_set True), (lit ''/api/dma/off'', \<lambda>_. api_dma_set False),
      (lit ''/api/autoswap/on'', \<lambda>_. api_auto_swap True), (lit ''/api/autoswap/off'', \<lambda>_. api_auto_swap False),
      (lit ''/api/swapwhole/on'', \<lambda>_. api_swap_whole True), (lit ''/api/swapwhole/off'', \<lambda>_. api_swap_whole False),
      (lit ''/api/isrprof/reset'', \<lambda>_. api_isr_prof True), (lit ''/api/peaks/clear'', \<lambda>_ nd. (Report, nd)),
      (lit ''/api/hwfilter/on'', \<lambda>_. api_hw_filter (Some True)), (lit ''/api/hwfilter/off'', \<lambda>_. api_hw_filter (Some False)),
      (lit ''/api/cpupix/on'', \<lambda>_. api_cpu_pixels True), (lit ''/api/cpupix/off'', \<lambda>_. api_cpu_pixels False),
      (lit ''/api/fbdump'', \<lambda>_ nd. (Report, nd)),
      (lit ''/api/display/hold/on'', \<lambda>_. api_hold_set True), (lit ''/api/display/hold/off'', \<lambda>_. api_hold_set False),
      (lit ''/api/display/on'', \<lambda>_. api_display True), (lit ''/api/display/off'', \<lambda>_. api_display False)]"

definition api_values_post :: "int \<Rightarrow> http_request \<Rightarrow> 's node \<Rightarrow> reply \<times> 's node" where
  "api_values_post t req nd = (Report, on_stage (\<lambda>st. st\<lparr>st_values := snd (api_values_set req t (st_values st))\<rparr>) nd)"

definition post_routes :: "hub_hw \<Rightarrow> program list \<Rightarrow> 's spi_ops \<Rightarrow> int \<Rightarrow> (str \<times> 's handler) list" where
  "post_routes hw progs ops t =
     switches @
     [(lit ''/api/rgborder'', api_rgb_order hw),
      (lit ''/api/program/on'', \<lambda>b. api_program_set hw progs b True),
      (lit ''/api/program/off'', \<lambda>b. api_program_set hw progs b False),
      (lit ''/api/display/pattern'', api_display_pattern),
      (lit ''/api/flash/drive'', api_flash_drive ops), (lit ''/api/flash/job'', api_flash_job_post ops),
      (lit ''/api/flash/verify'', api_flash_verify), (lit ''/api/flash/bitstream'', api_flash_bitstream_post ops),
      (lit ''/api/reboot'', \<lambda>_. api_reboot t)]"

definition handle_http_request ::
  "hub_hw \<Rightarrow> program list \<Rightarrow> 's spi_ops \<Rightarrow> int \<Rightarrow> http_request \<Rightarrow> 's node \<Rightarrow> reply \<times> 's node" where
  "handle_http_request hw progs ops t req nd =
     (case req_method req of
        Get \<Rightarrow> get_request (path req) nd
      | Post \<Rightarrow>
         if path req = lit ''/api/values'' then api_values_post t req nd
         else (case map_of (post_routes hw progs ops t) (path req) of
           Some h \<Rightarrow> h (body_str req) nd
         | None \<Rightarrow> (Plain 404 (lit ''Not Found''), nd))
      | Unknown \<Rightarrow> (Plain 404 (lit ''Not Found''), nd))"

end
