(* ===== verification/Net_Start.thy ===== *)
theory Net_Start
  imports Net_Api Tftp_Config
begin

text \<open>
  \<^verbatim>\<open>src/network.rs\<close>, how the card finds its place on the network: DHCP, the copies of
  its addresses in the gateware's filters, the name of its configuration file, and the fetch that
  puts a layout into force. smoltcp's DHCP client is a parameter: the event a poll of it gives.
\<close>

unbundle bit_operations_syntax

section \<open>Addresses in the filters\<close>

text \<open>The two writes to the 48-bit register of the hardware address, in order.\<close>

datatype mac_write = MacHigh u32 | MacLow u32

definition mac_word :: "u8 list \<Rightarrow> u64" where
  "mac_word m = push_bit 40 (ucast (m ! 0)) OR push_bit 32 (ucast (m ! 1)) OR push_bit 24 (ucast (m ! 2))
     OR push_bit 16 (ucast (m ! 3)) OR push_bit 8 (ucast (m ! 4)) OR ucast (m ! 5)"

definition publish_hw_filter_mac :: "u8 list \<Rightarrow> mac_write list" where
  "publish_hw_filter_mac m =
     (let full = mac_word m in
      [MacHigh (ucast (drop_bit 32 full AND 0xFFFF)), MacLow (ucast (full AND 0xFFFFFFFF))])"

text \<open>The register is one 48-bit word that a write of the low half commits.\<close>

fun mac_commit :: "mac_write list \<Rightarrow> u32 \<Rightarrow> u64 \<Rightarrow> u64" where
  "mac_commit [] hi reg = reg"
| "mac_commit (MacHigh v # ws) hi reg = mac_commit ws v reg"
| "mac_commit (MacLow v # ws) hi reg = mac_commit ws hi (push_bit 32 (ucast hi) OR ucast v)"

lemma halves_join:
  fixes w :: "u64"
  assumes "drop_bit 48 w = 0"
  shows "push_bit 32 (ucast (ucast (drop_bit 32 w AND 0xFFFF) :: u32)) OR ucast (ucast (w AND 0xFFFFFFFF) :: u32) = w"
proof (rule bit_word_eqI)
  fix n assume n: "n < LENGTH(64)"
  have f: "(0xFFFF :: u64) = mask 16" "(0xFFFFFFFF :: u64) = mask 32" by (simp_all add: mask_eq_exp_minus_1)
  have b1: "bit (ucast (ucast (x::u64) :: u32) :: u64) k \<longleftrightarrow> k < 32 \<and> bit x k" for x k
    using bit_imp_le_length [of x k] by (auto simp: bit_ucast_iff)
  have hi: "\<not> bit w n" if "48 \<le> n"
    using arg_cong [OF assms, of "\<lambda>v. bit v (n - 48)"] that by (simp add: bit_drop_bit_eq)
  show "bit (push_bit 32 (ucast (ucast (drop_bit 32 w AND 0xFFFF) :: u32)) OR ucast (ucast (w AND 0xFFFFFFFF) :: u32) :: u64) n = bit w n"
    unfolding f bit_or_iff bit_push_bit_iff b1 bit_and_iff bit_mask_iff bit_drop_bit_eq comp_apply
    using n hi by (cases "n < 32"; cases "n < 48") auto
qed
lemma six_bytes:
  "drop_bit 48 (push_bit 40 (ucast (a :: u8)) OR push_bit 32 (ucast (b :: u8)) OR push_bit 24 (ucast (c :: u8))
     OR push_bit 16 (ucast (d :: u8)) OR push_bit 8 (ucast (e :: u8)) OR ucast (f :: u8) :: u64) = 0"
proof (rule bit_word_eqI)
  fix n assume "n < LENGTH(64)"
  have z: "\<not> bit (ucast (x :: u8) :: u64) k" if "8 \<le> k" for x k
    using bit_imp_le_length [of x k] that by (auto simp: bit_ucast_iff)
  show "bit (drop_bit 48 (push_bit 40 (ucast a) OR push_bit 32 (ucast b) OR push_bit 24 (ucast c)
     OR push_bit 16 (ucast d) OR push_bit 8 (ucast e) OR ucast f :: u64)) n = bit (0 :: u64) n"
    unfolding bit_drop_bit_eq comp_apply bit_or_iff bit_push_bit_iff by (simp add: z)
qed

lemma mac_published: "mac_commit (publish_hw_filter_mac m) hi reg = mac_word m"
  using halves_join [OF six_bytes [of "m ! 0" "m ! 1" "m ! 2" "m ! 3" "m ! 4" "m ! 5"]]
  by (simp add: publish_hw_filter_mac_def mac_word_def Let_def)

section \<open>The configuration file\<close>

definition HEX :: "u8 list" where "HEX = bytes ''0123456789abcdef''"

definition hex_pair :: "u8 \<Rightarrow> u8 list" where
  "hex_pair b = [HEX ! unat (drop_bit 4 b), HEX ! unat (b AND 0xF)]"

definition config_filename :: "u8 list \<Rightarrow> u8 list" where
  "config_filename m = concat (map (\<lambda>i. hex_pair (m ! i) @ (if i < 5 then [45] else [])) [0..<6]) @ bytes ''.yml''"

section \<open>DHCP\<close>

datatype boot_source = Option66 | Fallback

datatype dhcp_event =
    Configured "u8 list" nat "u8 list option" "u8 list option"
  | Deconfigured

record uplink =
  up_mac :: "u8 list"
  dhcp_configured :: bool
  up_addr :: "u8 list"
  up_prefix :: nat
  up_router :: "u8 list option"
  up_ipv4 :: "u8 list"
  filter_ip :: u32
  up_boot :: "(u8 list \<times> boot_source) option"
  tftp_started :: bool
  up_loader :: config_loader

definition UNSPECIFIED :: "u8 list" where "UNSPECIFIED = [0, 0, 0, 0]"

definition uplink_new :: "u8 list \<Rightarrow> uplink" where
  "uplink_new m = \<lparr>up_mac = m, dhcp_configured = False, up_addr = UNSPECIFIED, up_prefix = 0, up_router = None,
     up_ipv4 = [0, 0, 0, 0], filter_ip = 0, up_boot = None, tftp_started = False, up_loader = config_new\<rparr>"

definition publish_hw_filter_ip :: "u8 list \<Rightarrow> uplink \<Rightarrow> uplink" where
  "publish_hw_filter_ip ip u = u\<lparr>up_ipv4 := ip, filter_ip := ip_word ip\<rparr>"

text \<open>The fetch is asked for once, from the server of the first offer.\<close>

definition start_config :: "u8 list option \<Rightarrow> uplink \<Rightarrow> uplink" where
  "start_config tftp u =
     (if tftp_started u then u
      else let (ip, how) = (case tftp of Some offered \<Rightarrow> (offered, Option66) | None \<Rightarrow> ([10, 11, 6, 65], Fallback)) in
        u\<lparr>up_boot := Some (ip, how),
          up_loader := config_start (ip_word ip) (config_filename (up_mac u)) (up_loader u), tftp_started := True\<rparr>)"

definition dhcp_poll :: "dhcp_event option \<Rightarrow> uplink \<Rightarrow> uplink" where
  "dhcp_poll ev u =
     (case ev of
        None \<Rightarrow> u
      | Some (Configured address prefix router tftp) \<Rightarrow>
          let u1 = publish_hw_filter_ip address (u\<lparr>dhcp_configured := True, up_addr := address, up_prefix := prefix\<rparr>);
              u2 = (case router of Some r \<Rightarrow> u1\<lparr>up_router := Some r\<rparr> | None \<Rightarrow> u1) in
          start_config tftp u2
      | Some Deconfigured \<Rightarrow> u\<lparr>dhcp_configured := False, up_addr := UNSPECIFIED, up_prefix := 0, up_router := None\<rparr>)"

definition FALLBACK_IP :: "u8 list" where "FALLBACK_IP = [10, 11, 6, 250]"

definition static_fallback :: "int \<Rightarrow> uplink \<Rightarrow> uplink" where
  "static_fallback t u =
     (if t = 10000 \<and> up_addr u = UNSPECIFIED
      then publish_hw_filter_ip FALLBACK_IP (u\<lparr>up_addr := FALLBACK_IP, up_prefix := 24\<rparr>) else u)"

definition handle_dhcp :: "dhcp_event option \<Rightarrow> int \<Rightarrow> uplink \<Rightarrow> uplink" where
  "handle_dhcp ev t u = static_fallback t (dhcp_poll ev u)"

section \<open>The fetch put into force\<close>

definition handle_tftp ::
  "hub_hw \<Rightarrow> program list \<Rightarrow> str \<Rightarrow> udp_env \<Rightarrow> int \<Rightarrow> uplink \<times> card \<Rightarrow> udp_act list \<times> uplink \<times> card" where
  "handle_tftp hw progs version env t = (\<lambda>(u, cd).
     let l = up_loader u in
     if config_is_done l then (if is_open env then [UClose] else [], u, cd)
     else if \<not> config_is_active l then ([], u, cd)
     else case config_poll env t l of (loaded, l', acts) \<Rightarrow>
       (acts, u\<lparr>up_loader := l'\<rparr>,
        if loaded then (case parse_config l' of Some cfg \<Rightarrow> apply_layout hw progs version cfg cd | None \<Rightarrow> cd) else cd))"

text \<open>The calls of both from the interrupt, in any order.\<close>

datatype boot_event = Dhcp "dhcp_event option" int | Tftp hub_hw udp_env int

fun boot_step :: "program list \<Rightarrow> str \<Rightarrow> boot_event \<Rightarrow> uplink \<times> card \<Rightarrow> uplink \<times> card" where
  "boot_step progs version (Dhcp ev t) (u, cd) = (handle_dhcp ev t u, cd)"
| "boot_step progs version (Tftp hw env t) s = snd (handle_tftp hw progs version env t s)"

definition boot_run :: "program list \<Rightarrow> str \<Rightarrow> boot_event list \<Rightarrow> uplink \<times> card \<Rightarrow> uplink \<times> card" where
  "boot_run progs version es s = fold (boot_step progs version) es s"

section \<open>The name\<close>

lemma hex_pair_inj: "hex_pair a = hex_pair b \<Longrightarrow> a = b"
proof -
  assume h: "hex_pair a = hex_pair b"
  have "distinct HEX" "length HEX = 16" by (simp_all add: HEX_def bytes_def)
  moreover have "unat (drop_bit 4 x) < 16" "unat (x AND 0xF) < 16" for x :: u8
  proof -
    have "unat x < 256" by (rule unat_u8_less)
    then have "unat x div 16 < 16" by linarith
    then show "unat (drop_bit 4 x) < 16" by (simp add: drop_bit_eq_div unat_div)
    have "x AND 0xF \<le> 0xF" by (rule word_and_le1)
    then show "unat (x AND 0xF) < 16" by (simp add: word_le_nat_alt)
  qed
  ultimately have n: "drop_bit 4 a = drop_bit 4 b" "a AND 0xF = b AND 0xF"
    using h by (auto simp: hex_pair_def nth_eq_iff_index_eq intro!: word_unat_eq_iff [THEN iffD2])
  have f: "(0xF :: u8) = mask 4" by (simp add: mask_eq_exp_minus_1)
  have "x = push_bit 4 (drop_bit 4 x) OR (x AND 0xF)" for x :: u8
    unfolding f by (rule bit_word_eqI) (auto simp: bit_simps not_less)
  then show "a = b" using n by metis
qed

lemma length_config_filename: "length (config_filename m) = 21"
  by (simp add: config_filename_def hex_pair_def bytes_def upt_rec)

lemma config_filename_inj:
  assumes "length m = 6" "length m' = 6" "config_filename m = config_filename m'"
  shows "m = m'"
proof -
  have "hex_pair (m ! i) = hex_pair (m' ! i)" if "i < 6" for i
    using assms(3) that unfolding config_filename_def
    by (auto simp: hex_pair_def upt_rec less_Suc_eq numeral_eq_Suc)
  then show ?thesis using assms(1,2) hex_pair_inj by (auto intro: nth_equalityI)
qed

section \<open>Every run\<close>

definition uplink_ok :: "u8 list \<Rightarrow> uplink \<Rightarrow> bool" where
  "uplink_ok m u \<longleftrightarrow> up_mac u = m \<and>
     (up_addr u \<noteq> UNSPECIFIED \<longrightarrow> up_ipv4 u = up_addr u \<and> filter_ip u = ip_word (up_addr u)) \<and>
     (tftp_started u \<longleftrightarrow> up_boot u \<noteq> None) \<and>
     (\<forall>ip how. up_boot u = Some (ip, how) \<longrightarrow> c_gateway (up_loader u) = ip_word ip \<and>
        take (c_filename_len (up_loader u)) (c_filename (up_loader u)) = config_filename m \<and>
        (how = Fallback \<longrightarrow> ip = [10, 11, 6, 65]))"

lemma uplink_ok_new: "uplink_ok m (uplink_new m)"
  by (simp add: uplink_ok_def uplink_new_def)

lemma start_config_ok:
  assumes "up_mac u = m" "up_ipv4 u = up_addr u" "filter_ip u = ip_word (up_addr u)" "tftp_started u \<longleftrightarrow> up_boot u \<noteq> None"
    and "up_boot u \<noteq> None \<Longrightarrow> uplink_ok m u"
  shows "uplink_ok m (start_config tftp u)"
  using assms length_config_filename [of m]
  by (auto simp: start_config_def uplink_ok_def config_start_def splice_def Let_def split: option.split)

lemma dhcp_ok: "uplink_ok m u \<Longrightarrow> uplink_ok m (handle_dhcp ev t u)"
proof -
  assume u: "uplink_ok m u"
  have "uplink_ok m (dhcp_poll ev u)"
    using u by (auto simp: dhcp_poll_def Let_def publish_hw_filter_ip_def split: option.split dhcp_event.split
        intro!: start_config_ok) (auto simp: uplink_ok_def)
  then show ?thesis
    by (auto simp: handle_dhcp_def static_fallback_def publish_hw_filter_ip_def uplink_ok_def)
qed

text \<open>A poll of the fetch leaves its server and its name alone.\<close>

lemma config_poll_asks:
  "config_poll env t l = (d, l', acts) \<Longrightarrow>
     c_gateway l' = c_gateway l \<and> c_filename l' = c_filename l \<and> c_filename_len l' = c_filename_len l"
  by (auto simp: config_poll_def config_send_rrq_def config_wait_data_def config_take_def Let_def
      split: tftp_state.splits if_splits option.splits prod.splits)

lemma tftp_ok: "uplink_ok m u \<Longrightarrow> uplink_ok m (fst (snd (handle_tftp hw progs version env t (u, cd))))"
  using config_poll_asks [of env t "up_loader u"]
  by (auto simp: handle_tftp_def Let_def uplink_ok_def split: prod.split)

lemma boot_step_ok: "uplink_ok m (fst s) \<Longrightarrow> uplink_ok m (fst (boot_step progs version e s))"
  by (cases s; cases e) (auto simp: dhcp_ok tftp_ok)

text \<open>What a DHCP lease offers as the server of the configuration, and the first such offer of a run.\<close>

fun offer_of :: "boot_event \<Rightarrow> (u8 list \<times> boot_source) option" where
  "offer_of (Dhcp (Some (Configured address prefix router (Some ip))) t) = Some (ip, Option66)"
| "offer_of (Dhcp (Some (Configured address prefix router None)) t) = Some ([10, 11, 6, 65], Fallback)"
| "offer_of e = None"

fun first_offer :: "boot_event list \<Rightarrow> (u8 list \<times> boot_source) option" where
  "first_offer [] = None"
| "first_offer (e # es) = (case offer_of e of None \<Rightarrow> first_offer es | Some b \<Rightarrow> Some b)"

lemma start_offer:
  "up_boot (start_config tftp u) = (if tftp_started u then up_boot u else offer_of (Dhcp (Some (Configured a p r tftp)) t))"
  "tftp_started (start_config tftp u)"
  by (cases tftp; simp add: start_config_def Let_def)+

lemma fallback_access [simp]:
  "up_boot (static_fallback t u) = up_boot u" "tftp_started (static_fallback t u) = tftp_started u"
  "up_loader (static_fallback t u) = up_loader u"
  by (simp_all add: static_fallback_def publish_hw_filter_ip_def)

lemma dhcp_offer:
  "up_boot (handle_dhcp ev t u) = (if tftp_started u then up_boot u else case offer_of (Dhcp ev t) of None \<Rightarrow> up_boot u | Some b \<Rightarrow> Some b) \<and>
   (tftp_started (handle_dhcp ev t u) \<longleftrightarrow> tftp_started u \<or> offer_of (Dhcp ev t) \<noteq> None)"
proof (cases "\<exists>a p r tftp. ev = Some (Configured a p r tftp)")
  case True
  then obtain a p r tftp where ev: "ev = Some (Configured a p r tftp)" by blast
  obtain u2 where u2: "handle_dhcp ev t u = static_fallback t (start_config tftp u2)" "up_boot u2 = up_boot u" "tftp_started u2 = tftp_started u"
    by (cases r) (simp_all add: ev handle_dhcp_def dhcp_poll_def publish_hw_filter_ip_def Let_def)
  have "offer_of (Dhcp ev t) \<noteq> None" by (cases tftp) (simp_all add: ev)
  then show ?thesis using start_offer(1) [of tftp u2 a p r t] start_offer(2) [of tftp u2] u2 by (auto simp: ev)
next
  case False
  then have "ev = None \<or> ev = Some Deconfigured" by (metis dhcp_event.exhaust option.exhaust)
  then show ?thesis by (auto simp: handle_dhcp_def dhcp_poll_def)
qed

lemma tftp_offer:
  "up_boot (fst (snd (handle_tftp hw progs version env t (u, cd)))) = up_boot u"
  "tftp_started (fst (snd (handle_tftp hw progs version env t (u, cd)))) = tftp_started u"
  by (auto simp: handle_tftp_def Let_def split: prod.split)

lemma step_offer:
  "up_boot (fst (boot_step progs version e s)) =
     (if tftp_started (fst s) then up_boot (fst s) else case offer_of e of None \<Rightarrow> up_boot (fst s) | Some b \<Rightarrow> Some b) \<and>
   (tftp_started (fst (boot_step progs version e s)) \<longleftrightarrow> tftp_started (fst s) \<or> offer_of e \<noteq> None)"
  by (cases s; cases e) (simp_all only: boot_step.simps fst_conv dhcp_offer tftp_offer, simp_all)

lemma run_offer:
  "up_boot (fst (boot_run progs version es s)) =
     (if tftp_started (fst s) then up_boot (fst s) else case first_offer es of None \<Rightarrow> up_boot (fst s) | Some b \<Rightarrow> Some b) \<and>
   (tftp_started (fst (boot_run progs version es s)) \<longleftrightarrow> tftp_started (fst s) \<or> first_offer es \<noteq> None)"
proof (induction es arbitrary: s)
  case (Cons e es)
  then show ?case using step_offer [of progs version e s] by (simp add: boot_run_def split: option.split)
qed (simp add: boot_run_def)


section \<open>From the lease to the layout\<close>

definition file_layout :: "u8 list \<Rightarrow> layout option" where
  "file_layout F = (if F = [] \<or> MAX_CONFIG_SIZE < length F then None else Option.bind (from_utf8 F) layout_parse)"

definition in_force :: "program list \<Rightarrow> str \<Rightarrow> layout option \<Rightarrow> card \<Rightarrow> card \<Rightarrow> bool" where
  "in_force progs version cfg cd cd' \<longleftrightarrow>
     (case cfg of None \<Rightarrow> cd' = cd | Some c \<Rightarrow> \<exists>hw. cd' = apply_layout hw progs version c cd)"

definition boot_inv :: "u8 list \<Rightarrow> program list \<Rightarrow> str \<Rightarrow> card \<Rightarrow> uplink \<times> card \<Rightarrow> bool" where
  "boot_inv F progs version cd = (\<lambda>(u, cd').
     (if tftp_started u then config_fetch F (up_loader u) else up_loader u = config_new) \<and>
     in_force progs version (if config_is_done (up_loader u) then file_layout F else None) cd cd')"

definition event_serves :: "u8 list \<Rightarrow> boot_event \<Rightarrow> bool" where
  "event_serves F e = (case e of Tftp hw env t \<Rightarrow> serves F env | Dhcp ev t \<Rightarrow> True)"

lemma dhcp_loader:
  "handle_dhcp ev t u = u' \<Longrightarrow> tftp_started u \<Longrightarrow> tftp_started u' \<and> up_loader u' = up_loader u"
  "handle_dhcp ev t u = u' \<Longrightarrow> \<not> tftp_started u \<Longrightarrow>
     \<not> tftp_started u' \<and> up_loader u' = up_loader u \<or>
     tftp_started u' \<and> (\<exists>ip. up_loader u' = config_start ip (config_filename (up_mac u)) (up_loader u))"
  by (auto simp: handle_dhcp_def dhcp_poll_def publish_hw_filter_ip_def start_config_def Let_def
      split: option.splits dhcp_event.splits prod.splits)

lemma dhcp_boot_inv:
  assumes "boot_inv F progs version cd (u, cd')"
  shows "boot_inv F progs version cd (handle_dhcp ev t u, cd')"
proof (cases "tftp_started u")
  case True
  then show ?thesis using assms dhcp_loader(1) [OF refl True, of ev t] by (simp add: boot_inv_def)
next
  case False
  have n: "up_loader u = config_new" "\<not> config_is_done config_new" "\<not> c_overflowed config_new" "length (c_buf config_new) = MAX_CONFIG_SIZE"
    using assms False by (simp_all add: boot_inv_def config_new_def config_is_done_def)
  have "\<not> config_is_done (config_start ip name config_new)" for ip name
    by (simp add: config_is_done_def config_start_def Let_def)
  then show ?thesis
    using assms False dhcp_loader(2) [OF refl False, of ev t] n config_from_start [OF n(4,3), of F]
    by (auto simp: boot_inv_def)
qed

lemma poll_loads:
  "config_poll env t l = (loaded, l', acts) \<Longrightarrow> config_is_active l \<Longrightarrow> loaded = config_is_done l'"
  by (auto simp: config_poll_def config_send_rrq_def config_wait_data_def config_is_active_def config_is_done_def Let_def
      split: tftp_state.splits if_splits option.splits prod.splits)

lemma tftp_boot_inv:
  assumes inv: "boot_inv F progs version cd (u, cd')" and small: "length F < 65535 * 512" and srv: "serves F env"
  shows "boot_inv F progs version cd (snd (handle_tftp hw progs version env t (u, cd')))"
proof (cases "config_is_active (up_loader u)")
  case True
  then have st: "tftp_started u" "\<not> config_is_done (up_loader u)" "config_fetch F (up_loader u)"
    using inv by (auto simp: boot_inv_def config_is_active_def config_is_done_def config_new_def split: if_splits)
  obtain loaded l' acts where p: "config_poll env t (up_loader u) = (loaded, l', acts)" by (metis prod_cases3)
  have f: "config_fetch F l'" using config_from_poll [OF st(3) srv p] .
  have d: "loaded = config_is_done l'" by (rule poll_loads [OF p True])
  have cd: "cd' = cd" using inv st(2) by (simp add: boot_inv_def in_force_def)
  have "parse_config l' = file_layout F" if "config_is_done l'"
    using fetched_config [OF f small] that by (simp add: config_is_done_def file_layout_def)
  then have "in_force progs version (if config_is_done l' then file_layout F else None) cd
      (if loaded then (case parse_config l' of Some cfg \<Rightarrow> apply_layout hw progs version cfg cd' | None \<Rightarrow> cd') else cd')"
    unfolding d cd by (auto simp: in_force_def split: option.split)
  then show ?thesis using True st(1,2) f p by (simp add: boot_inv_def handle_tftp_def)
next
  case False
  then have "snd (handle_tftp hw progs version env t (u, cd')) = (u, cd')" by (simp add: handle_tftp_def Let_def)
  then show ?thesis using inv by simp
qed

text \<open>
  C38. On every run of the start-up, if the server answers with the blocks of one file, the card's
  layout is untouched until the fetch is done; from then on it is the one layout that was put into
  force by the layout of the whole file, or untouched when the file is empty, longer than the
  buffer, not UTF-8 or no layout. Whatever DHCP does later does not fetch again.
\<close>

theorem boot_puts_file_in_force:
  assumes "boot_run progs version es (uplink_new m, cd) = (u, cd')" and "length F < 65535 * 512" and "list_all (event_serves F) es"
  shows "case (if config_is_done (up_loader u) then file_layout F else None) of
      None \<Rightarrow> cd' = cd | Some cfg \<Rightarrow> \<exists>hw. cd' = apply_layout hw progs version cfg cd"
proof -
  have step: "boot_inv F progs version cd (boot_step progs version e s)" if "boot_inv F progs version cd s" "event_serves F e" for e s
    using that dhcp_boot_inv tftp_boot_inv [OF _ assms(2)] by (cases s; cases e) (auto simp: event_serves_def)
  have "boot_inv F progs version cd (boot_run progs version es s)" if "boot_inv F progs version cd s" for s
    using assms(3) that by (induction es arbitrary: s) (simp_all add: boot_run_def step)
  from this [of "(uplink_new m, cd)"] have "boot_inv F progs version cd (u, cd')"
    using assms(1) by (simp add: boot_inv_def uplink_new_def config_is_done_def config_new_def in_force_def)
  then show ?thesis by (simp add: boot_inv_def in_force_def)
qed

section \<open>Witnesses\<close>

definition demo_mac :: "u8 list" where "demo_mac = [2, 0, 0, 0xA1, 0xB2, 0xC3]"

definition demo_boot :: "hub_hw \<Rightarrow> boot_event list" where
  "demo_boot hw = [Dhcp (Some (Configured [10, 0, 0, 7] 24 None (Some [10, 0, 0, 1]))) 5, Tftp hw (cfg_env None) 6,
     Tftp hw (cfg_env (Some [0, 3, 0, 1, 35])) 7, Dhcp (Some Deconfigured) 8, Dhcp None 10000]"

lemma demo_name: "config_filename demo_mac = bytes ''02-00-00-a1-b2-c3.yml''"
  by code_simp

lemma demo_boot_end:
  "up_addr (fst (boot_run [] v (demo_boot hw) (uplink_new demo_mac, cd))) = FALLBACK_IP \<and>
   up_boot (fst (boot_run [] v (demo_boot hw) (uplink_new demo_mac, cd))) = Some ([10, 0, 0, 1], Option66) \<and>
   config_is_done (up_loader (fst (boot_run [] v (demo_boot hw) (uplink_new demo_mac, cd))))"
proof -
  define l0 where "l0 = config_start (ip_word [10, 0, 0, 1]) (config_filename demo_mac) config_new"
  have l0: "c_state l0 = CSendRrq" "c_block l0 = 1" by (simp_all add: l0_def config_start_def Let_def)
  define l1 where "l1 = fst (snd (config_poll (cfg_env None) 6 l0))"
  obtain acts1 where p1: "config_poll (cfg_env None) 6 l0 = (False, l1, acts1)"
    by (simp add: l1_def config_poll_def l0 config_send_rrq_def cfg_env_def Let_def)
  have l1: "c_state l1 = CWaitData" "c_deadline l1 = 3006" "c_block l1 = 1"
    by (simp_all add: l1_def config_poll_def l0 config_send_rrq_def cfg_env_def Let_def CFG_TIMEOUT_MS_def)
  define l2 where "l2 = fst (snd (config_poll (cfg_env (Some [0, 3, 0, 1, 35])) 7 l1))"
  obtain acts2 where p2: "config_poll (cfg_env (Some [0, 3, 0, 1, 35])) 7 l1 = (True, l2, acts2)"
    by (simp add: l2_def config_poll_def l1 config_wait_data_def cfg_env_def OPCODE_DATA_def u16_be_def Let_def)
  have l2: "c_state l2 = CDone"
    by (simp_all add: l2_def config_poll_def l1 config_wait_data_def cfg_env_def OPCODE_DATA_def u16_be_def Let_def)
  have a: "config_is_active l0" "\<not> config_is_done l0" "config_is_active l1" "\<not> config_is_done l1"
    by (simp_all add: config_is_active_def config_is_done_def l0 l1)
  define u1 where "u1 = handle_dhcp (Some (Configured [10, 0, 0, 7] 24 None (Some [10, 0, 0, 1]))) 5 (uplink_new demo_mac)"
  have u1: "up_loader u1 = l0" "tftp_started u1" "up_boot u1 = Some ([10, 0, 0, 1], Option66)"
    by (simp_all add: u1_def handle_dhcp_def dhcp_poll_def static_fallback_def publish_hw_filter_ip_def start_config_def
        uplink_new_def l0_def Let_def)
  have s1: "snd (handle_tftp hw [] v (cfg_env None) 6 (u1, cd)) = (u1\<lparr>up_loader := l1\<rparr>, cd)"
    unfolding handle_tftp_def Let_def prod.case u1(1) p1 using a by simp
  obtain cd2 where s2: "snd (handle_tftp hw [] v (cfg_env (Some [0, 3, 0, 1, 35])) 7 (u1\<lparr>up_loader := l1\<rparr>, cd)) = (u1\<lparr>up_loader := l2\<rparr>, cd2)"
    unfolding handle_tftp_def Let_def prod.case using a p2 by simp
  have s3: "handle_dhcp (Some Deconfigured) 8 (u1\<lparr>up_loader := l2\<rparr>) =
      u1\<lparr>up_loader := l2, dhcp_configured := False, up_addr := UNSPECIFIED, up_prefix := 0, up_router := None\<rparr>"
    by (simp add: handle_dhcp_def dhcp_poll_def static_fallback_def)
  have "fst (boot_run [] v (demo_boot hw) (uplink_new demo_mac, cd)) =
      handle_dhcp None 10000 (u1\<lparr>up_loader := l2, dhcp_configured := False, up_addr := UNSPECIFIED, up_prefix := 0, up_router := None\<rparr>)"
    unfolding boot_run_def demo_boot_def by (simp add: u1_def [symmetric] s1 s2 s3)
  then show ?thesis
    using u1(3) l2 by (simp add: handle_dhcp_def dhcp_poll_def static_fallback_def publish_hw_filter_ip_def config_is_done_def)
qed

text \<open>A second lease with another server moves the addresses and not the fetch.\<close>

definition demo_leases :: "hub_hw \<Rightarrow> boot_event list" where
  "demo_leases hw = demo_boot hw @ [Dhcp (Some (Configured [10, 0, 0, 9] 24 None (Some [10, 0, 0, 2]))) 10001]"

lemma demo_leases_end: "up_addr (fst (boot_run [] v (demo_leases hw) s)) = [10, 0, 0, 9]" "first_offer (demo_leases hw) = Some ([10, 0, 0, 1], Option66)"
proof -
  define s1 where "s1 = boot_run [] v (demo_boot hw) s"
  obtain u1 c1 where s1: "s1 = (u1, c1)" by fastforce
  have "boot_run [] v (demo_leases hw) s = boot_step [] v (Dhcp (Some (Configured [10, 0, 0, 9] 24 None (Some [10, 0, 0, 2]))) 10001) s1"
    by (simp add: demo_leases_def boot_run_def s1_def)
  then show "up_addr (fst (boot_run [] v (demo_leases hw) s)) = [10, 0, 0, 9]"
    by (simp add: s1 handle_dhcp_def dhcp_poll_def static_fallback_def publish_hw_filter_ip_def start_config_def UNSPECIFIED_def Let_def)
  show "first_offer (demo_leases hw) = Some ([10, 0, 0, 1], Option66)" by (simp add: demo_leases_def demo_boot_def)
qed


lemma demo_file: "\<exists>cfg. file_layout [35] = Some cfg"
proof -
  have "from_utf8 [35] = Some [35]" by code_simp
  then show ?thesis by (simp add: file_layout_def MAX_CONFIG_SIZE_def layout_parse_def)
qed

theorem boot_puts_file_in_force_witness:
  "\<forall>v hw cd. \<exists>cfg hw'. file_layout [35] = Some cfg \<and>
     snd (boot_run [] v (demo_boot hw) (uplink_new demo_mac, cd)) = apply_layout hw' [] v cfg cd"
proof (intro allI)
  fix v hw cd
  let ?s = "boot_run [] v (demo_boot hw) (uplink_new demo_mac, cd)"
  obtain cfg where cfg: "file_layout [35] = Some cfg" using demo_file by blast
  have "?s = (fst ?s, snd ?s)" by simp
  moreover have "list_all (event_serves [35]) (demo_boot hw)"
    by (simp add: demo_boot_def event_serves_def serves_def cfg_env_def Let_def chunk_def u16_be_def)
  ultimately show "\<exists>cfg hw'. file_layout [35] = Some cfg \<and> snd ?s = apply_layout hw' [] v cfg cd"
    using boot_puts_file_in_force [of "[]" v "demo_boot hw" demo_mac cd "fst ?s" "snd ?s" "[35]"] demo_boot_end [of v hw cd] cfg
    by simp
qed

end
