(* ===== verification/Net_Card.thy ===== *)
theory Net_Card
  imports Net_Start Program_Props
begin

text \<open>
  The whole card as a sequence of events: requests to the HTTP API, packets, turns of the main
  loop, and the flash code they start. What a request may do to the flash, and what a picture put
  on the glass by a request is safe from.
\<close>

section \<open>Events\<close>

text \<open>\<^verbatim>\<open>handle_bitstream\<close>; the socket's environment comes with the event.\<close>

definition handle_bitstream :: "'s spi_ops \<Rightarrow> udp_env \<Rightarrow> int \<Rightarrow> 's flash_sys \<Rightarrow> 's flash_sys option" where
  "handle_bitstream ops env t s =
     (if loader_is_done (fs_loader s) \<or> \<not> loader_is_active (fs_loader s) then Some s
      else case loader_poll ops env t (fs_loader s) (fs_world s) of
        None \<Rightarrow> None
      | Some (_, l, _, w) \<Rightarrow> Some (s\<lparr>fs_loader := l, fs_world := w\<rparr>))"

definition flash_turn :: "'s spi_ops \<Rightarrow> 's flash_sys \<Rightarrow> 's flash_sys option" where
  "flash_turn ops s =
     (if job_pending (fs_job s)
      then map_option (\<lambda>(job, w). s\<lparr>fs_job := job, fs_world := w\<rparr>) (tick ops (fs_job s) (fs_world s)) else Some s)"

datatype event =
    Request hub_hw int http_request
  | Frame hub_hw bool int eth_frame
  | Datagrams hub_hw bool int "u8 list list"
  | Lighting hub_hw "u8 list list"
  | Fetch udp_env int
  | FlashTurn
  | PresentTick hub_hw int
  | BitmapTick hub_hw bool "int list" int
  | AnimationTick
  | LayoutIn hub_hw str layout
  | ServerKnown "u8 list"

text \<open>The last two are what a configuration fetch and DHCP change here; \<open>Net_Start\<close> has their own state.\<close>

definition upd_board :: "(board \<Rightarrow> board option) \<Rightarrow> 's node \<Rightarrow> 's node option" where
  "upd_board f nd = map_option (\<lambda>bd. nd\<lparr>nd_board := bd\<rparr>) (f (nd_board nd))"

definition upd_flash :: "('s flash_sys \<Rightarrow> 's flash_sys option) \<Rightarrow> 's node \<Rightarrow> 's node option" where
  "upd_flash f nd = map_option (\<lambda>s. nd\<lparr>nd_flash := s\<rparr>) (f (nd_flash nd))"

fun card_step :: "program list \<Rightarrow> 's spi_ops \<Rightarrow> event \<Rightarrow> 's node \<Rightarrow> 's node option" where
  "card_step progs ops (Request hw t req) nd = Some (snd (handle_http_request hw progs ops t req nd))"
| "card_step progs ops (Frame hw al t f) nd = upd_board (fast_frame hw al t f) nd"
| "card_step progs ops (Datagrams hw al t ds) nd = upd_board (handle_bitmap_smoltcp hw al t ds) nd"
| "card_step progs ops (Lighting hw ds) nd = upd_board (Some \<circ> artnet_in hw ds) nd"
| "card_step progs ops (Fetch env t) nd = upd_flash (handle_bitstream ops env t) nd"
| "card_step progs ops FlashTurn nd = upd_flash (flash_turn ops) nd"
| "card_step progs ops (PresentTick hw t) nd = upd_board (bitmap_present_tick hw t) nd"
| "card_step progs ops (BitmapTick hw act ts t) nd = upd_board (bitmap_tick hw progs act ts t) nd"
| "card_step progs ops AnimationTick nd = upd_board (Some \<circ> animation_tick) nd"
| "card_step progs ops (LayoutIn hw version cfg) nd =
     upd_board (\<lambda>bd. Some (bd\<lparr>bd_card := apply_layout hw progs version cfg (bd_card bd)\<rparr>)) nd"
| "card_step progs ops (ServerKnown ip) nd = Some (nd\<lparr>boot_server := Some ip\<rparr>)"

fun card_run :: "program list \<Rightarrow> 's spi_ops \<Rightarrow> event list \<Rightarrow> 's node \<Rightarrow> 's node option" where
  "card_run progs ops [] nd = Some nd"
| "card_run progs ops (e # es) nd = Option.bind (card_step progs ops e nd) (card_run progs ops es)"

text \<open>What may put another picture on the glass by its own right.\<close>

fun is_request :: "event \<Rightarrow> bool" where
  "is_request (Request hw t req) = True"
| "is_request (LayoutIn hw version cfg) = True"
| "is_request _ = False"

section \<open>Requests and the flash\<close>

definition flash_cause :: "'s spi_ops \<Rightarrow> 's node \<Rightarrow> 's node \<Rightarrow> bool" where
  "flash_cause ops nd nd' \<longleftrightarrow> nd_flash nd' = nd_flash nd \<or> flash_step ops (nd_flash nd) (nd_flash nd')"

lemma flash_untouched [simp]:
  "nd_flash (on_stage f nd) = nd_flash nd" "nd_flash (on_board g nd) = nd_flash nd"
  "nd_flash (set_pixel_filter on nd) = nd_flash nd"
  by (simp_all add: on_stage_def on_board_def set_pixel_filter_def)

lemma job_post_cause: "flash_cause ops nd (snd (api_flash_job_post ops body nd))"
proof -
  have q: "flash_cause ops nd (on_flash (\<lambda>s. s\<lparr>fs_job := job\<rparr>) nd)"
    if "queue ops kind addr len (fs_world (nd_flash nd)) (fs_job (nd_flash nd)) = (r, job)" for kind addr len r job
    using flash_step.step_queue [OF that] by (simp add: flash_cause_def on_flash_def)
  have n: "flash_cause ops nd nd" by (simp add: flash_cause_def)
  show ?thesis unfolding api_flash_job_post_def Let_def
    by (auto simp: n split: option.split prod.split sum.split dest: q)
qed

lemma bitstream_post_cause: "flash_cause ops nd (snd (api_flash_bitstream_post ops body nd))"
proof -
  have s: "flash_cause ops nd (on_flash (\<lambda>s. s\<lparr>fs_loader := l\<rparr>) nd)"
    if "\<not> loader_is_active (fs_loader (nd_flash nd))"
      "loader_start ops srv name (fs_world (nd_flash nd)) (fs_loader (nd_flash nd)) = (r, l)" for srv name r l
    using flash_step.step_start [OF that] by (simp add: flash_cause_def on_flash_def)
  have n: "flash_cause ops nd nd" by (simp add: flash_cause_def)
  show ?thesis unfolding api_flash_bitstream_post_def
    by (auto simp: n split: option.split prod.split sum.split dest: s)
qed

lemma drive_cause: "flash_cause ops nd (snd (api_flash_drive ops body nd))"
  unfolding api_flash_drive_def Let_def flash_cause_def on_flash_def
  by (simp add: flash_step.step_drive)

lemmas quiet_defs =
  api_dma_set_def api_auto_swap_def api_swap_whole_def api_isr_prof_def api_hw_filter_def api_cpu_pixels_def
  api_hold_set_def api_display_def api_rgb_order_def api_program_set_def api_display_pattern_def api_flash_verify_def
  api_reboot_def api_values_post_def api_bench_def api_profile_def

lemma switch_quiet:
  assumes "(p, h) \<in> set (switches :: (str \<times> 's handler) list)"
  shows "nd_flash (snd (h body nd)) = nd_flash nd"
proof -
  have "list_all (\<lambda>(p, h). \<forall>body nd. nd_flash (snd (h body nd)) = nd_flash nd) (switches :: (str \<times> 's handler) list)"
    by (simp add: switches_def quiet_defs)
  then show ?thesis using assms by (auto simp: list_all_iff)
qed

lemma quiet_cause: "nd_flash nd' = nd_flash nd \<Longrightarrow> flash_cause ops nd nd'"
  by (simp add: flash_cause_def)

lemma post_quiet:
  "nd_flash (snd (api_rgb_order hw body nd)) = nd_flash nd" "nd_flash (snd (api_display_pattern body nd)) = nd_flash nd"
  "nd_flash (snd (api_program_set hw progs body on nd)) = nd_flash nd" "nd_flash (snd (api_flash_verify body nd)) = nd_flash nd"
  "nd_flash (snd (api_reboot t nd)) = nd_flash nd"
  by (auto simp: quiet_defs Let_def split: option.split prod.split)

lemma post_cause:
  assumes "(p, h) \<in> set (post_routes hw progs ops t)"
  shows "flash_cause ops nd (snd (h body nd))"
proof -
  have "list_all (\<lambda>(p, h). \<forall>body nd. flash_cause ops nd (snd (h body nd))) switches"
    by (auto simp: list_all_iff intro!: quiet_cause switch_quiet)
  then have "list_all (\<lambda>(p, h). \<forall>body nd. flash_cause ops nd (snd (h body nd))) (post_routes hw progs ops t)"
    by (simp add: post_routes_def post_quiet quiet_cause job_post_cause bitstream_post_cause drive_cause)
  then show ?thesis using assms by (auto simp: list_all_iff)
qed

lemma request_cause: "flash_cause ops nd (snd (handle_http_request hw progs ops t req nd))"
proof (cases "req_method req")
  case Get
  then show ?thesis by (auto simp: handle_http_request_def get_request_def flash_cause_def quiet_defs Let_def)
next
  case Post
  show ?thesis
  proof (cases "path req = lit ''/api/values''")
    case False
    then show ?thesis using Post post_cause [OF map_of_SomeD, where p = "path req" and nd = nd and body = "body_str req"]
      by (cases "map_of (post_routes hw progs ops t) (path req)") (auto simp: handle_http_request_def flash_cause_def)
  qed (simp add: Post handle_http_request_def flash_cause_def quiet_defs)
qed (simp add: handle_http_request_def flash_cause_def)

lemma step_cause:
  assumes "card_step progs ops e nd = Some nd'"
  shows "flash_cause ops nd nd'"
proof (cases "(progs, ops, e, nd)" rule: card_step.cases)
  case (1 progs' ops' hw t req nd'')
  then show ?thesis using assms request_cause [of ops nd hw progs t req] by auto
next
  case (5 progs' ops' env t nd'')
  then show ?thesis using assms flash_step.step_poll [where ops = ops and env = env and t = t and s = "nd_flash nd"]
    by (auto simp: upd_flash_def handle_bitstream_def flash_cause_def split: if_splits option.splits)
next
  case (6 progs' ops' nd'')
  then show ?thesis using assms flash_step.step_tick [where ops = ops and s = "nd_flash nd"]
    by (auto simp: upd_flash_def flash_turn_def flash_cause_def split: if_splits option.splits)
qed (use assms in \<open>auto simp: upd_board_def flash_cause_def\<close>)

lemma run_reach:
  assumes "card_run progs ops es nd = Some nd'" "flash_reach ops c (nd_flash nd)"
  shows "flash_reach ops c (nd_flash nd')"
  using assms
proof (induction es arbitrary: nd)
  case (Cons e es)
  then obtain nd1 where s: "card_step progs ops e nd = Some nd1" "card_run progs ops es nd1 = Some nd'"
    by (auto split: bind_splits)
  have "flash_reach ops c (nd_flash nd1)"
    using step_cause [OF s(1)] Cons.prems(2) flash_reach.run by (auto simp: flash_cause_def)
  then show ?case by (rule Cons.IH [OF s(2)])
qed simp

end
