(* ===== verification/Net_Card_Props.thy ===== *)
theory Net_Card_Props
  imports Net_Card Net_Receive Flash_Props Layout_Shown
begin

text \<open>
  The properties of the whole card: no run of events harms the golden image, and a picture put on
  the glass by a request stays there until the next request or layout.
\<close>

section \<open>A picture at rest\<close>

definition at_rest :: "u32 list \<Rightarrow> board \<Rightarrow> bool" where
  "at_rest glass bd \<longleftrightarrow>
     hold (bd_rx bd) \<and> total_chunks (bd_rx bd) = 0 \<and> \<not> dma_on (bd_hub bd) \<and> \<not> prog_active (bd_stage bd) \<and>
     anim bd = NoAnimation \<and> fb_front (bd_hub bd) = glass \<and> get_mode (bd_hub bd) = FullColor \<and> \<not> hub_is_on (bd_hub bd)"

text \<open>What a palette write and a drawing into the back buffer leave alone.\<close>

definition glass_of :: "hub75 \<Rightarrow> bool \<times> u32 list \<times> bool \<times> bool" where
  "glass_of h = (dma_on h, fb_front h, r_indexed h, r_enabled h)"

lemma glass_bank [simp]: "glass_of (write_bank hw bank off n h) = glass_of h" "glass_of (mark_bank bank h) = glass_of h"
  "glass_of (snd (stash off d h)) = glass_of h" "glass_of (put_back buf h) = glass_of h"
  by (simp_all add: glass_of_def write_bank_def set_palette_bank_def mark_bank_def stash_def put_back_def Let_def)

lemma glass_palette [simp]: "glass_of (set_palette hw off d h) = glass_of h" "glass_of (set_palette_all hw off f h) = glass_of h"
proof -
  show "glass_of (set_palette hw off d h) = glass_of h"
    using glass_bank(3) [of off d h] by (cases "stash off d h") (simp add: set_palette_def Let_def)
  have "glass_of (fold (\<lambda>bank h. mark_bank bank (write_bank hw bank off n h)) bs h) = glass_of h" for bs n h
    by (induction bs arbitrary: h) simp_all
  then show "glass_of (set_palette_all hw off f h) = glass_of h"
    using glass_bank(3) [of off "map f [0..<256]" h] by (cases "stash off (map f [0..<256]) h") (simp add: set_palette_all_def)
qed

lemma at_rest_iff:
  "at_rest glass bd \<longleftrightarrow> hold (bd_rx bd) \<and> total_chunks (bd_rx bd) = 0 \<and> \<not> prog_active (bd_stage bd) \<and>
     anim bd = NoAnimation \<and> glass_of (bd_hub bd) = (False, glass, False, False)"
  by (auto simp: at_rest_def glass_of_def get_mode_def hub_is_on_def split: if_splits)

lemma board_access [simp]:
  "bd_rx (with_rx rx h bd) = rx" "bd_hub (with_rx rx h bd) = h" "bd_stage (with_rx rx h bd) = (bd_stage bd)\<lparr>st_rx := rx, st_hub := h\<rparr>"
  "anim (with_rx rx h bd) = anim bd" "bd_stage (with_stage f bd) = f (bd_stage bd)" "anim (with_stage f bd) = anim bd"
  "bd_stage (bd\<lparr>profile_state := n\<rparr>) = bd_stage bd" "bd_stage (bd\<lparr>anim := a\<rparr>) = bd_stage bd"
  "bd_stage (bd\<lparr>bd_stats := x\<rparr>) = bd_stage bd" "bd_stage (bd\<lparr>last_bitmap := y\<rparr>) = bd_stage bd"
  "bd_stage (bd\<lparr>bd_isr := z\<rparr>) = bd_stage bd" "bd_stage (bd\<lparr>profile_kind := n\<rparr>) = bd_stage bd"
  by (simp_all add: bd_rx_def bd_hub_def bd_stage_def with_rx_def with_stage_def)

text \<open>A measurement writes to the back buffer and the palette only.\<close>

definition keeps_glass :: "stage \<Rightarrow> stage \<Rightarrow> bool" where
  "keeps_glass st st' \<longleftrightarrow> (\<exists>h. st' = st\<lparr>st_hub := h\<rparr> \<and> glass_of h = glass_of (st_hub st))"

lemma keeps_glass_refl [simp]: "keeps_glass st st"
  unfolding keeps_glass_def by (rule exI [of _ "st_hub st"]) simp

lemma keeps_glass_on_hub: "(\<And>h. glass_of (f h) = glass_of h) \<Longrightarrow> keeps_glass st (on_hub f st)"
  by (auto simp: keeps_glass_def on_hub_def)

lemma keeps_glass_trans: "keeps_glass a b \<Longrightarrow> keeps_glass b c \<Longrightarrow> keeps_glass a c"
  by (auto simp: keeps_glass_def)

lemma keeps_glass_fold: "(\<And>t s. keeps_glass s (f t s)) \<Longrightarrow> keeps_glass st (fold f ts st)"
  by (induction ts arbitrary: st) (auto intro: keeps_glass_trans)

lemma bench_keeps: "keeps_glass st (bench_run hw progs ts st)"
  unfolding bench_run_def Let_def
  by (auto split: prod.split intro!: keeps_glass_on_hub keeps_glass_fold
      intro: keeps_glass_trans [OF keeps_glass_on_hub keeps_glass_trans [OF keeps_glass_fold keeps_glass_on_hub]])

lemma profile_rows_keep: "profile_rows row w h ys ts st = Some st' \<Longrightarrow> keeps_glass st st'"
proof (induction ys arbitrary: st)
  case (Cons y ys)
  then obtain st1 where s: "profile_row row w h y ts st = Some st1" "profile_rows row w h ys ts st1 = Some st'"
    by (auto split: bind_splits)
  have "keeps_glass st st1"
    using s(1) by (auto simp: profile_row_def split: if_splits intro!: keeps_glass_fold keeps_glass_on_hub)
  then show ?case using Cons.IH [OF s(2)] by (rule keeps_glass_trans)
qed simp

section \<open>Rest is kept\<close>

lemma rest_keeps:
  assumes "at_rest glass bd" "keeps_glass (bd_stage bd) (bd_stage bd')" "anim bd' = anim bd"
  shows "at_rest glass bd'"
  using assms by (auto simp: at_rest_iff keeps_glass_def bd_rx_def bd_hub_def)

lemma profile_rest:
  assumes "at_rest glass bd" "profile_run hw progs ts bd = Some bd'"
  shows "at_rest glass bd'"
proof (rule rest_keeps [OF assms(1)])
  have z: "keeps_glass (bd_stage bd) (on_hub (put_back buf) (bd_stage bd))" for buf by (rule keeps_glass_on_hub) simp
  show "keeps_glass (bd_stage bd) (bd_stage bd')"
    using assms(2) z bench_keeps keeps_glass_trans [OF z profile_rows_keep]
    by (auto simp: profile_run_def Let_def split: if_splits option.splits prod.splits)
  show "anim bd' = anim bd"
    using assms(2) by (auto simp: profile_run_def Let_def split: if_splits option.splits prod.splits)
qed

definition resting :: "receiver \<Rightarrow> hub75 \<Rightarrow> bool" where
  "resting rx h \<longleftrightarrow> hold rx \<and> total_chunks rx = 0 \<and> \<not> dma_on h"

lemma rest_resting: "at_rest glass bd \<Longrightarrow> resting (bd_rx bd) (bd_hub bd)"
  by (simp add: at_rest_def resting_def)

lemma resting_done:
  assumes "resting rx h"
  shows "present_done_frame hw t rx h = Some (False, rx, h)" "present_done_now hw t rx h = Some (False, rx, h)"
  using assms by (simp_all add: resting_def present_done_now_def present_done_frame_def dma_done_frame_def dma_enabled_def)

lemma pending_resting:
  assumes "apply_pending_palette hw rx h = (rx', h')"
  shows "hold rx' = hold rx" "total_chunks rx' = total_chunks rx" "glass_of h' = glass_of h"
  using assms by (auto simp: apply_pending_palette_def split: if_splits)

lemma resting_tick:
  assumes "resting rx h"
  shows "\<exists>rx' h'. receiver_tick hw t rx h = Some (False, rx', h') \<and> hold rx' \<and> total_chunks rx' = 0 \<and> glass_of h' = glass_of h"
proof -
  obtain rx1 h1 where p: "apply_pending_palette hw rx h = (rx1, h1)" by fastforce
  note k = pending_resting [OF p]
  have r1: "resting rx1 h1" using assms k by (simp add: resting_def glass_of_def)
  have t: "present_done_frame hw t r g = Some (False, r, g)" "adopt_dma_frame hw t r g = Some (False, r, g)" "total_chunks r = 0"
    if "resting r g" for r g
    using that resting_done(1) by (simp_all add: resting_def adopt_dma_frame_def dma_frame_identity_def dma_enabled_def)
  show ?thesis using t [OF assms] t [OF r1] p k assms by (auto simp: receiver_tick_def Let_def resting_def)
qed

lemma held_packet: "hold rx \<Longrightarrow> \<exists>s. process_packet hw al data t rx h = Some (False, rx\<lparr>stats := s\<rparr>, h)"
  by (auto simp: process_packet_def Let_def with_stats_def)

lemma datagrams_rest:
  "at_rest glass bd \<Longrightarrow> handle_bitmap_smoltcp hw al t ds bd = Some bd' \<Longrightarrow> at_rest glass bd'"
proof (induction ds arbitrary: bd)
  case (Cons d ds)
  obtain s where p: "process_packet hw al d t (bd_rx bd) (bd_hub bd) = Some (False, (bd_rx bd)\<lparr>stats := s\<rparr>, bd_hub bd)"
    using held_packet Cons.prems(1) by (fastforce simp: at_rest_def)
  let ?bd = "took_packet t (False, (bd_rx bd)\<lparr>stats := s\<rparr>, bd_hub bd) bd"
  have "at_rest glass ?bd" using Cons.prems(1) by (simp add: at_rest_iff took_packet_def bd_rx_def bd_hub_def)
  moreover have "handle_bitmap_smoltcp hw al t ds ?bd = Some bd'" using Cons.prems(2) by (simp add: p)
  ultimately show ?case by (rule Cons.IH)
qed simp

lemma frame_rest:
  assumes "at_rest glass bd" "fast_frame hw al t f bd = Some bd'"
  shows "at_rest glass bd'"
proof -
  let ?rx = "st_rx (bd_stage bd)" and ?h = "st_hub (bd_stage bd)"
  obtain s where p: "process_packet hw al (drop (22 + ihl_of f * 4) f) t ?rx ?h = Some (False, ?rx\<lparr>stats := s\<rparr>, ?h)"
    using held_packet assms(1) by (fastforce simp: at_rest_def bd_rx_def)
  have "at_rest glass bd' \<longleftrightarrow> at_rest glass bd"
    using assms(2) by (auto simp: fast_frame_def process_raw_bitmap_def in_bounds_def in_slice_def Let_def bd_rx_def bd_hub_def p at_rest_iff split: if_splits)
  then show ?thesis using assms(1) by simp
qed

lemma tick_rest:
  assumes "at_rest glass bd"
  shows "bitmap_tick hw progs act ts t bd = Some bd' \<Longrightarrow> at_rest glass bd'"
    and "bitmap_present_tick hw t bd = Some bd' \<Longrightarrow> at_rest glass bd'"
proof -
  obtain rx h where k: "receiver_tick hw t (bd_rx bd) (bd_hub bd) = Some (False, rx, h)" "hold rx" "total_chunks rx = 0"
    "glass_of h = glass_of (bd_hub bd)" using resting_tick [OF rest_resting [OF assms]] by blast
  show "at_rest glass bd'" if "bitmap_tick hw progs act ts t bd = Some bd'"
  proof (cases "profile_state bd = 1")
    case True
    then show ?thesis using that profile_rest [OF assms] by (simp add: bitmap_tick_def)
  next
    case False
    then show ?thesis using that assms k
      by (auto simp: bitmap_tick_def at_rest_iff bd_rx_def [of bd'] bd_hub_def [of bd'] split: if_splits)
  qed
  show "at_rest glass bd'" if "bitmap_present_tick hw t bd = Some bd'"
    using that assms resting_done(2) [OF rest_resting [OF assms]]
    by (auto simp: bitmap_present_tick_def at_rest_iff bd_rx_def [of bd'] bd_hub_def [of bd'] split: if_splits)
qed

lemma lighting_rest:
  assumes "at_rest glass bd"
  shows "at_rest glass (artnet_in hw ds bd)"
proof (rule rest_keeps [OF assms])
  have "glass_of (handle_artnet hw ds h) = glass_of h" for h
    unfolding handle_artnet_def by (induction ds arbitrary: h) (simp_all add: artnet_palette_def split: sum.split prod.split)
  then show "keeps_glass (bd_stage bd) (bd_stage (artnet_in hw ds bd))" by (simp add: artnet_in_def keeps_glass_on_hub)
qed (simp add: artnet_in_def)

lemma animation_rest: "at_rest glass bd \<Longrightarrow> animation_tick bd = bd"
  by (simp add: animation_tick_def at_rest_def)

lemma upd_keeps:
  "upd_board f nd = Some nd' \<Longrightarrow> f (nd_board nd) = Some (nd_board nd')"
  "upd_flash g nd = Some nd' \<Longrightarrow> nd_board nd' = nd_board nd"
  by (auto simp: upd_board_def upd_flash_def)

lemma step_rest:
  assumes "card_step progs ops e nd = Some nd'" "\<not> is_request e" "at_rest glass (nd_board nd)"
  shows "at_rest glass (nd_board nd')"
proof (cases e)
  case (Request hw t req)
  then show ?thesis using assms(2) by simp
next
  case (Frame hw al t f)
  then show ?thesis using frame_rest [OF assms(3)] upd_keeps(1) assms(1) by fastforce
next
  case (Datagrams hw al t ds)
  then show ?thesis using datagrams_rest [OF assms(3)] upd_keeps(1) assms(1) by fastforce
next
  case (Lighting hw ds)
  then have "nd_board nd' = artnet_in hw ds (nd_board nd)"
    using upd_keeps(1) [of "Some \<circ> artnet_in hw ds" nd nd'] assms(1) by simp
  then show ?thesis using lighting_rest [OF assms(3)] by simp
next
  case (PresentTick hw t)
  then show ?thesis using tick_rest(2) [OF assms(3)] upd_keeps(1) assms(1) by fastforce
next
  case (BitmapTick hw act ts t)
  then show ?thesis using tick_rest(1) [OF assms(3)] upd_keeps(1) assms(1) by fastforce
next
  case AnimationTick
  then have "nd_board nd' = animation_tick (nd_board nd)"
    using upd_keeps(1) [of "Some \<circ> animation_tick" nd nd'] assms(1) by simp
  then show ?thesis using animation_rest [OF assms(3)] assms(3) by simp
qed (use assms upd_keeps(2) in fastforce)+

lemma run_rest:
  "card_run progs ops es nd = Some nd' \<Longrightarrow> list_all (\<lambda>e. \<not> is_request e) es \<Longrightarrow> at_rest glass (nd_board nd) \<Longrightarrow>
    at_rest glass (nd_board nd')"
  by (induction es arbitrary: nd) (auto split: bind_splits dest: step_rest)

section \<open>A picture put on the glass\<close>

lemma show_pattern_effect:
  fixes pict :: "u32 list"
  assumes "total_chunks (st_rx st) = 0" "unat (hlength (st_hub st)) \<le> length (fb_back (st_hub st))"
  defines "st' \<equiv> show_pattern pict False st"
  shows "hold (st_rx st') \<and> total_chunks (st_rx st') = 0 \<and> \<not> prog_active st'"
    and "glass_of (st_hub st') = (False, fb_back (write_img_data 0 pict (st_hub st)), False, False)"
    and "i < length pict \<Longrightarrow> i < unat (hlength (st_hub st)) \<Longrightarrow> fb_front (st_hub st') ! i = pict ! i"
proof -
  show "hold (st_rx st') \<and> total_chunks (st_rx st') = 0 \<and> \<not> prog_active st'"
    using assms(1) by (simp add: st'_def show_pattern_def on_hub_def set_stream_hold_def set_hold_def invalidate_mode_cache_def Let_def)
  show g: "glass_of (st_hub st') = (False, fb_back (write_img_data 0 pict (st_hub st)), False, False)"
    by (simp add: st'_def show_pattern_def on_hub_def set_stream_hold_def set_dma_enabled_def publish_dma_limit_def hub_on_def
        hub_off_def set_mode_def swap_buffers_def swap_halves_def glass_of_def Let_def)
  assume i: "i < length pict" "i < unat (hlength (st_hub st))"
  have l: "img_len (st_hub st) = unat (hlength (st_hub st))" using assms(2) by (simp add: img_len_def)
  have "fb_back (write_img_data 0 pict (st_hub st)) ! i = pict ! i"
    using i l assms(2) by (simp add: write_img_data_def Let_def nth_splice)
  then show "fb_front (st_hub st') ! i = pict ! i" using g by (simp add: glass_of_def)
qed

lemma pattern_route: "map_of (post_routes hw progs ops t) (lit ''/api/display/pattern'') = Some api_display_pattern"
  by (simp add: post_routes_def switches_def lit_def)

lemma pattern_request:
  fixes hw :: hub_hw and progs :: "program list" and t :: int and ops :: "'s spi_ops" and nd :: "'s node" and req :: http_request
  assumes req: "req_method req = Post" "path req = lit ''/api/display/pattern''"
    and body: "json_get_str (body_str req) (lit ''name'') = Some name" "map_of (named_patterns 4) name = Some pict" "name \<noteq> lit ''rainbow_anim''"
    and img: "get_img_param (bd_hub (nd_board nd)) = (w, len)" "0 < w" "h = ucast (len div ucast w)" "0 < h"
    and room: "unat len \<le> length (fb_back (bd_hub (nd_board nd)))"
    and quiet: "total_chunks (bd_rx (nd_board nd)) = 0"
  defines "bd \<equiv> nd_board (snd (handle_http_request hw progs ops t req nd))"
  shows "at_rest (fb_front (bd_hub bd)) bd"
    and "i < unat w * unat h \<Longrightarrow> i < unat len \<Longrightarrow> fb_front (bd_hub bd) ! i = pict w h ! i"
proof -
  have out: "unat OUTPUTS = 4" by (simp add: OUTPUTS_def)
  have nz: "w \<noteq> 0" "h \<noteq> 0" using img(2,4) by auto
  have "snd (handle_http_request hw progs ops t req nd) = snd (api_display_pattern (body_str req) nd)"
    using req by (simp add: handle_http_request_def pattern_route) (simp add: lit_def)
  also have "\<dots> = on_board (\<lambda>bd. (with_stage (show_pattern (pict w h) False) bd)\<lparr>anim := NoAnimation\<rparr>) nd"
    using body img nz by (simp add: api_display_pattern_def nd_stage_def bd_hub_def out)
  finally have bd: "bd = (with_stage (show_pattern (pict w h) False) (nd_board nd))\<lparr>anim := NoAnimation\<rparr>"
    by (simp add: bd_def on_board_def)
  then have st: "bd_stage bd = show_pattern (pict w h) False (bd_stage (nd_board nd))" "anim bd = NoAnimation" by simp_all
  have l: "hlength (st_hub (bd_stage (nd_board nd))) = len" using img(1) by (simp add: get_img_param_def bd_hub_def)
  note e = show_pattern_effect [where st = "bd_stage (nd_board nd)" and pict = "pict w h", folded st(1)]
  have pre: "total_chunks (st_rx (bd_stage (nd_board nd))) = 0"
    "unat (hlength (st_hub (bd_stage (nd_board nd)))) \<le> length (fb_back (st_hub (bd_stage (nd_board nd))))"
    using quiet room l by (simp_all add: bd_rx_def bd_hub_def)
  show "at_rest (fb_front (bd_hub bd)) bd"
    using e(1,2) [OF pre] st(2) by (simp add: at_rest_iff bd_rx_def bd_hub_def glass_of_def)
  show "fb_front (bd_hub bd) ! i = pict w h ! i" if "i < unat w * unat h" "i < unat len"
    using e(3) [OF pre, of i] that pattern_fills [OF map_of_SomeD [OF body(2)]] l by (simp add: bd_hub_def)
qed

text \<open>
  The hypothesis that no frame is half collected is needed: hold does not reach the frame in
  progress, so a frame that misses at most two chunks is still presented, over the picture, a
  quarter of a second after its last packet.
\<close>

lemma stale_frame_over_picture:
  assumes "rx_inv rx" "0 < total_chunks rx" "missing rx \<le> 2" "received rx \<noteq> 0" "hold rx"
    and "\<not> auto_swap h" "\<not> dma_on h" "\<not> hw_filter_on rx" "\<not> pending_palette_valid rx" "STALE_MS \<le> t - last_packet_ms rx"
  shows "\<exists>rx' h'. receiver_tick hw t rx h = Some (True, rx', h') \<and> fb_front h' = fb_back (repaired rx h)"
proof -
  have d: "present_done_frame hw t rx h = Some (False, rx, h)" "adopt_dma_frame hw t rx h = Some (False, rx, h)"
    "merge_dma_arrival hw h t rx = rx"
    using assms(7) by (simp_all add: present_done_frame_def adopt_dma_frame_def merge_dma_arrival_def dma_done_frame_def
        dma_frame_identity_def dma_arrival_def dma_enabled_def)
  define rs where "rs = with_stats (\<lambda>s. s\<lparr>frames_stale := frames_stale s + 1\<rparr>) rx"
  have s: "rx_inv rs" "total_chunks rs = total_chunks rx" "missing rs = missing rx" "repaired rs h = repaired rx h"
    using assms(1) by (simp_all add: rs_def) (simp_all add: with_stats_def repaired_def)
  obtain r1 h1 where p1: "present hw t rx h = Some (True, r1, h1)" "same_pixels (swap_buffers (repaired rx h)) h1"
    using present_show [OF assms(1-3,6)] by blast
  obtain r2 h2 where p2: "present hw t rs h = Some (True, r2, h2)" "same_pixels (swap_buffers (repaired rx h)) h2"
    using present_show [of rs h hw t] s assms(2,3,6) by auto
  have "receiver_tick hw t rx h = Some (True, r1, h1) \<or> receiver_tick hw t rx h = Some (True, r2, h2)"
    using assms(2,4,8-10) by (simp add: receiver_tick_def d p1(1) p2(1) [unfolded rs_def])
  then show ?thesis using p1(2) p2(2) by (auto simp: same_pixels_def)
qed

section \<open>Properties\<close>

text \<open>
  C33. Every run of the whole card, whatever the bytes of its HTTP requests and however they
  interleave with packets, polls and the main loop, is on its flash side a run of the flash system; so
  no request changes a byte of the golden image, nor any other byte outside the application and the
  scratch region.
\<close>

theorem no_request_harms_golden:
  assumes "card_run progs ops es nd = Some nd'" and "nd_flash nd = \<lparr>fs_job = JOB_init, fs_loader = loader_new, fs_world = \<lparr>chip = c, wire = []\<rparr>\<rparr>"
    and "chip_frame ops" and "protected_byte (unat a)"
  shows "flash_reach ops c (nd_flash nd') \<and> read_byte ops (fs_world (nd_flash nd')) a = op_mmap ops c a"
proof -
  have "flash_reach ops c (nd_flash nd')" by (rule run_reach [OF assms(1)]) (simp add: assms(2) boot)
  then show ?thesis using reach_protected [OF _ assms(3,4)] by simp
qed


section \<open>Witnesses\<close>

definition pattern_bytes :: "u8 list" where
  "pattern_bytes = bytes ''POST /api/display/pattern HTTP/1.1'' @ [13, 10, 13, 10] @
     [123, 34] @ bytes ''name'' @ [34, 58, 34] @ bytes ''white'' @ [34, 125]"

definition asks_white :: http_request where
  "asks_white = \<lparr>hbuf = pattern_bytes, hlen = length pattern_bytes, hstate = Complete\<rparr>"

definition demo_node :: "nor node" where
  "demo_node = \<lparr>nd_board = \<lparr>bd_card = \<lparr>cd_stage = demo_stage, cd_layout = single_panel 64 32, clk_div_reg = 0,
         throttle_reg = 0, output_mismatch = 0, module_mismatch = 0, rgb_order_unsupported = False\<rparr>,
       bd_isr = demo_isr, anim = Rainbow 7, profile_state = 0, profile_kind = 0, bd_stats = stats receiver_new, last_bitmap = 0\<rparr>,
     nd_flash = \<lparr>fs_job = JOB_init, fs_loader = loader_new, fs_world = \<lparr>chip = nor0, wire = []\<rparr>\<rparr>,
     boot_server = None, pixel_filter = False, swap_whole = True, isr_prof = (0, 0, 0), reboot_at = 0\<rparr>"

lemma asks_white_parts:
  "req_method asks_white = Post" "path asks_white = lit ''/api/display/pattern''"
  "json_get_str (body_str asks_white) (lit ''name'') = Some (lit ''white'')"
  by code_simp+

definition erase_bytes :: "u8 list" where
  "erase_bytes = bytes ''POST /api/flash/job HTTP/1.1'' @ [13, 10, 13, 10] @
     [123, 34] @ bytes ''kind'' @ [34, 58, 34] @ bytes ''erase'' @ [34, 44, 34] @ bytes ''addr'' @ [34] @ bytes '':0,'' @
     [34] @ bytes ''len'' @ [34] @ bytes '':4096'' @ [125]"

definition asks_erase :: http_request where
  "asks_erase = \<lparr>hbuf = erase_bytes, hlen = length erase_bytes, hstate = Complete\<rparr>"

definition erase_body :: str where
  "erase_body = [123, 34] @ lit ''kind'' @ [34, 58, 34] @ lit ''erase'' @ [34, 44, 34] @ lit ''addr'' @ [34] @ lit '':0,'' @
     [34] @ lit ''len'' @ [34] @ lit '':4096'' @ [125]"

lemma asks_erase_body: "req_method asks_erase = Post" "path asks_erase = lit ''/api/flash/job''" "body_str asks_erase = erase_body"
  by code_simp+

lemma erase_kind: "json_get_str erase_body (lit ''kind'') = Some (lit ''erase'')"
  by code_simp

lemma erase_numbers:
  "json_get_u32 erase_body (lit ''addr'') = Some 0" "json_get_u32 erase_body (lit ''len'') = Some 4096"
proof -
  have p: "find_sub [34, 97, 100, 100, 114, 34] erase_body = Some 16" "find_sub [34, 108, 101, 110, 34] erase_body = Some 25"
    "length (as_bytes [34, 97, 100, 100, 114, 34]) = 6" "length (as_bytes [34, 108, 101, 110, 34]) = 5"
    by code_simp+
  have d: "drop 22 erase_body = [58, 48, 44, 34, 108, 101, 110, 34, 58, 52, 48, 57, 54, 125]"
    "drop 30 erase_body = [58, 52, 48, 57, 54, 125]"
    by (simp_all add: erase_body_def lit_def)
  show "json_get_u32 erase_body (lit ''addr'') = Some 0" "json_get_u32 erase_body (lit ''len'') = Some 4096"
    using p d by (simp_all add: json_get_u32_def lit_def white_space_def strip_hex_def digit_in_def u32_from_radix_def)
qed

lemmas asks_erase_parts = asks_erase_body erase_kind erase_numbers

lemma erase_route: "map_of (post_routes hw progs ops t) (lit ''/api/flash/job'') = Some (api_flash_job_post ops)"
  by (simp add: post_routes_def switches_def lit_def)

lemma asks_erase_queues:
  "nd_flash (snd (handle_http_request hw progs nor_ops t asks_erase demo_node)) =
    \<lparr>fs_job = erase0, fs_loader = loader_new, fs_world = world0\<rparr>"
proof -
  have "snd (handle_http_request hw progs nor_ops t asks_erase demo_node) = snd (api_flash_job_post nor_ops (body_str asks_erase) demo_node)"
    using asks_erase_parts(1,2) by (simp add: handle_http_request_def erase_route) (simp add: lit_def)
  moreover have "nd_flash demo_node = \<lparr>fs_job = JOB_init, fs_loader = loader_new, fs_world = world0\<rparr>"
    by (simp add: demo_node_def world0_def)
  ultimately show ?thesis
    using asks_erase_parts(3-6) by (simp add: api_flash_job_post_def erase0_queued on_flash_def)
qed

lemma no_request_harms_golden_witness:
  "\<exists>nd'. card_run [] nor_ops [Request demo_gateware 5 asks_erase, AnimationTick] demo_node = Some nd' \<and>
    fs_job (nd_flash nd') = erase0 \<and> read_byte nor_ops (fs_world (nd_flash nd')) 0x200001 = 0xB3"
proof -
  obtain nd' where r: "card_run [] nor_ops [Request demo_gateware 5 asks_erase, AnimationTick] demo_node = Some nd'"
    and n: "nd_flash nd' = nd_flash (snd (handle_http_request demo_gateware [] nor_ops 5 asks_erase demo_node))"
    by (simp add: upd_board_def)
  have "nd_flash demo_node = \<lparr>fs_job = JOB_init, fs_loader = loader_new, fs_world = \<lparr>chip = nor0, wire = []\<rparr>\<rparr>"
    by (simp add: demo_node_def)
  from no_request_harms_golden [OF r this nor_frame, where a = "0x200001"] have "read_byte nor_ops (fs_world (nd_flash nd')) 0x200001 = 0xB3"
    by (simp add: protected_byte_def nor_ops_def nor0_def golden_mem_def)
  then show ?thesis using r n asks_erase_queues by auto
qed


text \<open>A value past the width of the sum is not ignored, as 300 is; it wraps and is written.\<close>

lemma status_value_wraps:
  "sr_value SR3_KEY (123 # SR3_KEY @ lit '':4294967328'' @ [125]) = 32 \<and>
   sr_value SR3_KEY (123 # SR3_KEY @ lit '':300'' @ [125]) = 0"
  by code_simp

end
