(* ===== verification/Eth_Mac.thy ===== *)
theory Eth_Mac
  imports LW_Prelude
begin

text \<open>
  \<^verbatim>\<open>src/ethernet.rs\<close>: the buffers of the Ethernet core, the tokens through which smoltcp
  receives and sends, the interrupt enable, and the ring that keeps frames between the interrupt
  and their reader. What the core has received is the list of its pending slots, each the memory
  of the slot and the length register.
\<close>

definition SLOT_SIZE :: nat where [src_consts]: "SLOT_SIZE = 2048"
definition NRXSLOTS :: nat where [src_consts]: "NRXSLOTS = 2"
definition RX_RING_SIZE :: nat where [src_consts]: "RX_RING_SIZE = 32"
definition RX_SLOT_SIZE :: nat where [src_consts]: "RX_SLOT_SIZE = 2048"

section \<open>The ring\<close>

record ring =
  rg_slots :: "u8 list list"
  rg_len :: "nat list"
  rg_write :: nat
  rg_read :: nat
  rg_overflow :: u32

definition ring_new :: ring where
  "ring_new = \<lparr>rg_slots = replicate RX_RING_SIZE (replicate RX_SLOT_SIZE 0), rg_len = replicate RX_RING_SIZE 0,
     rg_write = 0, rg_read = 0, rg_overflow = 0\<rparr>"

text \<open>The part \<^verbatim>\<open>poll_rx_to_ring\<close> and \<^verbatim>\<open>push_to_ring\<close> share.\<close>

definition ring_store :: "u8 list \<Rightarrow> ring \<Rightarrow> bool \<times> ring" where
  "ring_store data r =
     (let next_idx = (rg_write r + 1) mod RX_RING_SIZE in
      if next_idx = rg_read r then (False, r\<lparr>rg_overflow := rg_overflow r + 1\<rparr>)
      else (True, r\<lparr>rg_slots := (rg_slots r)[rg_write r := splice 0 data (rg_slots r ! rg_write r)],
                    rg_len := (rg_len r)[rg_write r := length data], rg_write := next_idx\<rparr>))"

definition push_to_ring :: "u8 list \<Rightarrow> ring \<Rightarrow> bool \<times> ring" where
  "push_to_ring data r = ring_store (take RX_SLOT_SIZE data) r"

fun poll_rx_to_ring :: "(u8 list \<times> nat) list \<Rightarrow> ring \<Rightarrow> nat \<times> ring" where
  "poll_rx_to_ring [] r = (0, r)"
| "poll_rx_to_ring ((buf, len) # pending) r =
     (case ring_store (take (min len RX_SLOT_SIZE) buf) r of (ok, r1) \<Rightarrow>
      case poll_rx_to_ring pending r1 of (count, r2) \<Rightarrow> (if ok then count + 1 else count, r2))"

definition ring_has_packets :: "ring \<Rightarrow> bool" where
  "ring_has_packets r \<longleftrightarrow> rg_read r \<noteq> rg_write r"

text \<open>The slice handed out is the front of a slot that stays where it is.\<close>

definition ring_slice :: "ring \<Rightarrow> nat \<Rightarrow> u8 list" where
  "ring_slice r i = take (rg_len r ! i) (rg_slots r ! i)"

definition ring_pop :: "ring \<Rightarrow> u8 list option \<times> ring" where
  "ring_pop r =
     (if rg_read r = rg_write r then (None, r)
      else (Some (ring_slice r (rg_read r)), r\<lparr>rg_read := (rg_read r + 1) mod RX_RING_SIZE\<rparr>))"

section \<open>Tokens\<close>

record mac =
  mac_mem :: "u8 list"
  mac_tx_slot :: nat
  mac_sent :: "(nat \<times> nat) list"
  mac_int_enabled :: bool
  mac_in_use :: bool

definition peek_rx :: "(u8 list \<times> nat) list \<Rightarrow> u8 list option" where
  "peek_rx pending = (case pending of [] \<Rightarrow> None | (buf, len) # _ \<Rightarrow> Some (take len buf))"

definition ack_rx :: "(u8 list \<times> nat) list \<Rightarrow> (u8 list \<times> nat) list" where
  "ack_rx = tl"

definition rx_consume :: "(u8 list \<Rightarrow> 'r) \<Rightarrow> (u8 list \<times> nat) list \<Rightarrow> 'r option \<times> (u8 list \<times> nat) list" where
  "rx_consume f pending = (case peek_rx pending of None \<Rightarrow> (None, pending) | Some frame \<Rightarrow> (Some (f frame), ack_rx pending))"

text \<open>\<open>frame\<close> is what the caller wrote in the buffer. A core that is never ready hangs the call; more
  than the buffer holds is a panic.\<close>

definition tx_consume :: "bool \<Rightarrow> u8 list \<Rightarrow> mac \<Rightarrow> mac option" where
  "tx_consume ready frame m =
     (if \<not> ready \<or> length frame > SLOT_SIZE then None
      else Some (m\<lparr>mac_mem := splice ((NRXSLOTS + mac_tx_slot m) * SLOT_SIZE) frame (mac_mem m),
                   mac_sent := mac_sent m @ [(mac_tx_slot m, length frame)],
                   mac_tx_slot := (mac_tx_slot m + 1) mod 2\<rparr>))"

text \<open>Clearing the pending event gives up the slot at the front, read or not.\<close>

definition enable_rx_interrupt :: "(u8 list \<times> nat) list \<Rightarrow> mac \<Rightarrow> (u8 list \<times> nat) list \<times> mac" where
  "enable_rx_interrupt pending m = (ack_rx pending, m\<lparr>mac_int_enabled := True, mac_in_use := True\<rparr>)"

definition disable_rx_interrupt :: "mac \<Rightarrow> mac" where
  "disable_rx_interrupt m = m\<lparr>mac_int_enabled := False\<rparr>"

definition check_and_reenable_interrupt :: "mac \<Rightarrow> bool \<times> mac" where
  "check_and_reenable_interrupt m =
     (if mac_in_use m \<and> \<not> mac_int_enabled m then (True, m\<lparr>mac_int_enabled := True\<rparr>) else (False, m))"

text \<open>Sending writes one of the two send slots, in turn: the receive slots and the frame sent before keep
  their bytes.\<close>

lemma splice_nth:
  "i < length buf \<Longrightarrow> at + length src \<le> length buf \<Longrightarrow>
   splice at src buf ! i = (if at \<le> i \<and> i < at + length src then src ! (i - at) else buf ! i)"
  by (auto simp: splice_def nth_append min_def)

lemma tx_keeps:
  assumes "tx_consume ready frame m = Some m'" "length (mac_mem m) = 4 * SLOT_SIZE" "mac_tx_slot m < 2"
    and "i < 4 * SLOT_SIZE" "i div SLOT_SIZE \<noteq> NRXSLOTS + mac_tx_slot m"
  shows "mac_mem m' ! i = mac_mem m ! i"
proof -
  have "i < (2 + mac_tx_slot m) * 2048 \<or> (2 + mac_tx_slot m) * 2048 + 2048 \<le> i"
  proof (rule ccontr)
    assume "\<not> ?thesis"
    then have "i div 2048 = 2 + mac_tx_slot m" by (intro div_nat_eqI) auto
    then show False using assms(5) by (simp add: src_consts)
  qed
  moreover have "(2 + mac_tx_slot m) * 2048 + length frame \<le> 8192" "length frame \<le> 2048"
    using assms(1,3) by (auto simp: tx_consume_def src_consts split: if_splits)
  ultimately show ?thesis
    using assms by (auto simp: tx_consume_def src_consts splice_nth split: if_splits)
qed

lemma tx_writes:
  assumes "tx_consume ready frame m = Some m'" "length (mac_mem m) = 4 * SLOT_SIZE" "mac_tx_slot m < 2"
  shows "take (length frame) (drop ((NRXSLOTS + mac_tx_slot m) * SLOT_SIZE) (mac_mem m')) = frame \<and>
    mac_tx_slot m' \<noteq> mac_tx_slot m \<and> mac_tx_slot m' < 2 \<and> length (mac_mem m') = 4 * SLOT_SIZE"
proof -
  have "(2 + mac_tx_slot m) * 2048 + length frame \<le> 8192" "(2 + mac_tx_slot m) * 2048 \<le> 8192"
    using assms(1,3) by (auto simp: tx_consume_def src_consts split: if_splits)
  moreover have "mac_tx_slot m = 0 \<or> mac_tx_slot m = 1" using assms(3) by linarith
  ultimately show ?thesis
    using assms(1,2) by (auto simp: tx_consume_def src_consts splice_def split: if_splits)
qed

section \<open>A bounded queue\<close>

text \<open>What a reader of the ring relies on, whatever keeps the frames.\<close>

datatype 'a queue_op = Push 'a | Pop
datatype 'a queue_out = Pushed bool | Popped "'a option"

fun queue_step :: "nat \<Rightarrow> 'a queue_op \<Rightarrow> 'a list \<Rightarrow> 'a queue_out \<times> 'a list" where
  "queue_step cap (Push x) q = (if length q < cap then (Pushed True, q @ [x]) else (Pushed False, q))"
| "queue_step cap Pop q = (case q of [] \<Rightarrow> (Popped None, []) | x # q' \<Rightarrow> (Popped (Some x), q'))"

fun queue_run :: "nat \<Rightarrow> 'a queue_op list \<Rightarrow> 'a list \<Rightarrow> 'a queue_out list \<times> 'a list" where
  "queue_run cap [] q = ([], q)"
| "queue_run cap (op1 # ops) q =
     (case queue_step cap op1 q of (out, q1) \<Rightarrow> case queue_run cap ops q1 of (outs, q2) \<Rightarrow> (out # outs, q2))"

text \<open>Any pushes and pops on something that keeps frames.\<close>

fun op_step :: "('a \<Rightarrow> 'q \<Rightarrow> bool \<times> 'q) \<Rightarrow> ('q \<Rightarrow> 'b option \<times> 'q) \<Rightarrow> 'a queue_op \<Rightarrow> 'q \<Rightarrow> 'b queue_out \<times> 'q" where
  "op_step push pop (Push x) q = (case push x q of (b, q') \<Rightarrow> (Pushed b, q'))"
| "op_step push pop Pop q = (case pop q of (r, q') \<Rightarrow> (Popped r, q'))"

fun op_run :: "('a \<Rightarrow> 'q \<Rightarrow> bool \<times> 'q) \<Rightarrow> ('q \<Rightarrow> 'b option \<times> 'q) \<Rightarrow> 'a queue_op list \<Rightarrow> 'q \<Rightarrow> 'b queue_out list \<times> 'q" where
  "op_run push pop [] q = ([], q)"
| "op_run push pop (op1 # ops) q =
     (case op_step push pop op1 q of (out, q1) \<Rightarrow> case op_run push pop ops q1 of (outs, q2) \<Rightarrow> (out # outs, q2))"

locale bounded_queue =
  fixes push :: "'a \<Rightarrow> 'q \<Rightarrow> bool \<times> 'q"
    and pop :: "'q \<Rightarrow> 'b option \<times> 'q"
    and clip :: "'a \<Rightarrow> 'b"
    and cap :: nat
    and contents :: "'q \<Rightarrow> 'b list"
    and ok :: "'q \<Rightarrow> bool"
  assumes push_ok: "ok q \<Longrightarrow> ok (snd (push x q))"
    and push_room: "ok q \<Longrightarrow> length (contents q) < cap \<Longrightarrow> fst (push x q) \<and> contents (snd (push x q)) = contents q @ [clip x]"
    and push_full: "ok q \<Longrightarrow> \<not> length (contents q) < cap \<Longrightarrow> \<not> fst (push x q) \<and> contents (snd (push x q)) = contents q"
    and pop_ok: "ok q \<Longrightarrow> ok (snd (pop q))"
    and pop_empty: "ok q \<Longrightarrow> contents q = [] \<Longrightarrow> fst (pop q) = None \<and> contents (snd (pop q)) = []"
    and pop_first: "ok q \<Longrightarrow> contents q = y # ys \<Longrightarrow> fst (pop q) = Some y \<and> contents (snd (pop q)) = ys"
begin

lemma step_refines:
  assumes "ok q"
  shows "ok (snd (op_step push pop op1 q)) \<and>
    queue_step cap (map_queue_op clip op1) (contents q) = (fst (op_step push pop op1 q), contents (snd (op_step push pop op1 q)))"
proof (cases op1)
  case (Push x)
  then show ?thesis
    using push_ok [OF assms, of x] push_room [OF assms, of x] push_full [OF assms, of x]
    by (cases "length (contents q) < cap") (auto split: prod.split)
next
  case Pop
  then show ?thesis
    using pop_ok [OF assms] pop_empty [OF assms] pop_first [OF assms]
    by (cases "contents q") (auto split: prod.split)
qed

lemma run_refines:
  "ok q \<Longrightarrow> queue_run cap (map (map_queue_op clip) ops) (contents q) = (fst (op_run push pop ops q), contents (snd (op_run push pop ops q)))
    \<and> ok (snd (op_run push pop ops q))"
proof (induction ops arbitrary: q)
  case (Cons op1 ops)
  from step_refines [OF Cons.prems, of op1] Cons.IH [of "snd (op_step push pop op1 q)"]
  show ?case by (auto split: prod.split)
qed simp

end

section \<open>The ring is one\<close>

definition ring_ok :: "ring \<Rightarrow> bool" where
  "ring_ok r \<longleftrightarrow> length (rg_slots r) = RX_RING_SIZE \<and> length (rg_len r) = RX_RING_SIZE \<and>
     rg_write r < RX_RING_SIZE \<and> rg_read r < RX_RING_SIZE \<and> (\<forall>s \<in> set (rg_slots r). length s = RX_SLOT_SIZE)"

definition ring_count :: "ring \<Rightarrow> nat" where
  "ring_count r = (rg_write r + RX_RING_SIZE - rg_read r) mod RX_RING_SIZE"

definition ring_contents :: "ring \<Rightarrow> u8 list list" where
  "ring_contents r = map (\<lambda>i. ring_slice r ((rg_read r + i) mod RX_RING_SIZE)) [0..<ring_count r]"

lemma ring_ok_new: "ring_ok ring_new" and ring_contents_new: "ring_contents ring_new = []"
  by (simp_all add: ring_ok_def ring_new_def ring_contents_def ring_count_def src_consts)

lemma ring_count_cases:
  "ring_ok r \<Longrightarrow> ring_count r = (if rg_read r \<le> rg_write r then rg_write r - rg_read r else rg_write r + 32 - rg_read r)"
  by (auto simp: ring_ok_def ring_count_def src_consts le_mod_geq)

lemma ring_next_cases: "n < 32 \<Longrightarrow> Suc n mod 32 = (if n = 31 then 0 else Suc n)"
  by auto

lemma length_ring_contents [simp]: "length (ring_contents r) = ring_count r"
  by (simp add: ring_contents_def)

lemma ring_full_iff:
  assumes "ring_ok r"
  shows "(rg_write r + 1) mod RX_RING_SIZE = rg_read r \<longleftrightarrow> \<not> ring_count r < 31"
proof -
  have "rg_write r < 32" "rg_read r < 32" using assms by (auto simp: ring_ok_def src_consts)
  then show ?thesis
    unfolding ring_count_cases [OF assms] RX_RING_SIZE_def Suc_eq_plus1 [symmetric] ring_next_cases [OF \<open>rg_write r < 32\<close>]
    by (simp split: if_split) linarith
qed

lemma wrap_cases: "n < 64 \<Longrightarrow> n mod 32 = (if n < 32 then n else n - (32 :: nat))"
  by (simp add: le_mod_geq)

lemma ring_slot_at:
  assumes "ring_ok r" "i \<le> ring_count r"
  shows "(rg_read r + i) mod RX_RING_SIZE = rg_write r \<longleftrightarrow> i = ring_count r"
proof -
  have b: "rg_write r < 32" "rg_read r < 32" using assms(1) by (auto simp: ring_ok_def src_consts)
  then have "rg_read r + i < 64" using assms ring_count_cases [OF assms(1)] by (simp split: if_splits)
  then show ?thesis
    using b assms(2) unfolding RX_RING_SIZE_def wrap_cases [OF \<open>rg_read r + i < 64\<close>] ring_count_cases [OF assms(1)]
    by (cases "rg_read r \<le> rg_write r"; cases "rg_read r + i < 32"; simp; linarith)
qed

lemma ring_slot_in_use: "ring_ok r \<Longrightarrow> i < ring_count r \<Longrightarrow> (rg_read r + i) mod RX_RING_SIZE \<noteq> rg_write r"
  by (simp add: ring_slot_at)

lemma ring_slot_next: "ring_ok r \<Longrightarrow> (rg_read r + ring_count r) mod RX_RING_SIZE = rg_write r"
  by (simp add: ring_slot_at)

lemma length_take_slot: "ring_ok r \<Longrightarrow> rg_slots r ! rg_write r \<in> set (rg_slots r)"
  by (simp add: ring_ok_def)

lemma ring_store_ok:
  assumes "ring_ok r" "length data \<le> RX_SLOT_SIZE"
  shows "ring_ok (snd (ring_store data r))"
proof -
  have "length (splice 0 data (rg_slots r ! rg_write r)) = RX_SLOT_SIZE"
    using assms length_take_slot [OF assms(1)] by (simp add: ring_ok_def)
  then have "\<forall>s \<in> set ((rg_slots r)[rg_write r := splice 0 data (rg_slots r ! rg_write r)]). length s = RX_SLOT_SIZE"
    using assms(1) set_update_subset_insert [of "rg_slots r" "rg_write r"] unfolding ring_ok_def by blast
  then show ?thesis using assms(1) by (simp add: ring_ok_def ring_store_def Let_def src_consts)
qed

lemma ring_store_room:
  assumes "ring_ok r" "length data \<le> RX_SLOT_SIZE" "ring_count r < 31"
  shows "fst (ring_store data r) \<and> ring_contents (snd (ring_store data r)) = ring_contents r @ [data]"
proof -
  let ?r = "snd (ring_store data r)"
  have nf: "(rg_write r + 1) mod RX_RING_SIZE \<noteq> rg_read r" using assms ring_full_iff by blast
  have w: "rg_write r < length (rg_slots r)" "rg_write r < length (rg_len r)" using assms(1) by (auto simp: ring_ok_def)
  have other: "ring_slice ?r j = ring_slice r j" if "j \<noteq> rg_write r" for j
    using that nf by (simp add: ring_store_def ring_slice_def)
  have new: "ring_slice ?r (rg_write r) = data" using nf w by (simp add: ring_store_def ring_slice_def splice_def)
  have rd: "rg_read ?r = rg_read r" using nf by (simp add: ring_store_def)
  have wr: "rg_write ?r = (rg_write r + 1) mod RX_RING_SIZE" using nf by (simp add: ring_store_def)
  have n: "ring_count ?r = ring_count r + 1"
    using ring_count_cases [OF assms(1)] ring_count_cases [OF ring_store_ok [OF assms(1,2)]] assms(1,3) rd wr nf
    by (auto simp: ring_next_cases ring_ok_def src_consts split: if_splits)
  have "ring_contents ?r = ring_contents r @ [data]"
    unfolding ring_contents_def n rd using other ring_slot_in_use [OF assms(1)] ring_slot_next [OF assms(1)] new by simp
  then show ?thesis using nf by (simp add: ring_store_def)
qed

lemma ring_store_full:
  assumes "ring_ok r" "\<not> ring_count r < 31"
  shows "\<not> fst (ring_store data r) \<and> ring_contents (snd (ring_store data r)) = ring_contents r"
proof -
  have "(rg_write r + 1) mod RX_RING_SIZE = rg_read r" using assms ring_full_iff by blast
  then show ?thesis by (simp add: ring_store_def ring_contents_def ring_count_def ring_slice_def)
qed

lemma ring_pop_ok: "ring_ok r \<Longrightarrow> ring_ok (snd (ring_pop r))"
  by (simp add: ring_ok_def ring_pop_def src_consts)

lemma ring_empty_iff: "ring_ok r \<Longrightarrow> rg_read r = rg_write r \<longleftrightarrow> ring_count r = 0"
  by (auto simp: ring_count_cases ring_ok_def src_consts)

lemma ring_pop_first:
  assumes "ring_ok r" "ring_contents r = y # ys"
  shows "fst (ring_pop r) = Some y \<and> ring_contents (snd (ring_pop r)) = ys"
proof -
  let ?r = "snd (ring_pop r)"
  obtain n where n: "ring_count r = Suc n" using assms(2) by (cases "ring_count r") (auto simp: ring_contents_def)
  then have ne: "rg_read r \<noteq> rg_write r" using ring_empty_iff [OF assms(1)] by simp
  have rd: "rg_read ?r = (rg_read r + 1) mod RX_RING_SIZE" and wr: "rg_write ?r = rg_write r" and sl: "ring_slice ?r = ring_slice r"
    using ne by (auto simp: ring_pop_def ring_slice_def fun_eq_iff)
  have c: "ring_count ?r = n"
    using ring_count_cases [OF assms(1)] ring_count_cases [OF ring_pop_ok [OF assms(1)]] assms(1) rd wr ne n
    by (auto simp: ring_next_cases ring_ok_def src_consts split: if_splits)
  have "ring_contents r = ring_slice r (rg_read r) # map (\<lambda>i. ring_slice r ((rg_read r + Suc i) mod RX_RING_SIZE)) [0..<n]"
    using assms(1) by (simp add: ring_contents_def n upt_conv_Cons map_Suc_upt [symmetric] ring_ok_def comp_def del: upt_Suc)
  moreover have "ring_contents ?r = map (\<lambda>i. ring_slice r ((rg_read r + Suc i) mod RX_RING_SIZE)) [0..<n]"
    by (simp add: ring_contents_def c rd sl mod_add_right_eq add.commute [of "Suc (rg_read r) mod RX_RING_SIZE"] add.commute [of "rg_read r"])
  ultimately show ?thesis using assms(2) ne by (simp add: ring_pop_def)
qed

interpretation rg: bounded_queue push_to_ring ring_pop "take RX_SLOT_SIZE" 31 ring_contents ring_ok
proof (unfold_locales, goal_cases)
  case (1 q x) then show ?case by (simp add: push_to_ring_def ring_store_ok)
next
  case (2 q x) then show ?case using ring_store_room [of q "take RX_SLOT_SIZE x"] by (simp add: push_to_ring_def)
next
  case (3 q x) then show ?case using ring_store_full [of q "take RX_SLOT_SIZE x"] by (simp add: push_to_ring_def)
next
  case (4 q) then show ?case by (rule ring_pop_ok)
next
  case (5 q) then show ?case using ring_empty_iff [of q] length_ring_contents [of q] by (simp add: ring_pop_def del: length_ring_contents)
next
  case (6 q y ys) then show ?case by (rule ring_pop_first)
qed

text \<open>
  C35. However the interrupt stores frames and their reader takes them, the ring answers as a queue
  of at most 31 frames, each cut to 2048 bytes: no frame is lost, repeated or reordered, but for
  those it refuses when 31 wait.
\<close>

theorem ring_is_queue:
  "fst (op_run push_to_ring ring_pop ops ring_new) = fst (queue_run 31 (map (map_queue_op (take RX_SLOT_SIZE)) ops) [])"
  using rg.run_refines [OF ring_ok_new, of ops] by (simp add: ring_contents_new)

text \<open>The slot handed out last is the one slot no store may fill, so a slice is valid until the next pop.\<close>

lemma store_keeps_slice:
  assumes "ring_ok r" "rg_read r = (i + 1) mod RX_RING_SIZE" "i < RX_RING_SIZE"
  shows "ring_slice (snd (push_to_ring data r)) i = ring_slice r i \<and> rg_read (snd (push_to_ring data r)) = rg_read r"
proof -
  have "rg_write r \<noteq> i" if "(rg_write r + 1) mod RX_RING_SIZE \<noteq> rg_read r" using that assms(2) by auto
  then show ?thesis by (simp add: push_to_ring_def ring_store_def ring_slice_def Let_def)
qed

lemma popped_slice_stays:
  assumes "ring_ok r" "ring_has_packets r"
  shows "ring_slice (snd (op_run push_to_ring ring_pop (map Push ds) (snd (ring_pop r)))) (rg_read r) = ring_slice r (rg_read r)"
proof -
  have "ring_slice (snd (op_run push_to_ring ring_pop (map Push ds) r')) i = ring_slice r' i"
    if "ring_ok r'" "rg_read r' = (i + 1) mod RX_RING_SIZE" "i < RX_RING_SIZE" for r' i
    using that
  proof (induction ds arbitrary: r')
    case (Cons d ds)
    show ?case
      using Cons.IH [OF rg.push_ok [OF Cons.prems(1), of d]] store_keeps_slice [OF Cons.prems, of d] Cons.prems(2,3)
      by (simp add: split_beta)
  qed simp
  from this [OF ring_pop_ok [OF assms(1)], of "rg_read r"] assms show ?thesis
    by (simp add: ring_pop_def ring_has_packets_def ring_ok_def ring_slice_def)
qed

text \<open>Draining the core stores its frames in turn.\<close>

lemma poll_is_pushes:
  "snd (poll_rx_to_ring pending r) = snd (op_run push_to_ring ring_pop (map (\<lambda>(buf, len). Push (take len buf)) pending) r)"
proof (induction pending r rule: poll_rx_to_ring.induct)
  case (2 buf len pending r)
  have "ring_store (take (min len RX_SLOT_SIZE) buf) r = push_to_ring (take len buf) r"
    by (simp add: push_to_ring_def min.commute)
  then show ?case using 2 by (cases "push_to_ring (take len buf) r") (simp add: split_beta)
qed simp

end
