(* ===== verification/Card_Clock.thy ===== *)
theory Card_Clock
  imports LW_Prelude
begin

text \<open>
  \<^verbatim>\<open>src/network.rs\<close>, the clock: seconds counted from the pending bit of a timer that
  runs down once a second, and milliseconds from its count. The timer is a peripheral, so a
  parameter: the four register accesses on its state. \<open>R\<close> is \<^verbatim>\<open>SYS_CLK_HZ\<close>, which the
  build takes from the gateware.
\<close>

record 't timer_ops =
  tm_pending :: "'t \<Rightarrow> bool \<times> 't"
  tm_clear :: "'t \<Rightarrow> 't"
  tm_latch :: "'t \<Rightarrow> 't"
  tm_value :: "'t \<Rightarrow> u32 \<times> 't"

record 't clock =
  ck_timer :: 't
  ck_seconds :: int
  ck_ms :: int

partial_function (option) count_seconds :: "'t timer_ops \<Rightarrow> 't \<Rightarrow> int \<Rightarrow> ('t \<times> int) option" where
  "count_seconds ops t secs =
     (case tm_pending ops t of (b, t1) \<Rightarrow>
        if b then count_seconds ops (tm_clear ops t1) (secs + 1) else Some (t1, secs))"

definition CYCLES_PER_MS :: "u32 \<Rightarrow> u32" where "CYCLES_PER_MS R = R div 1000"

definition update_time_from_timer :: "u32 \<Rightarrow> 't timer_ops \<Rightarrow> 't clock \<Rightarrow> 't clock option" where
  "update_time_from_timer R ops ck =
     (case count_seconds ops (ck_timer ck) (ck_seconds ck) of
        None \<Rightarrow> None
      | Some (t1, secs) \<Rightarrow>
          (case tm_value ops (tm_latch ops t1) of (countdown, t2) \<Rightarrow>
             let elapsed = (R - 1 - countdown) div CYCLES_PER_MS R in
             Some \<lparr>ck_timer = t2, ck_seconds = secs, ck_ms = secs * 1000 + uint elapsed\<rparr>))"

definition get_time_ms :: "u32 \<Rightarrow> 't timer_ops \<Rightarrow> 't clock \<Rightarrow> (int \<times> 't clock) option" where
  "get_time_ms R ops ck = map_option (\<lambda>ck'. (ck_ms ck', ck')) (update_time_from_timer R ops ck)"

text \<open>The time spent in the interrupt, on the same count.\<close>

definition prof_ticks :: "u32 \<Rightarrow> 't timer_ops \<Rightarrow> 't \<Rightarrow> u32 \<times> 't" where
  "prof_ticks R ops t = (case tm_value ops (tm_latch ops t) of (countdown, t1) \<Rightarrow> (R - 1 - countdown, t1))"

definition prof_delta :: "u32 \<Rightarrow> u32 \<Rightarrow> u32 \<Rightarrow> u32" where
  "prof_delta R a b = (if b \<ge> a then b - a else b + R - a)"

section \<open>What the timer promises\<close>

text \<open>
  \<open>cyc\<close> counts the cycles since the timer was started, \<open>mark\<close> the periods complete when the
  pending bit was last cleared, \<open>latched\<close> the count that was latched last. An access takes at
  most \<open>d\<close> cycles; the pending bit says that a period has been completed since it was cleared.
\<close>

definition timer_laws ::
  "nat \<Rightarrow> nat \<Rightarrow> 't timer_ops \<Rightarrow> ('t \<Rightarrow> nat) \<Rightarrow> ('t \<Rightarrow> nat) \<Rightarrow> ('t \<Rightarrow> nat) \<Rightarrow> bool" where
  "timer_laws R d ops cyc mark latched \<longleftrightarrow>
     (\<forall>t. (fst (tm_pending ops t) \<longleftrightarrow> cyc (snd (tm_pending ops t)) div R > mark t) \<and>
       mark (snd (tm_pending ops t)) = mark t \<and>
       cyc t \<le> cyc (snd (tm_pending ops t)) \<and> cyc (snd (tm_pending ops t)) \<le> cyc t + d) \<and>
     (\<forall>t. mark (tm_clear ops t) = cyc (tm_clear ops t) div R \<and>
       cyc t \<le> cyc (tm_clear ops t) \<and> cyc (tm_clear ops t) \<le> cyc t + d) \<and>
     (\<forall>t. mark (tm_latch ops t) = mark t \<and> latched (tm_latch ops t) = R - 1 - cyc (tm_latch ops t) mod R \<and>
       cyc t \<le> cyc (tm_latch ops t) \<and> cyc (tm_latch ops t) \<le> cyc t + d) \<and>
     (\<forall>t. unat (fst (tm_value ops t)) = latched t \<and> mark (snd (tm_value ops t)) = mark t \<and>
       cyc t \<le> cyc (snd (tm_value ops t)) \<and> cyc (snd (tm_value ops t)) \<le> cyc t + d)"

lemma timer_lawsD:
  assumes "timer_laws R d ops cyc mark latched"
  shows "fst (tm_pending ops t) \<longleftrightarrow> cyc (snd (tm_pending ops t)) div R > mark t"
    and "mark (snd (tm_pending ops t)) = mark t"
    and "cyc t \<le> cyc (snd (tm_pending ops t))" and "cyc (snd (tm_pending ops t)) \<le> cyc t + d"
    and "mark (tm_clear ops t) = cyc (tm_clear ops t) div R"
    and "cyc t \<le> cyc (tm_clear ops t)" and "cyc (tm_clear ops t) \<le> cyc t + d"
    and "mark (tm_latch ops t) = mark t" and "latched (tm_latch ops t) = R - 1 - cyc (tm_latch ops t) mod R"
    and "cyc t \<le> cyc (tm_latch ops t)" and "cyc (tm_latch ops t) \<le> cyc t + d"
    and "unat (fst (tm_value ops t)) = latched t" and "mark (snd (tm_value ops t)) = mark t"
    and "cyc t \<le> cyc (snd (tm_value ops t))" and "cyc (snd (tm_value ops t)) \<le> cyc t + d"
  using assms unfolding timer_laws_def by blast+

text \<open>The loop: at most one second is counted, and afterwards the count of seconds is the mark.\<close>

lemma count_seconds_once:
  assumes laws: "timer_laws R d ops cyc mark latched" and R: "0 < R"
    and "mark t \<le> cyc t div R" and room: "cyc t + 5 * d < (mark t + 2) * R"
  obtains t1 k where "count_seconds ops t secs = Some (t1, secs + int k)" "mark t1 = mark t + k"
    "cyc t \<le> cyc t1" "cyc t1 \<le> cyc t + 3 * d" "cyc t1 div R = mark t1" "k = 0 \<or> k = 1"
    "k = 1 \<or> cyc t1 div R = cyc t div R"
proof -
  note L = timer_lawsD [OF laws]
  define p where "p = snd (tm_pending ops t)"
  have p: "fst (tm_pending ops t) \<longleftrightarrow> cyc p div R > mark t" "mark p = mark t" "cyc t \<le> cyc p" "cyc p \<le> cyc t + d"
    unfolding p_def using L(1-4) by blast+
  have top: "n div R < mark t + 2" if "n \<le> cyc t + 5 * d" for n
    using that room R by (simp add: div_less_iff_less_mult)
  show thesis
  proof (cases "fst (tm_pending ops t)")
    case False
    have "count_seconds ops t secs = Some (p, secs)"
      using False unfolding p_def by (subst count_seconds.simps) (simp add: split_beta)
    moreover have "cyc p div R = mark t"
      using False p assms(3) div_le_mono [OF p(3), of R] by linarith
    moreover have "cyc t div R = mark t" using calculation(2) assms(3) div_le_mono [OF p(3), of R] by linarith
    ultimately show thesis using p by (intro that [of p 0]) auto
  next
    case True
    define c where "c = tm_clear ops p"
    define q where "q = snd (tm_pending ops c)"
    have c: "mark c = cyc c div R" "cyc p \<le> cyc c" "cyc c \<le> cyc p + d" unfolding c_def using L(5-7) by blast+
    have q: "fst (tm_pending ops c) \<longleftrightarrow> cyc q div R > mark c" "mark q = mark c" "cyc c \<le> cyc q" "cyc q \<le> cyc c + d"
      unfolding q_def using L(1-4) by blast+
    have mc: "mark c = mark t + 1"
      using True p(1) c div_le_mono [OF c(2), of R] top [of "cyc c"] p(4) by auto
    have "cyc q \<le> cyc t + 3 * d" using q(4) c(3) p(4) by linarith
    then have "cyc q div R = mark t + 1" using top [of "cyc q"] mc c(1) div_le_mono [OF q(3), of R] by linarith
    then have f: "\<not> fst (tm_pending ops c)" using q(1) mc by simp
    have "count_seconds ops t secs = count_seconds ops c (secs + 1)"
      using True unfolding c_def p_def by (subst count_seconds.simps) (simp add: split_beta)
    also have "\<dots> = Some (q, secs + 1)"
      using f unfolding q_def by (subst count_seconds.simps) (simp add: split_beta)
    finally show thesis
      using \<open>cyc q div R = mark t + 1\<close> \<open>cyc q \<le> cyc t + 3 * d\<close> p c q mc by (intro that [of q 1]) auto
  qed
qed

text \<open>Milliseconds of a number of cycles, by whole periods.\<close>

lemma ms_by_periods:
  fixes c :: nat
  assumes "1000 dvd R" "0 < R"
  shows "c * 1000 div R = c div R * 1000 + c mod R div (R div 1000)"
proof -
  obtain m where m: "R = 1000 * m" using assms(1) by blast
  then have "c * 1000 div R = c div m" using assms(2) by (simp add: mult.commute)
  also have "\<dots> = (c div R * R + c mod R) div m" by simp
  also have "c div R * R = c div R * 1000 * m" by (simp add: m)
  also have "(c div R * 1000 * m + c mod R) div m = c div R * 1000 + c mod R div m" using m assms(2) by simp
  finally show ?thesis using m by simp
qed

lemma elapsed_value:
  fixes R :: u32
  assumes "0 < unat R" "unat countdown = unat R - 1 - c mod unat R"
  shows "unat ((R - 1 - countdown) div CYCLES_PER_MS R) = c mod unat R div (unat R div 1000)"
proof -
  have m: "c mod unat R < unat R" using assms(1) by simp
  have "unat (R - 1) = unat R - 1" using assms(1) by (simp add: unat_sub word_le_nat_alt)
  moreover have "countdown \<le> R - 1" using assms(2) calculation by (simp add: word_le_nat_alt)
  ultimately have "unat (R - 1 - countdown) = c mod unat R" using assms(2) m by (simp add: unat_sub)
  then show ?thesis by (simp add: CYCLES_PER_MS_def unat_div)
qed

text \<open>
  C36. An update at least once a second returns, within five register accesses, the exact number of
  milliseconds since the timer was started, and keeps the count of seconds in step; when a
  period ends inside the update, between its look at the pending bit and the latch, the time it
  returns is one second behind. It is never ahead, and no second is lost.
\<close>

theorem clock_exact_or_second_behind:
  assumes laws: "timer_laws (unat R) d ops cyc mark latched" and R: "0 < unat R" "1000 dvd unat R"
    and step: "ck_seconds ck = int (mark (ck_timer ck))" "mark (ck_timer ck) \<le> cyc (ck_timer ck) div unat R"
    and room: "cyc (ck_timer ck) + 5 * d < (mark (ck_timer ck) + 2) * unat R"
  shows "\<exists>ck' c. update_time_from_timer R ops ck = Some ck' \<and>
    cyc (ck_timer ck) \<le> c \<and> c \<le> cyc (ck_timer ck) + 5 * d \<and>
    ck_seconds ck' = int (mark (ck_timer ck')) \<and> mark (ck_timer ck') \<le> cyc (ck_timer ck') div unat R \<and>
    (ck_ms ck' = int (c * 1000 div unat R) \<or>
     ck_ms ck' = int (c * 1000 div unat R) - 1000 \<and> cyc (ck_timer ck) div unat R < c div unat R)"
proof -
  let ?R = "unat R" and ?t = "ck_timer ck"
  note L = timer_lawsD [OF laws]
  obtain t1 k where cs: "count_seconds ops ?t (ck_seconds ck) = Some (t1, ck_seconds ck + int k)" and m1: "mark t1 = mark ?t + k"
    and c1: "cyc ?t \<le> cyc t1" "cyc t1 \<le> cyc ?t + 3 * d" "cyc t1 div ?R = mark t1"
    and k: "k = 0 \<or> k = 1" "k = 1 \<or> cyc t1 div ?R = cyc ?t div ?R"
    by (rule count_seconds_once [OF laws R(1) step(2) room])
  define l where "l = tm_latch ops t1"
  define v where "v = tm_value ops l"
  have l: "mark l = mark t1" "latched l = ?R - 1 - cyc l mod ?R" "cyc t1 \<le> cyc l" "cyc l \<le> cyc t1 + d"
    unfolding l_def using L(8-11) by blast+
  have v: "unat (fst v) = latched l" "mark (snd v) = mark l" "cyc l \<le> cyc (snd v)" "cyc (snd v) \<le> cyc l + d"
    unfolding v_def using L(12-15) by blast+
  define ms where "ms = ck_seconds ck + int k"
  have el: "unat ((R - 1 - fst v) div CYCLES_PER_MS R) = cyc l mod ?R div (?R div 1000)"
    using v(1) l(2) by (intro elapsed_value R(1)) simp
  then have elu: "uint ((R - 1 - fst v) div CYCLES_PER_MS R) = int (cyc l mod ?R div (?R div 1000))"
    by (simp only: uint_nat)
  have up: "update_time_from_timer R ops ck = Some \<lparr>ck_timer = snd v, ck_seconds = ms,
      ck_ms = int (mark t1 * 1000 + cyc l mod ?R div (?R div 1000))\<rparr>"
    using cs elu step(1) m1 unfolding update_time_from_timer_def v_def l_def ms_def
    by (simp add: split_beta Let_def)
  have lo: "mark t1 \<le> cyc l div ?R" using c1(3) div_le_mono [OF l(3), of ?R] by simp
  have hi: "cyc l div ?R < mark ?t + 2"
    using room R(1) l(4) c1(2) by (simp add: div_less_iff_less_mult)
  have true_ms: "cyc l * 1000 div ?R = cyc l div ?R * 1000 + cyc l mod ?R div (?R div 1000)"
    by (rule ms_by_periods [OF R(2,1)])
  have "cyc l div ?R = mark t1 \<or> cyc l div ?R = mark t1 + 1 \<and> cyc ?t div ?R < cyc l div ?R"
    using lo hi m1 k c1(3) by auto
  then have "int (mark t1 * 1000 + cyc l mod ?R div (?R div 1000)) = int (cyc l * 1000 div ?R) \<or>
      int (mark t1 * 1000 + cyc l mod ?R div (?R div 1000)) = int (cyc l * 1000 div ?R) - 1000 \<and> cyc ?t div ?R < cyc l div ?R"
    unfolding true_ms by auto
  moreover have "cyc ?t \<le> cyc l" "cyc l \<le> cyc ?t + 5 * d" using l c1 by linarith+
  moreover have "ms = int (mark (snd v))" "mark (snd v) \<le> cyc (snd v) div ?R"
    using step(1) m1 l v lo div_le_mono [OF v(3), of ?R] by (simp_all add: ms_def)
  ultimately show ?thesis unfolding up by (rule_tac x = "\<lparr>ck_timer = snd v, ck_seconds = ms, ck_ms = int (mark t1 * 1000 + cyc l mod ?R div (?R div 1000))\<rparr>" in exI,
      rule_tac x = "cyc l" in exI) simp
qed

section \<open>A timer\<close>

text \<open>A timer that meets the laws: cycles, mark and latch, one cycle for every access.\<close>

definition down_counter :: "nat \<Rightarrow> (nat \<times> nat \<times> u32) timer_ops" where
  "down_counter R =
     \<lparr>tm_pending = (\<lambda>(c, m, l). ((c + 1) div R > m, (c + 1, m, l))), tm_clear = (\<lambda>(c, m, l). (c + 1, (c + 1) div R, l)),
      tm_latch = (\<lambda>(c, m, l). (c + 1, m, of_nat (R - 1 - (c + 1) mod R))), tm_value = (\<lambda>(c, m, l). (l, (c + 1, m, l)))\<rparr>"

definition period :: u32 where "period = 2000"

lemma down_counter_laws:
  "timer_laws 2000 1 (down_counter 2000) (\<lambda>(c, m, l). c) (\<lambda>(c, m, l). m) (\<lambda>(c, m, l). unat l)"
proof -
  have "unat (of_nat (1999 - n mod 2000) :: u32) = 1999 - n mod 2000" for n
    by (simp add: unat_of_nat take_bit_nat_eq_self del: of_nat_diff)
  then show ?thesis by (auto simp: timer_laws_def down_counter_def simp del: of_nat_diff)
qed

theorem clock_exact_or_second_behind_witness:
  "\<exists>ck' c. update_time_from_timer period (down_counter 2000) \<lparr>ck_timer = (3995, 1, 0), ck_seconds = 1, ck_ms = 0\<rparr> = Some ck' \<and>
    c \<le> 4000 \<and> 3995 \<le> c \<and> (ck_ms ck' = int (c * 1000 div 2000) \<or> ck_ms ck' = int (c * 1000 div 2000) - 1000)"
proof -
  have R: "unat period = 2000" by (simp add: period_def)
  show ?thesis
    using clock_exact_or_second_behind [of period 1 "down_counter 2000" "\<lambda>(c, m, l). c" "\<lambda>(c, m, l). m" "\<lambda>(c, m, l). unat l"
      "\<lparr>ck_timer = (3995, 1, 0), ck_seconds = 1, ck_ms = 0\<rparr>"] down_counter_laws
    unfolding R by fastforce
qed

lemma down_counter_run:
  "update_time_from_timer period (down_counter 2000) \<lparr>ck_timer = (1990, 0, 0), ck_seconds = 0, ck_ms = 0\<rparr> =
     Some \<lparr>ck_timer = (1993, 0, 7), ck_seconds = 0, ck_ms = 996\<rparr>"
  by (simp add: update_time_from_timer_def count_seconds.simps down_counter_def period_def CYCLES_PER_MS_def)

text \<open>Five cycles later the end of the second falls between the look and the latch.\<close>

lemma clock_steps_back:
  "map_option ck_ms (update_time_from_timer period (down_counter 2000) \<lparr>ck_timer = (1998, 0, 7), ck_seconds = 0, ck_ms = 996\<rparr>) = Some 0"
  by (simp add: update_time_from_timer_def count_seconds.simps down_counter_def period_def CYCLES_PER_MS_def)

end
