(* ===== verification/Serial_Menu.thy ===== *)
theory Serial_Menu
  imports Net_Tick Net_Json Image_Store
begin

text \<open>
  \<^verbatim>\<open>src/menu.rs\<close>, the commands of the serial console. Reading a line, finding the
  command and cutting its arguments are the \<^verbatim>\<open>menu\<close> crate, so a command comes with
  its arguments as text; what a command prints is not modelled. \<open>img\<close> is the compiled-in
  picture, \<open>ops\<close> the flash driver.
\<close>

unbundle bit_operations_syntax

datatype command =
    Quit | Reboot | DefaultImage | LoadSpiImage | SaveSpiImage | On | Off | GetImageParam
  | SetImageParam str str
  | GetPanelParam str str
  | SetPanelParam str str str str str
  | SetDefaultPanelParams
  | PatternCmd str
  | BitmapStatus | DebugToggle
  | LayoutCmd str
  | PanelCmd str "str option" "str option"

record 'm console =
  mc_board :: board
  mc_flash :: 'm
  mc_quit :: bool
  mc_debug :: bool

datatype 'm outcome = Next "'m console" | SocReset | Panics

definition at_hub :: "(hub75 \<Rightarrow> hub75) \<Rightarrow> 'm console \<Rightarrow> 'm console" where
  "at_hub f c = c\<lparr>mc_board := with_stage (on_hub f) (mc_board c)\<rparr>"

definition at_layout :: "(layout \<Rightarrow> layout) \<Rightarrow> 'm console \<Rightarrow> 'm console" where
  "at_layout f c = c\<lparr>mc_board := (mc_board c)\<lparr>bd_card := (bd_card (mc_board c))\<lparr>cd_layout := f (cd_layout (bd_card (mc_board c)))\<rparr>\<rparr>\<rparr>"

definition mc_layout :: "'m console \<Rightarrow> layout" where "mc_layout c = cd_layout (bd_card (mc_board c))"
definition mc_hub :: "'m console \<Rightarrow> hub75" where "mc_hub c = bd_hub (mc_board c)"

text \<open>\<^verbatim>\<open>str::parse\<close> at an unsigned width.\<close>

definition parse_num :: "str \<Rightarrow> 'n::len word option" where
  "parse_num s = (if s \<noteq> [] \<and> hd s = 43 \<and> tl s \<noteq> [] then parse_dec (tl s) else parse_dec s)"

section \<open>Pictures and registers\<close>

definition default_image :: "u8 list \<Rightarrow> 'm console \<Rightarrow> 'm outcome" where
  "default_image img c =
     (case load_image img of
        Inl _ \<Rightarrow> Panics
      | Inr (width, len, _, data) \<Rightarrow>
          let h1 = set_img_param width len (mc_hub c) in
          if None \<in> set (take (img_len h1) data) then Panics
          else Next (at_hub (\<lambda>_. hub_on (set_mode FullColor (swap_buffers
                 (write_img_data 0 (map the (take (img_len h1) data)) h1)))) c))"

definition load_cmd :: "hub_hw \<Rightarrow> 'm flash25 \<Rightarrow> 'm console \<Rightarrow> 'm outcome" where
  "load_cmd hw ops c =
     (case load_spi_image hw ops (mc_flash c) (mc_hub c) of None \<Rightarrow> Panics | Some h \<Rightarrow> Next (at_hub (\<lambda>_. h) c))"

definition save_cmd :: "hub_hw \<Rightarrow> 'm flash25 \<Rightarrow> 'm console \<Rightarrow> 'm outcome" where
  "save_cmd hw ops c =
     (case save_spi_image hw ops (mc_hub c) (mc_flash c) of None \<Rightarrow> Panics | Some m \<Rightarrow> Next (c\<lparr>mc_flash := m\<rparr>))"

definition set_image_param :: "str \<Rightarrow> str \<Rightarrow> 'm console \<Rightarrow> 'm console" where
  "set_image_param width len c =
     (case (parse_num width, parse_num len) of
        (Some w, Some l) \<Rightarrow> at_hub (set_img_param w l) c
      | _ \<Rightarrow> c)"

text \<open>The rotation is parsed like the others but its error is not looked at before it is unwrapped.\<close>

definition set_panel_cmd :: "hub_hw \<Rightarrow> str \<Rightarrow> str \<Rightarrow> str \<Rightarrow> str \<Rightarrow> str \<Rightarrow> 'm console \<Rightarrow> 'm outcome" where
  "set_panel_cmd hw output chain_num x y rot c =
     (case (parse_num output, parse_num chain_num, parse_num x, parse_num y) of
        (Some o1, Some n, Some x1, Some y1) \<Rightarrow>
          (case parse_num rot of
             None \<Rightarrow> Panics
           | Some r \<Rightarrow> Next (at_hub (set_panel_param hw o1 n x1 y1 r) c))
      | _ \<Rightarrow> Next c)"

definition menu_patterns :: "(str \<times> (u16 \<Rightarrow> u16 \<Rightarrow> u32 list) \<times> animation) list" where
  "menu_patterns =
     [(lit ''grid'', grid, NoAnimation), (lit ''rainbow'', rainbow, NoAnimation),
      (lit ''rainbow_anim'', \<lambda>w h. animated_rainbow w h 0, Rainbow 0),
      (lit ''white'', solid_white, NoAnimation), (lit ''red'', solid_red, NoAnimation),
      (lit ''green'', solid_green, NoAnimation), (lit ''blue'', solid_blue, NoAnimation)]"

definition pattern_cmd :: "str \<Rightarrow> 'm console \<Rightarrow> 'm console" where
  "pattern_cmd name c =
     (case get_img_param (mc_hub c) of (width, len) \<Rightarrow>
        let height = (if width > 0 then len div ucast width else 0) in
        if width = 0 \<or> height = 0 then c
        else case map_of menu_patterns name of
          None \<Rightarrow> c
        | Some (pict, an) \<Rightarrow>
            let c1 = at_hub (\<lambda>h. hub_on (set_mode FullColor (swap_buffers
                (write_img_data 0 (pict width (ucast height)) (set_img_param width len h))))) c in
            c1\<lparr>mc_board := (mc_board c1)\<lparr>anim := an\<rparr>\<rparr>)"

section \<open>Layout\<close>

definition layout_cmd :: "hub_hw \<Rightarrow> str \<Rightarrow> 'm console \<Rightarrow> 'm console" where
  "layout_cmd hw action c =
     (if action = lit ''show'' then c
      else if action = lit ''apply'' then at_hub (\<lambda>h. snd (apply_registers hw (mc_layout c) h)) c
      else case parse_grid_spec action of
        Some (cols, rows) \<Rightarrow> at_layout (\<lambda>l. l\<lparr>grid_cols := cols, grid_rows := rows\<rparr>) c
      | None \<Rightarrow> c)"

text \<open>The two index operations of \<^verbatim>\<open>assignments[idx][chain]\<close>; out of range they panic.\<close>

definition put_assignment :: "nat \<Rightarrow> nat \<Rightarrow> (u8 \<times> u8) option \<Rightarrow> layout \<Rightarrow> layout option" where
  "put_assignment idx chain a l =
     (if idx < length (assignments l) \<and> chain < length (assignments l ! idx)
      then Some (l\<lparr>assignments := (assignments l)[idx := (assignments l ! idx)[chain := a]]\<rparr>) else None)"

definition store_assignment :: "nat \<Rightarrow> nat \<Rightarrow> (u8 \<times> u8) option \<Rightarrow> 'm console \<Rightarrow> 'm console option" where
  "store_assignment idx chain a c = map_option (\<lambda>l. at_layout (\<lambda>_. l) c) (put_assignment idx chain a (mc_layout c))"

definition assign_chain :: "nat \<Rightarrow> nat \<times> str option \<Rightarrow> 'm console \<Rightarrow> 'm console option" where
  "assign_chain idx = (\<lambda>(chain, pos) c.
     (case pos of
        None \<Rightarrow> store_assignment idx chain None c
      | Some part \<Rightarrow> (case parse_pos_spec part of
          Some p \<Rightarrow> store_assignment idx chain (Some p) c
        | None \<Rightarrow> Some c)))"

fun assign_chains :: "nat \<Rightarrow> (nat \<times> str option) list \<Rightarrow> 'm console \<Rightarrow> 'm console option" where
  "assign_chains idx [] c = Some c"
| "assign_chains idx (p # ps) c = (case assign_chain idx p c of None \<Rightarrow> None | Some c1 \<Rightarrow> assign_chains idx ps c1)"

definition panel_output :: "str \<Rightarrow> nat option" where
  "panel_output arg =
     (if arg \<noteq> [] \<and> hd arg = 74
      then (case parse_num (tl arg) of
          Some (n :: u8) \<Rightarrow> if 1 \<le> n \<and> unat n \<le> MAX_OUTPUTS then Some (unat n - 1) else None
        | None \<Rightarrow> None)
      else None)"

definition panel_cmd :: "str \<Rightarrow> str option \<Rightarrow> str option \<Rightarrow> 'm console \<Rightarrow> 'm outcome" where
  "panel_cmd output pos pos2 c =
     (if output = lit ''show'' then Next c
      else case panel_output output of
        None \<Rightarrow> Next c
      | Some idx \<Rightarrow>
         (case pos of
            None \<Rightarrow> if idx < length (assignments (mc_layout c)) then Next c else Panics
          | Some p \<Rightarrow> (case assign_chains idx [(0, Some p), (1, pos2)] c of None \<Rightarrow> Panics | Some c1 \<Rightarrow> Next c1)))"

section \<open>All commands\<close>

fun menu_step :: "hub_hw \<Rightarrow> 'm flash25 \<Rightarrow> u8 list \<Rightarrow> command \<Rightarrow> 'm console \<Rightarrow> 'm outcome" where
  "menu_step hw ops img Quit c = Next (c\<lparr>mc_quit := True\<rparr>)"
| "menu_step hw ops img Reboot c = SocReset"
| "menu_step hw ops img DefaultImage c = default_image img c"
| "menu_step hw ops img LoadSpiImage c = load_cmd hw ops c"
| "menu_step hw ops img SaveSpiImage c = save_cmd hw ops c"
| "menu_step hw ops img On c = Next (at_hub hub_on c)"
| "menu_step hw ops img Off c = Next (at_hub hub_off c)"
| "menu_step hw ops img GetImageParam c = Next c"
| "menu_step hw ops img (SetImageParam w l) c = Next (set_image_param w l c)"
| "menu_step hw ops img (GetPanelParam out ch) c = Next c"
| "menu_step hw ops img (SetPanelParam out ch x y r) c = set_panel_cmd hw out ch x y r c"
| "menu_step hw ops img SetDefaultPanelParams c = Next (at_hub (set_panel_param hw 0 0 0 0 0) c)"
| "menu_step hw ops img (PatternCmd name) c = Next (pattern_cmd name c)"
| "menu_step hw ops img BitmapStatus c = Next c"
| "menu_step hw ops img DebugToggle c = Next (c\<lparr>mc_debug := \<not> mc_debug c\<rparr>)"
| "menu_step hw ops img (LayoutCmd action) c = Next (layout_cmd hw action c)"
| "menu_step hw ops img (PanelCmd out pos pos2) c = panel_cmd out pos pos2 c"

fun menu_run :: "hub_hw \<Rightarrow> 'm flash25 \<Rightarrow> u8 list \<Rightarrow> command list \<Rightarrow> 'm console \<Rightarrow> 'm outcome" where
  "menu_run hw ops img [] c = Next c"
| "menu_run hw ops img (cmd # cmds) c =
     (case menu_step hw ops img cmd c of Next c1 \<Rightarrow> menu_run hw ops img cmds c1 | r \<Rightarrow> r)"

section \<open>What commands keep\<close>

lemma layout_access [simp]:
  "mc_layout (at_hub f c) = mc_layout c" "mc_layout (at_layout g c) = g (mc_layout c)"
  "mc_layout (c\<lparr>mc_quit := b\<rparr>) = mc_layout c" "mc_layout (c\<lparr>mc_debug := b\<rparr>) = mc_layout c"
  "mc_layout (c\<lparr>mc_flash := m\<rparr>) = mc_layout c" "mc_layout (c\<lparr>mc_board := bd\<lparr>anim := a\<rparr>\<rparr>) = cd_layout (bd_card bd)"
  by (simp_all add: mc_layout_def at_hub_def at_layout_def with_stage_def)

lemma put_assignment_inv:
  "layout_inv l \<Longrightarrow> idx < MAX_OUTPUTS \<Longrightarrow> chain < MAX_CHAIN \<Longrightarrow> \<exists>l'. put_assignment idx chain a l = Some l' \<and> layout_inv l'"
  by (auto simp: layout_inv_def put_assignment_def dest!: set_update_subset_insert [THEN subsetD])

lemma assign_chain_inv:
  assumes "layout_inv (mc_layout c)" "idx < MAX_OUTPUTS" "fst p < MAX_CHAIN"
  shows "\<exists>c'. assign_chain idx p c = Some c' \<and> layout_inv (mc_layout c')"
  using put_assignment_inv [OF assms] assms(1)
  by (fastforce simp: assign_chain_def store_assignment_def split: prod.split option.split)

lemma assign_chains_inv:
  "layout_inv (mc_layout c) \<Longrightarrow> idx < MAX_OUTPUTS \<Longrightarrow> \<forall>p \<in> set ps. fst p < MAX_CHAIN \<Longrightarrow>
   \<exists>c'. assign_chains idx ps c = Some c' \<and> layout_inv (mc_layout c')"
proof (induction ps arbitrary: c)
  case (Cons p ps)
  then obtain c1 where "assign_chain idx p c = Some c1" "layout_inv (mc_layout c1)" using assign_chain_inv [of c idx p] by auto
  with Cons.IH [of c1] Cons.prems show ?case by simp
qed simp

lemma panel_output_less: "panel_output arg = Some idx \<Longrightarrow> idx < MAX_OUTPUTS"
  by (auto simp: panel_output_def MAX_OUTPUTS_def word_le_nat_alt split: if_splits option.splits)

lemma panel_cmd_inv:
  assumes inv: "layout_inv (mc_layout c)"
  shows "\<exists>c'. panel_cmd out pos pos2 c = Next c' \<and> layout_inv (mc_layout c')"
proof (cases "out = lit ''show'' \<or> panel_output out = None \<or> pos = None")
  case True
  then show ?thesis using panel_output_less [of out] inv by (auto simp: panel_cmd_def layout_inv_def split: option.split)
next
  case False
  then obtain idx p where i: "panel_output out = Some idx" "pos = Some p" "out \<noteq> lit ''show''" by auto
  obtain c' where "assign_chains idx [(0, Some p), (1, pos2)] c = Some c'" "layout_inv (mc_layout c')"
    using assign_chains_inv [OF inv panel_output_less [OF i(1)], of "[(0, Some p), (1, pos2)]"] by (auto simp: MAX_CHAIN_def)
  then show ?thesis using i by (simp add: panel_cmd_def)
qed

lemma pattern_layout [simp]: "mc_layout (pattern_cmd name c) = mc_layout c"
proof -
  have "cd_layout (bd_card (mc_board (at_hub f c))) = mc_layout c" for f
    using layout_access(1) [of f c] by (simp add: mc_layout_def)
  then show ?thesis by (auto simp: pattern_cmd_def Let_def split: prod.split option.split)
qed

lemma step_layout:
  assumes "menu_step hw ops img cmd c = Next c'" "layout_inv (mc_layout c)"
  shows "layout_inv (mc_layout c')"
proof (cases cmd)
  case (LayoutCmd action)
  then show ?thesis using assms by (auto simp: layout_cmd_def layout_inv_def split: if_splits option.splits)
next
  case (PanelCmd out pos pos2)
  then show ?thesis using assms panel_cmd_inv [of c out pos pos2] by auto
qed (use assms in \<open>auto simp: default_image_def load_cmd_def save_cmd_def set_image_param_def set_panel_cmd_def Let_def
       split: sum.splits prod.splits option.splits if_splits\<close>)

lemma run_layout:
  "menu_run hw ops img cmds c = Next c' \<Longrightarrow> layout_inv (mc_layout c) \<Longrightarrow> layout_inv (mc_layout c')"
proof (induction cmds arbitrary: c)
  case (Cons cmd cmds)
  then obtain c1 where s: "menu_step hw ops img cmd c = Next c1" "menu_run hw ops img cmds c1 = Next c'"
    by (auto split: outcome.splits)
  from Cons.IH [OF s(2) step_layout [OF s(1) Cons.prems(2)]] show ?case .
qed simp

text \<open>The rotation given to \<^verbatim>\<open>set_panel_param\<close> is the one argument that can bring the card down.\<close>

definition bad_rotation :: "command \<Rightarrow> bool" where
  "bad_rotation cmd \<longleftrightarrow> (\<exists>out ch x y r. cmd = SetPanelParam out ch x y r \<and> (parse_num r :: u8 option) = None \<and>
     (parse_num out :: u8 option) \<noteq> None \<and> (parse_num ch :: u8 option) \<noteq> None \<and>
     (parse_num x :: u8 option) \<noteq> None \<and> (parse_num y :: u8 option) \<noteq> None)"

text \<open>
  What a picture command needs: a header whose magic bit is clear, with a width and a length that
  are not zero, the length inside the buffer and no smaller than the width; and no word of the
  picture that is cut off before the end of what is shown.
\<close>

definition sound_picture :: "u8 list \<Rightarrow> bool" where
  "sound_picture d \<longleftrightarrow> 256 \<le> length d \<and> \<not> bit (le_word d 0) 31 \<and> (ucast (le_word d 0) :: u16) \<noteq> 0 \<and> le_word d 1 \<noteq> 0 \<and>
     unat (le_word d 1) \<le> MAX_IMG_PIXELS \<and> unat (ucast (le_word d 0) :: u16) \<le> unat (le_word d 1)"

definition torn_picture :: "u8 list \<Rightarrow> 'm console \<Rightarrow> bool" where
  "torn_picture d c \<longleftrightarrow> (length d - 256) mod 4 \<noteq> 0 \<and>
     (length d - 256) div 4 < min (unat (le_word d 1)) (length (fb_back (mc_hub c)))"

text \<open>The driver refuses the page at \<open>p\<close>: its erase, at the start of a sector, or its write.\<close>

definition refuses :: "'m flash25 \<Rightarrow> u8 list \<Rightarrow> nat \<Rightarrow> 'm \<Rightarrow> bool" where
  "refuses ops bs p m \<longleftrightarrow>
     (case (if p mod 16 = 0 then erase_sectors ops (of_nat (img_offset + (256 * p + 255))) 1 m else Some m) of
        None \<Rightarrow> True
      | Some m1 \<Rightarrow> write_bytes ops (of_nat (img_offset + 256 * p)) (page bs p) m1 = None)"

definition saved_bytes :: "hub_hw \<Rightarrow> 'm console \<Rightarrow> u8 list" where
  "saved_bytes hw c = write_image (r_width (mc_hub c)) (hlength (mc_hub c)) (get_panel_params hw (mc_hub c)) (read_img_data (mc_hub c))"

fun panic_cause :: "hub_hw \<Rightarrow> 'm flash25 \<Rightarrow> u8 list \<Rightarrow> command \<Rightarrow> 'm console \<Rightarrow> bool" where
  "panic_cause hw ops img DefaultImage c = (\<not> sound_picture img \<or> torn_picture img c)"
| "panic_cause hw ops img LoadSpiImage c = (\<not> sound_picture (read_image ops (mc_flash c)))"
| "panic_cause hw ops img SaveSpiImage c =
     (\<exists>p \<le> length (saved_bytes hw c) div 256. \<exists>m. put_pages ops (saved_bytes hw c) [0..<p] (mc_flash c) = Some m \<and>
        refuses ops (saved_bytes hw c) p m)"
| "panic_cause hw ops img cmd c = bad_rotation cmd"

lemma none_taken: "None \<in> set (take n [None]) \<longleftrightarrow> 0 < n"
  by (cases n) simp_all

lemma four_more: "(4 + n) mod 4 = n mod 4" "(4 + n) div 4 = Suc (n div 4)" for n :: nat
  by presburger+

lemma words_torn: "None \<in> set (take n (le_words bs)) \<longleftrightarrow> length bs mod 4 \<noteq> 0 \<and> length bs div 4 < n"
proof (induction bs arbitrary: n rule: le_words.induct)
  case (2 a b c d bs)
  have "length (a # b # c # d # bs) = 4 + length bs" by simp
  then show ?case using 2 by (cases n) (simp_all only: le_words.simps four_more take_Suc_Cons take_0, simp_all)
qed (simp_all add: none_taken)

lemma header_words:
  assumes "256 \<le> length d"
  shows "map the (le_words (take 256 d)) ! 0 = le_word d 0" "map the (le_words (take 256 d)) ! 1 = le_word d 1"
proof -
  from assms have "8 \<le> length d" by simp
  then obtain a b c e a' b' c' e' ds where "d = a # b # c # e # a' # b' # c' # e' # ds"
    by (auto simp: Suc_le_length_iff numeral_eq_Suc)
  then show "map the (le_words (take 256 d)) ! 0 = le_word d 0" "map the (le_words (take 256 d)) ! 1 = le_word d 1"
    by (simp_all add: le_word_def)
qed

lemma magic_clear: "(w :: u32) AND push_bit 31 1 \<noteq> 0 \<longleftrightarrow> bit w 31"
  using and_exp_eq_0_iff_not_bit [of w 31] by simp

lemma ucast_low: "(ucast (w AND 0xFFFF :: u32) :: u16) = ucast w"
proof -
  have "(0xFFFF :: u32) = mask 16" by (simp add: mask_eq_exp_minus_1)
  then show ?thesis by (intro bit_word_eqI) (simp only: bit_ucast_iff bit_and_iff bit_mask_iff, simp)
qed

lemma ucast_less: "(ucast (x :: u16) > (w :: u32)) \<longleftrightarrow> unat w < unat x"
proof -
  have "unat x < 2 ^ 16" using unsigned_less [of x] by simp
  then have "unat (ucast x :: u32) = unat x" by (simp only: unsigned_ucast_eq) (simp add: take_bit_nat_eq_self)
  then show ?thesis by (simp only: word_less_nat_alt)
qed

lemma load_image_cases:
  "load_image d = (if sound_picture d
     then Inr (ucast (le_word d 0), le_word d 1, drop 4 (map the (le_words (take 256 d))), take (unat (le_word d 1)) (le_words (drop 256 d)))
     else Inl ())"
proof (cases "256 \<le> length d")
  case True
  show ?thesis
    unfolding load_image_def sound_picture_def Let_def header_words [OF True] magic_clear ucast_low ucast_less
    using True by (simp add: not_less)
qed (simp add: load_image_def sound_picture_def)

lemma rotation_unchecked:
  "set_panel_cmd hw out ch x y r c = Panics \<longleftrightarrow> bad_rotation (SetPanelParam out ch x y r)"
  by (auto simp: set_panel_cmd_def bad_rotation_def split: option.split)

lemma default_image_panics: "default_image img c = Panics \<longleftrightarrow> \<not> sound_picture img \<or> torn_picture img c"
  by (auto simp: default_image_def load_image_cases Let_def words_torn torn_picture_def img_len_def set_img_param_def publish_dma_limit_def)

lemma load_cmd_panics: "load_cmd hw ops c = Panics \<longleftrightarrow> \<not> sound_picture (read_image ops (mc_flash c))"
  by (auto simp: load_cmd_def load_spi_image_def load_image_cases Let_def words_torn read_image_def FLASH_SIZE_def img_offset_def)

lemma put_page_refused: "put_page ops (256 * p + 255) (page bs p) m = None \<longleftrightarrow> refuses ops bs p m"
proof -
  have o: "256 * p + 255 - (256 * p + 255) mod 256 = 256 * p" by (simp add: mod_mult_self4)
  have "256 * p mod 4096 = 256 * (p mod 16)" by (simp add: mult_mod_right)
  then show ?thesis by (auto simp: put_page_def refuses_def Let_def o SECTOR_SIZE_def split: option.splits)
qed

lemma put_pages_refused:
  "put_pages ops bs ps m = None \<longleftrightarrow>
   (\<exists>k < length ps. \<exists>m1. put_pages ops bs (take k ps) m = Some m1 \<and> put_page ops (256 * (ps ! k) + 255) (page bs (ps ! k)) m1 = None)"
proof (induction ps arbitrary: m)
  case (Cons p ps)
  show ?case
  proof (cases "put_page ops (256 * p + 255) (page bs p) m")
    case None
    then show ?thesis by (auto intro!: exI [of _ 0])
  next
    case (Some m1)
    then show ?thesis using Cons.IH [of m1] by (auto simp: less_Suc_eq_0_disj)
  qed
qed simp

lemma save_cmd_panics: "save_cmd hw ops c = Panics \<longleftrightarrow> panic_cause hw ops img SaveSpiImage c"
proof -
  let ?b = "saved_bytes hw c"
  have "?b \<noteq> []" by (simp add: saved_bytes_def write_image_def le_bytes_def)
  note st = store_image_pages [OF this, of ops "mc_flash c"]
  have t: "take p [0..<length ?b div 256 + 1] = [0..<p]" "[0..<length ?b div 256 + 1] ! p = p" if "p \<le> length ?b div 256" for p
    using that by (simp_all add: take_upt del: upt_Suc)
  have "save_cmd hw ops c = Panics \<longleftrightarrow> store_image ops ?b (mc_flash c) = None"
    by (simp add: save_cmd_def save_spi_image_def saved_bytes_def get_img_param_def split: option.split)
  also have "\<dots> \<longleftrightarrow> panic_cause hw ops img SaveSpiImage c"
    unfolding st put_pages_refused put_page_refused by (auto simp: less_Suc_eq_le t simp del: upt_Suc)
  finally show ?thesis .
qed

lemma step_panics:
  assumes "layout_inv (mc_layout c)"
  shows "menu_step hw ops img cmd c = Panics \<longleftrightarrow> panic_cause hw ops img cmd c"
proof (cases cmd)
  case (PanelCmd out pos pos2)
  then show ?thesis using panel_cmd_inv [OF assms, of out pos pos2] by (auto simp: bad_rotation_def)
qed (auto simp: rotation_unchecked bad_rotation_def default_image_panics load_cmd_panics save_cmd_panics simp del: panic_cause.simps(3))

text \<open>
  C39. Any sequence of console commands, whatever their arguments, leaves a layout whose arrays have
  their size and whose fields are in the range of their registers. The next command then panics
  exactly when it is a \<^verbatim>\<open>set_panel_param\<close> whose other four numbers parse and whose
  rotation does not; loads a picture, from flash or compiled in, whose header is refused or which
  ends inside a word that is shown; or saves one and the driver refuses an erase or a write of one
  of its pages. No \<^verbatim>\<open>panel\<close> command indexes outside the assignments.
\<close>

theorem console_keeps_layout:
  assumes "menu_run hw ops img cmds c = Next c'" "layout_inv (mc_layout c)"
  shows "layout_inv (mc_layout c') \<and> (menu_step hw ops img cmd c' = Panics \<longleftrightarrow> panic_cause hw ops img cmd c')"
  using run_layout [OF assms] step_panics by blast

definition demo_console :: "stage \<Rightarrow> isr \<Rightarrow> bitmap_stats \<Rightarrow> unit console" where
  "demo_console st isr1 stats1 =
     \<lparr>mc_board = \<lparr>bd_card = \<lparr>cd_stage = st, cd_layout = (single_panel 64 32)\<lparr>assignments := no_assignments\<rparr>, clk_div_reg = 0,
         throttle_reg = 0, output_mismatch = 0, module_mismatch = 0, rgb_order_unsupported = False\<rparr>,
       bd_isr = isr1, anim = NoAnimation, profile_state = 0, profile_kind = 0, bd_stats = stats1, last_bitmap = 0\<rparr>,
      mc_flash = (), mc_quit = False, mc_debug = False\<rparr>"

definition typed :: "command list" where
  "typed = [LayoutCmd (lit ''2x1''), PanelCmd (lit ''J3'') (Some (lit ''1,0'')) None]"

lemma typed_parses: "panel_output (lit ''J3'') = Some 2" "parse_pos_spec (lit ''1,0'') = Some (1, 0)" "parse_grid_spec (lit ''2x1'') = Some (2, 1)"
  by code_simp+

lemma typed_rotation: "bad_rotation (SetPanelParam (lit ''0'') (lit ''0'') (lit ''1'') (lit ''2'') (lit ''x''))"
proof -
  have "(parse_num (lit ''0'') :: u8 option) = Some 0" "(parse_num (lit ''1'') :: u8 option) = Some 1"
    "(parse_num (lit ''2'') :: u8 option) = Some 2" "(parse_num (lit ''x'') :: u8 option) = None"
    by code_simp+
  then show ?thesis by (simp add: bad_rotation_def)
qed

theorem console_keeps_layout_witness:
  "\<forall>hw ops st isr1 stats1. \<exists>c'. menu_run hw ops [] typed (demo_console st isr1 stats1) = Next c' \<and>
     assignments (mc_layout c') ! 2 ! 0 = Some (1, 0) \<and> grid_cols (mc_layout c') = 2 \<and> layout_inv (mc_layout c') \<and>
     menu_step hw ops [] (SetPanelParam (lit ''0'') (lit ''0'') (lit ''1'') (lit ''2'') (lit ''x'')) c' = Panics"
proof (intro allI)
  fix hw and ops :: "unit flash25" and st isr1 stats1
  let ?c = "demo_console st isr1 stats1"
  have n: "lit ''2x1'' \<noteq> lit ''show''" "lit ''2x1'' \<noteq> lit ''apply''" "lit ''J3'' \<noteq> lit ''show''" by (simp_all add: lit_def)
  have L: "mc_layout ?c = (single_panel 64 32)\<lparr>assignments := no_assignments\<rparr>" by (simp add: mc_layout_def demo_console_def)
  define c1 where "c1 = layout_cmd hw (lit ''2x1'') ?c"
  have l1: "mc_layout c1 = (single_panel 64 32)\<lparr>assignments := no_assignments, grid_cols := 2, grid_rows := 1\<rparr>"
    using n L by (simp add: c1_def layout_cmd_def typed_parses)
  have in_range: "length (assignments (mc_layout c1)) = 8" "length (assignments (mc_layout c1) ! 2) = 2"
    "assignments (mc_layout c1) ! 2 \<noteq> []" "grid_cols (mc_layout c1) = 2"
    by (simp_all add: l1 no_assignments_def MAX_OUTPUTS_def MAX_CHAIN_def)
  obtain c' where p: "panel_cmd (lit ''J3'') (Some (lit ''1,0'')) None c1 = Next c'"
    and a: "assignments (mc_layout c') ! 2 ! 0 = Some (1, 0)" "grid_cols (mc_layout c') = 2"
    using n in_range by (simp add: panel_cmd_def typed_parses assign_chain_def store_assignment_def put_assignment_def)
  have r: "menu_run hw ops [] typed ?c = Next c'" using p by (simp add: typed_def c1_def)
  have "layout_inv (mc_layout ?c)" by (simp add: mc_layout_def demo_console_def layout_start_inv)
  from console_keeps_layout [OF r this, of "SetPanelParam (lit ''0'') (lit ''0'') (lit ''1'') (lit ''2'') (lit ''x'')"]
  have "layout_inv (mc_layout c')" "menu_step hw ops [] (SetPanelParam (lit ''0'') (lit ''0'') (lit ''1'') (lit ''2'') (lit ''x'')) c' = Panics"
    by (simp_all only: panic_cause.simps typed_rotation)
  with r a show "\<exists>c'. menu_run hw ops [] typed ?c = Next c' \<and>
     assignments (mc_layout c') ! 2 ! 0 = Some (1, 0) \<and> grid_cols (mc_layout c') = 2 \<and> layout_inv (mc_layout c') \<and>
     menu_step hw ops [] (SetPanelParam (lit ''0'') (lit ''0'') (lit ''1'') (lit ''2'') (lit ''x'')) c' = Panics"
    by blast
qed

end
