(* ===== verification/Spwm_Driver.thy ===== *)
theory Spwm_Driver
  imports Net_Json
begin

text \<open>
  \<^verbatim>\<open>src/spwm.rs\<close>, \<^verbatim>\<open>src/spwm_tables.rs\<close> and the routes of
  \<^verbatim>\<open>src/network.rs\<close> that only a build for S-PWM drivers has: the register tables of the
  driver chips, their writing through the gateware's registers, and the live pokes. The registers
  are those \<^verbatim>\<open>gateware/icn1065_soc.py\<close> declares, with the fields it gives them.
\<close>

unbundle bit_operations_syntax

section \<open>Chips\<close>

datatype row = Row (row_r: u16) (row_g: u16) (row_b: u16)

definition all_lanes :: "u16 \<Rightarrow> row" where "all_lanes v = Row v v v"

record chip =
  chip_name :: str
  chip_regs :: "row list"
  chip_wrappers :: "row list"
  ch_slots :: u8
  ch_rot_slot :: u8
  ch_mid_latch :: bool
  ch_row_pulse :: u8
  ch_row_pulse_first :: u8
  ch_data_latch :: u8
  ch_row_address :: u8
  ch_row_addr_shift :: u8
  ch_row_serial :: u8
  ch_chan_rev :: u8
  ch_chan_xor :: u8
  ch_sweep_adv :: u8
  ch_passes_m1 :: u8
  ch_scan_reg :: u8
  ch_scan_mask :: u8
  ch_bright_reg :: u8
  ch_bright_max :: u8
  ch_capture_scan :: u16

definition MAX_REGS :: nat where [src_consts]: "MAX_REGS = 64"

definition DP3264S_REGS :: "row list" where
  "DP3264S_REGS =
    [Row 0x023f 0x023f 0x023f, Row 0x033f 0x033f 0x033f, Row 0x041f 0x041f 0x041f,
     Row 0x0505 0x0504 0x0504, Row 0x0642 0x0642 0x0642, Row 0x0700 0x0700 0x0700,
     Row 0x08bf 0x08bf 0x08bf, Row 0x0960 0x0960 0x0960, Row 0x0abe 0x0abe 0x0abe,
     Row 0x0b28 0x0b2b 0x0b31, Row 0x0c8c 0x0c8c 0x0c8c, Row 0x0d08 0x0d12 0x0d18, Row 0x1100 0x1100 0x1100]"

definition DP3264S_WRAPPERS :: "row list" where
  "DP3264S_WRAPPERS =
    []"

definition DP3364S_REGS :: "row list" where
  "DP3364S_REGS =
    [Row 0x023f 0x023f 0x023f, Row 0x033f 0x033f 0x033f, Row 0x041a 0x041a 0x041a,
     Row 0x0504 0x0504 0x0500, Row 0x0639 0x0639 0x0639, Row 0x0700 0x070c 0x070c,
     Row 0x087f 0x087f 0x087f, Row 0x0968 0x096b 0x0961, Row 0x0abe 0x0abf 0x0abe,
     Row 0x0b28 0x0b2b 0x0b31, Row 0x0c58 0x0c58 0x0c58, Row 0x0d08 0x0d12 0x0d18,
     Row 0x0e08 0x0e0b 0x0e01, Row 0x0f20 0x0f20 0x0f20, Row 0x1500 0x1504 0x1504]"

definition DP3364S_WRAPPERS :: "row list" where
  "DP3364S_WRAPPERS =
    []"

definition ICND1065_REGS :: "row list" where
  "ICND1065_REGS =
    map all_lanes [0x00aa, 0x01aa, 0x022a, 0x0335, 0x0412, 0x0500, 0x0601, 0x0720, 0x0c18, 0x0d01, 0x0e86,
     0x0f01, 0x1040, 0x1127, 0x1200, 0x1300, 0x1400, 0x1500, 0x1600, 0x1800, 0x1906, 0x1c60, 0x1dca,
     0x1e73, 0x1f00, 0x2000, 0x2100, 0x2200, 0x2300, 0x2400, 0x2500, 0x2600, 0x2700, 0x7000, 0x7100,
     0x7200, 0x7300, 0x74a0]"

definition ICND1065_WRAPPERS :: "row list" where
  "ICND1065_WRAPPERS =
    map all_lanes [0x00aa, 0x01aa, 0x0055, 0x0155]"

definition DP3264S :: chip where
  "DP3264S = \<lparr>chip_name = lit ''dp3264s'', chip_regs = DP3264S_REGS, chip_wrappers = DP3264S_WRAPPERS,
     ch_slots = 1, ch_rot_slot = 0, ch_mid_latch = False, ch_row_pulse = 4, ch_row_pulse_first = 12, ch_data_latch = 1, ch_row_address = 1, ch_row_addr_shift = 3, ch_row_serial = 1,
     ch_chan_rev = 0, ch_chan_xor = 0, ch_sweep_adv = 1, ch_passes_m1 = 63, ch_scan_reg = 0x02, ch_scan_mask = 0x3f, ch_bright_reg = 0x08, ch_bright_max = 0xbf, ch_capture_scan = 64\<rparr>"

definition DP3364S :: chip where
  "DP3364S = \<lparr>chip_name = lit ''dp3364s'', chip_regs = DP3364S_REGS, chip_wrappers = DP3364S_WRAPPERS,
     ch_slots = 1, ch_rot_slot = 0, ch_mid_latch = False, ch_row_pulse = 2, ch_row_pulse_first = 2, ch_data_latch = 0, ch_row_address = 0, ch_row_addr_shift = 0, ch_row_serial = 0,
     ch_chan_rev = 0, ch_chan_xor = 0, ch_sweep_adv = 0, ch_passes_m1 = 0, ch_scan_reg = 0x02, ch_scan_mask = 0x3f, ch_bright_reg = 0x08, ch_bright_max = 0x7f, ch_capture_scan = 64\<rparr>"

definition ICND1065 :: chip where
  "ICND1065 = \<lparr>chip_name = lit ''icnd1065'', chip_regs = ICND1065_REGS, chip_wrappers = ICND1065_WRAPPERS,
     ch_slots = 5, ch_rot_slot = 2, ch_mid_latch = True, ch_row_pulse = 2, ch_row_pulse_first = 2, ch_data_latch = 0, ch_row_address = 0, ch_row_addr_shift = 0, ch_row_serial = 0,
     ch_chan_rev = 0, ch_chan_xor = 0, ch_sweep_adv = 0, ch_passes_m1 = 0, ch_scan_reg = 0x02, ch_scan_mask = 0x3f, ch_bright_reg = 0x00, ch_bright_max = 0x7f, ch_capture_scan = 43\<rparr>"

definition CHIPS :: "chip list" where "CHIPS = [DP3264S, DP3364S, ICND1065]"

definition chip_by_name :: "str \<Rightarrow> chip option" where
  "chip_by_name name = find (\<lambda>c. chip_name c = name) CHIPS"

section \<open>Registers and fields\<close>

definition get_field :: "nat \<Rightarrow> nat \<Rightarrow> u32 \<Rightarrow> u32" where
  "get_field off width v = drop_bit off v AND mask width"

definition put_field :: "nat \<Rightarrow> nat \<Rightarrow> u32 \<Rightarrow> u32 \<Rightarrow> u32" where
  "put_field off width x v =
     (let m = push_bit off (mask width) in (v AND NOT m) OR (push_bit off x AND m))"

lemma get_put_same: "off + width \<le> 32 \<Longrightarrow> get_field off width (put_field off width x v) = x AND mask width"
  by (rule bit_word_eqI) (auto simp: get_field_def put_field_def Let_def bit_simps)

lemma get_put_other:
  "off + width \<le> off' \<or> off' + width' \<le> off \<Longrightarrow> get_field off' width' (put_field off width x v) = get_field off' width' v"
  by (rule bit_word_eqI) (auto simp: get_field_def put_field_def Let_def bit_simps dest: bit_imp_le_length)

text \<open>The 64-bit row register is two words; the low one commits the row it forms.\<close>

record spwm_regs =
  table_high :: u32
  table_rows :: "nat \<Rightarrow> row"
  chip_cfg :: u32
  row_ser :: u32
  latch_cfg :: u32
  clk_div_csr :: u32
  throttle_csr :: u32

definition write_table1 :: "u32 \<Rightarrow> spwm_regs \<Rightarrow> spwm_regs" where
  "write_table1 hi g = g\<lparr>table_high := hi\<rparr>"

definition write_table0 :: "u32 \<Rightarrow> spwm_regs \<Rightarrow> spwm_regs" where
  "write_table0 lo g =
     (let w = (push_bit 32 (ucast (table_high g)) OR ucast lo :: u64) in
      g\<lparr>table_rows := (table_rows g)(unat (ucast w :: u8) :=
          Row (ucast (drop_bit 16 w)) (ucast (drop_bit 32 w)) (ucast (drop_bit 48 w)))\<rparr>)"

definition row_word :: "u64 \<Rightarrow> row \<Rightarrow> u64" where
  "row_word addr row = addr OR push_bit 16 (ucast (row_r row)) OR push_bit 32 (ucast (row_g row)) OR push_bit 48 (ucast (row_b row))"

definition write_row :: "u64 \<Rightarrow> row \<Rightarrow> spwm_regs \<Rightarrow> spwm_regs" where
  "write_row addr row g =
     (let v = row_word addr row in write_table0 (ucast v) (write_table1 (ucast (drop_bit 32 v)) g))"

section \<open>Configuring a chip\<close>

datatype configured = Default | ChipSet str | Unknown

definition with_scan :: "chip \<Rightarrow> row \<Rightarrow> u16 \<Rightarrow> row" where
  "with_scan c row rows =
     (if ucast (drop_bit 8 (row_r row)) \<noteq> ch_scan_reg c then row
      else let keep = (ucast (row_r row) :: u8) AND NOT (ch_scan_mask c) in
        all_lanes (push_bit 8 (ucast (ch_scan_reg c)) OR ucast keep OR ((rows - 1) AND ucast (ch_scan_mask c))))"

fun write_rows :: "nat \<Rightarrow> row list \<Rightarrow> spwm_regs \<Rightarrow> spwm_regs" where
  "write_rows at [] g = g"
| "write_rows at (r # rs) g = write_rows (at + 1) rs (write_row (of_nat at) r g)"

definition chip_grammar :: "chip \<Rightarrow> u32" where
  "chip_grammar c =
     fold (\<lambda>(off, width, x) v. put_field off width x v)
       [(0, 7, of_nat (length (chip_regs c))), (8, 4, ucast (ch_slots c)), (12, 4, ucast (ch_rot_slot c)),
        (16, 1, if ch_mid_latch c then 1 else 0), (17, 5, ucast (ch_row_pulse c)), (22, 5, ucast (ch_row_pulse_first c)),
        (27, 1, if ch_data_latch c \<noteq> 0 then 1 else 0), (7, 1, if ch_chan_rev c \<noteq> 0 then 1 else 0),
        (28, 1, if ch_row_address c \<noteq> 0 then 1 else 0), (29, 3, ucast (ch_row_addr_shift c))] 0"

definition latch_fields :: "chip \<Rightarrow> u32 \<Rightarrow> u32" where
  "latch_fields c v =
     put_field 11 7 (ucast (ch_passes_m1 c)) (put_field 8 3 (ucast (ch_sweep_adv c)) (put_field 4 4 (ucast (ch_chan_xor c)) v))"

definition configure :: "str option \<Rightarrow> u16 \<Rightarrow> spwm_regs \<Rightarrow> configured \<times> spwm_regs" where
  "configure name scan g =
     (case name of
        None \<Rightarrow> (Default, g)
      | Some n \<Rightarrow>
         if n = [] then (Default, g)
         else case chip_by_name n of
           None \<Rightarrow> (Unknown, g)
         | Some c \<Rightarrow>
             let g1 = write_rows 0 (map (\<lambda>r. with_scan c r scan) (chip_regs c)) g;
                 g2 = write_rows MAX_REGS (chip_wrappers c) g1 in
             (ChipSet (chip_name c),
              g2\<lparr>chip_cfg := chip_grammar c, row_ser := put_field 0 1 (if ch_row_serial c \<noteq> 0 then 1 else 0) (row_ser g2),
                 latch_cfg := latch_fields c (latch_cfg g2)\<rparr>))"

definition reg_index :: "u16 \<Rightarrow> chip \<Rightarrow> nat option" where
  "reg_index a c = find (\<lambda>i. drop_bit 8 (row_r (chip_regs c ! i)) = a) [0..<length (chip_regs c)]"

text \<open>The levels the chip shows afterwards.\<close>

definition set_passes :: "str option \<Rightarrow> u8 \<Rightarrow> spwm_regs \<Rightarrow> u32 option \<times> spwm_regs" where
  "set_passes name passes g =
     (case chip_by_name (case name of None \<Rightarrow> [] | Some n \<Rightarrow> n) of
        None \<Rightarrow> (None, g)
      | Some c \<Rightarrow>
         let p = max 1 (min 64 passes); r03 = 0x0300 OR ((ucast p - 1) AND 0x7F) in
         case reg_index 3 c of
           None \<Rightarrow> (None, g)
         | Some i \<Rightarrow>
             let g1 = write_row (of_nat i) (all_lanes r03) g;
                 g2 = g1\<lparr>latch_cfg := put_field 11 7 (ucast (p - 1)) (latch_cfg g1)\<rparr> in
             (map_option (\<lambda>j. 4 * (ucast (row_r (chip_regs c ! j) AND 0x7F) + 1) * ucast p) (reg_index 4 c), g2))"

section \<open>Live pokes\<close>

text \<open>\<^const>\<open>None\<close> is an answer of status 400, which changes nothing.\<close>

definition api_chipreg :: "str \<Rightarrow> spwm_regs \<Rightarrow> spwm_regs option" where
  "api_chipreg body g =
     (case json_get_u32 body (lit ''index'') of
        None \<Rightarrow> None
      | Some index \<Rightarrow>
         let base = json_get_u32 body (lit ''value'');
             lane = (\<lambda>k. case json_get_u32 body (lit k) of Some v \<Rightarrow> Some v | None \<Rightarrow> base) in
         (case (lane ''r'', lane ''g'', lane ''b'') of
            (Some r, Some gr, Some b) \<Rightarrow> Some (write_row (ucast index AND 0xFFFF) (Row (ucast r) (ucast gr) (ucast b)) g)
          | _ \<Rightarrow> None))"

definition poke_latch :: "nat \<Rightarrow> nat \<Rightarrow> str \<Rightarrow> spwm_regs \<Rightarrow> spwm_regs option" where
  "poke_latch off width body g =
     map_option (\<lambda>n. g\<lparr>latch_cfg := put_field off width n (latch_cfg g)\<rparr>) (json_get_u32 body (lit ''n''))"

definition api_sweepadv :: "str \<Rightarrow> spwm_regs \<Rightarrow> spwm_regs option" where "api_sweepadv = poke_latch 8 3"
definition api_chanxor :: "str \<Rightarrow> spwm_regs \<Rightarrow> spwm_regs option" where "api_chanxor = poke_latch 4 4"
definition api_latchphase :: "str \<Rightarrow> spwm_regs \<Rightarrow> spwm_regs option" where "api_latchphase = poke_latch 0 4"

definition api_throttle :: "str \<Rightarrow> spwm_regs \<Rightarrow> spwm_regs option" where
  "api_throttle body g = map_option (\<lambda>v. g\<lparr>throttle_csr := min v 15\<rparr>) (json_get_u32 body (lit ''n''))"

definition api_clkdiv :: "str \<Rightarrow> spwm_regs \<Rightarrow> spwm_regs option" where
  "api_clkdiv body g = map_option (\<lambda>n. g\<lparr>clk_div_csr := n AND 0xFF\<rparr>) (json_get_u32 body (lit ''n''))"

definition api_passes :: "str \<Rightarrow> str \<Rightarrow> spwm_regs \<Rightarrow> spwm_regs option" where
  "api_passes drv body g =
     map_option (\<lambda>v. snd (set_passes (Some drv) (ucast (max 1 (min 64 v))) g)) (json_get_u32 body (lit ''n''))"

definition CHIP_CFG_FIELDS :: "(string \<times> nat \<times> nat) list" where
  "CHIP_CFG_FIELDS =
     [(''reg_count'', 0, 7), (''slots'', 8, 4), (''rot_slot'', 12, 4), (''mid_latch'', 16, 1), (''chan_rev'', 7, 1),
      (''row_pulse'', 17, 5), (''row_pulse_first'', 22, 5), (''data_latch'', 27, 1), (''row_address'', 28, 1), (''row_addr_shift'', 29, 3)]"

definition ROW_SER_FIELDS :: "(string \<times> nat \<times> nat) list" where
  "ROW_SER_FIELDS =
     [(''enable'', 0, 1), (''a_src'', 1, 2), (''b_src'', 3, 2), (''c_src'', 5, 2), (''inv'', 7, 3), (''lck_w'', 10, 4),
      (''bk_w'', 14, 5), (''lck_dly'', 19, 3)]"

definition poke_field :: "str \<Rightarrow> string \<times> nat \<times> nat \<Rightarrow> u32 \<times> nat \<Rightarrow> u32 \<times> nat" where
  "poke_field body = (\<lambda>(name, off, width) (v, touched).
     (case json_get_u32 body (lit name) of None \<Rightarrow> (v, touched) | Some x \<Rightarrow> (put_field off width x v, touched + 1)))"

definition poke_fields :: "(string \<times> nat \<times> nat) list \<Rightarrow> str \<Rightarrow> u32 \<Rightarrow> u32 option" where
  "poke_fields fs body v =
     (case fold (poke_field body) fs (v, 0) of (v', touched) \<Rightarrow> if touched = 0 then None else Some v')"

definition api_chipcfg :: "str \<Rightarrow> spwm_regs \<Rightarrow> spwm_regs option" where
  "api_chipcfg body g = map_option (\<lambda>v. g\<lparr>chip_cfg := v\<rparr>) (poke_fields CHIP_CFG_FIELDS body (chip_cfg g))"

definition api_rowser :: "str \<Rightarrow> spwm_regs \<Rightarrow> spwm_regs option" where
  "api_rowser body g = map_option (\<lambda>v. g\<lparr>row_ser := v\<rparr>) (poke_fields ROW_SER_FIELDS body (row_ser g))"

section \<open>A row written is the row in the table\<close>

lemma halves_of: "push_bit 32 (ucast (ucast (drop_bit 32 v) :: u32)) OR ucast (ucast v :: u32) = (v :: u64)"
proof (rule bit_word_eqI)
  fix n assume n: "n < LENGTH(64)"
  have b1: "bit (ucast (ucast (x::u64) :: u32) :: u64) k \<longleftrightarrow> k < 32 \<and> bit x k" for x k
    using bit_imp_le_length [of x k] by (auto simp: bit_ucast_iff)
  show "bit (push_bit 32 (ucast (ucast (drop_bit 32 v) :: u32)) OR ucast (ucast v :: u32) :: u64) n = bit v n"
    unfolding bit_or_iff bit_push_bit_iff b1 bit_drop_bit_eq comp_apply using n by (cases "n < 32") auto
qed

lemma row_word_parts:
  assumes "drop_bit 16 addr = 0"
  shows "(ucast (row_word addr row) :: u8) = ucast addr"
    and "Row (ucast (drop_bit 16 (row_word addr row))) (ucast (drop_bit 32 (row_word addr row))) (ucast (drop_bit 48 (row_word addr row))) = row"
proof -
  have hi: "\<not> bit addr n" if "16 \<le> n" for n
    using arg_cong [OF assms, of "\<lambda>v. bit v (n - 16)"] that by (simp add: bit_drop_bit_eq)
  have z: "\<not> bit (ucast (x :: u16) :: u64) k" if "16 \<le> k" for x k
    using bit_imp_le_length [of x k] that by (auto simp: bit_ucast_iff)
  have u: "bit (ucast (x :: u16) :: u64) k \<longleftrightarrow> bit x k" for x k
    using bit_imp_le_length [of x k] by (auto simp: bit_ucast_iff)
  have z2: "\<not> bit (x :: u16) k" if "16 \<le> k" for x k using bit_imp_le_length [of x k] that by auto
  have s: "bit (ucast (y :: u64) :: u16) k \<longleftrightarrow> k < 16 \<and> bit y k" for y k by (simp add: bit_ucast_iff)
  have e: "bit (ucast (y :: u64) :: u8) k \<longleftrightarrow> k < 8 \<and> bit y k" for y k by (simp add: bit_ucast_iff)
  show "(ucast (row_word addr row) :: u8) = ucast addr"
    by (rule bit_word_eqI) (simp add: e row_word_def bit_or_iff bit_push_bit_iff)
  have "ucast (drop_bit 16 (row_word addr row)) = row_r row" "ucast (drop_bit 32 (row_word addr row)) = row_g row"
    "ucast (drop_bit 48 (row_word addr row)) = row_b row"
    by (rule bit_word_eqI, simp add: s row_word_def bit_or_iff bit_push_bit_iff bit_drop_bit_eq hi z u z2)+
  then show "Row (ucast (drop_bit 16 (row_word addr row))) (ucast (drop_bit 32 (row_word addr row))) (ucast (drop_bit 48 (row_word addr row))) = row"
    by simp
qed

lemma write_row_effect:
  assumes "drop_bit 16 addr = 0"
  shows "write_row addr row g = g\<lparr>table_high := ucast (drop_bit 32 (row_word addr row)),
    table_rows := (table_rows g)(unat (ucast addr :: u8) := row)\<rparr>"
  using row_word_parts [OF assms, of row]
  by (simp add: write_row_def write_table0_def write_table1_def Let_def halves_of)

lemma write_row_at:
  assumes "at < 256"
  shows "write_row (of_nat at) row g = g\<lparr>table_high := ucast (drop_bit 32 (row_word (of_nat at) row)),
    table_rows := (table_rows g)(at := row)\<rparr>"
proof -
  have "drop_bit 16 (of_nat at :: u64) = 0"
    using assms by (intro word_unat_eq_iff [THEN iffD2]) (simp add: drop_bit_eq_div unat_div unat_of_nat take_bit_nat_eq_self)
  moreover have "unat (ucast (of_nat at :: u64) :: u8) = at"
    using assms by (simp add: unsigned_ucast_eq unat_of_nat take_bit_nat_eq_self)
  ultimately show ?thesis using write_row_effect [of "of_nat at" row g] by simp
qed

lemma write_rows_other [simp]:
  "row_ser (write_rows at rs g) = row_ser g" "latch_cfg (write_rows at rs g) = latch_cfg g"
  "throttle_csr (write_rows at rs g) = throttle_csr g" "clk_div_csr (write_rows at rs g) = clk_div_csr g"
  by (induction rs arbitrary: at g) (simp_all add: write_row_def write_table0_def write_table1_def Let_def)

lemma write_rows_effect:
  "at + length rs \<le> 256 \<Longrightarrow>
   \<exists>hi. write_rows at rs g = g\<lparr>table_high := hi,
     table_rows := (\<lambda>j. if at \<le> j \<and> j < at + length rs then rs ! (j - at) else table_rows g j)\<rparr>"
proof (induction rs arbitrary: at g)
  case Nil
  have "(\<lambda>j. if at \<le> j \<and> j < at + length [] then [] ! (j - at) else table_rows g j) = table_rows g" by (rule ext) auto
  then show ?case by (intro exI [of _ "table_high g"]) simp
next
  case (Cons r rs)
  have "at < 256" using Cons.prems by simp
  note wr = write_row_at [OF this, of r g]
  obtain hi where "write_rows (at + 1) rs (write_row (of_nat at) r g) = (write_row (of_nat at) r g)\<lparr>table_high := hi,
      table_rows := (\<lambda>j. if at + 1 \<le> j \<and> j < at + 1 + length rs then rs ! (j - (at + 1)) else table_rows (write_row (of_nat at) r g) j)\<rparr>"
    using Cons.IH [of "at + 1" "write_row (of_nat at) r g"] Cons.prems by auto
  then have "write_rows at (r # rs) g = g\<lparr>table_high := hi,
      table_rows := (\<lambda>j. if at + 1 \<le> j \<and> j < at + 1 + length rs then rs ! (j - (at + 1)) else ((table_rows g)(at := r)) j)\<rparr>"
    by (simp add: wr cong: if_cong)
  moreover have "(\<lambda>j. if at + 1 \<le> j \<and> j < at + 1 + length rs then rs ! (j - (at + 1)) else ((table_rows g)(at := r)) j) =
      (\<lambda>j. if at \<le> j \<and> j < at + length (r # rs) then (r # rs) ! (j - at) else table_rows g j)"
    by (rule ext) (auto simp: nth_Cons' not_le)
  ultimately show ?case by (intro exI [of _ hi]) (simp only:)
qed

lemma chip_known: "chip_by_name name = Some c \<Longrightarrow> c \<in> set CHIPS \<and> chip_name c = name"
  by (auto simp: chip_by_name_def find_Some_iff)

lemma chips_ok: "list_all (\<lambda>c. length (chip_regs c) \<le> 64 \<and> length (chip_wrappers c) \<le> 8 \<and> chip_name c \<noteq> []) CHIPS"
  by code_simp

lemma chips_grammar:
  "list_all (\<lambda>c. get_field 0 7 (chip_grammar c) = of_nat (length (chip_regs c)) \<and> get_field 8 4 (chip_grammar c) = ucast (ch_slots c) \<and>
     get_field 12 4 (chip_grammar c) = ucast (ch_rot_slot c) \<and> get_field 17 5 (chip_grammar c) = ucast (ch_row_pulse c) \<and>
     get_field 22 5 (chip_grammar c) = ucast (ch_row_pulse_first c)) CHIPS"
  by code_simp

lemma chips_grammar_flags:
  "list_all (\<lambda>c. get_field 7 1 (chip_grammar c) = of_bool (ch_chan_rev c \<noteq> 0) \<and> get_field 16 1 (chip_grammar c) = of_bool (ch_mid_latch c) \<and>
     get_field 27 1 (chip_grammar c) = of_bool (ch_data_latch c \<noteq> 0) \<and> get_field 28 1 (chip_grammar c) = of_bool (ch_row_address c \<noteq> 0) \<and>
     get_field 29 3 (chip_grammar c) = ucast (ch_row_addr_shift c)) CHIPS"
  by code_simp

lemma chips_latch:
  "list_all (\<lambda>c. ucast (ch_chan_xor c) AND mask 4 = (ucast (ch_chan_xor c) :: u32) \<and>
     ucast (ch_sweep_adv c) AND mask 3 = (ucast (ch_sweep_adv c) :: u32) \<and> ucast (ch_passes_m1 c) AND mask 7 = (ucast (ch_passes_m1 c) :: u32)) CHIPS"
  by code_simp

text \<open>The rows of every chip carry distinct register addresses, so the scan count is patched in one place,
  and a scan of 64 rows or fewer leaves the rest of the register alone.\<close>

lemma chips_addresses: "list_all (\<lambda>c. distinct (map (\<lambda>r. drop_bit 8 (row_r r)) (chip_regs c)) \<and> ch_scan_mask c = 0x3F) CHIPS"
  by code_simp

lemma table_unchanged [simp]:
  "snd (configure None scan g) = g" "snd (configure (Some []) scan g) = g"
  by (simp_all add: configure_def)

text \<open>
  C40. Configuring a driver by name either changes nothing, when there is no name or no such chip, or
  loads that chip whole: its registers with the scan count at the front of the table, its wrappers
  from 64, every other row as before; all ten fields of the grammar, which fill its register; the
  serial row driver on or off as the chip says; column permutation, fetch advance and passes in
  their fields. The live latch phase, what else the latch register holds, the serial row driver's
  mapping, the throttle and the clock divider are left alone.
\<close>

theorem driver_configured_whole:
  "case (case name of None \<Rightarrow> None | Some n \<Rightarrow> chip_by_name n) of
     None \<Rightarrow> snd (configure name scan g) = g
   | Some c \<Rightarrow> (let g' = snd (configure name scan g); n = length (chip_regs c); m = length (chip_wrappers c) in
       fst (configure name scan g) = ChipSet (chip_name c) \<and>
       table_rows g' = (\<lambda>j. if j < n then with_scan c (chip_regs c ! j) scan
         else if 64 \<le> j \<and> j < 64 + m then chip_wrappers c ! (j - 64) else table_rows g j) \<and>
       get_field 0 7 (chip_cfg g') = of_nat n \<and> get_field 8 4 (chip_cfg g') = ucast (ch_slots c) \<and>
       get_field 12 4 (chip_cfg g') = ucast (ch_rot_slot c) \<and> get_field 17 5 (chip_cfg g') = ucast (ch_row_pulse c) \<and>
       get_field 22 5 (chip_cfg g') = ucast (ch_row_pulse_first c) \<and>
       get_field 7 1 (chip_cfg g') = of_bool (ch_chan_rev c \<noteq> 0) \<and> get_field 16 1 (chip_cfg g') = of_bool (ch_mid_latch c) \<and>
       get_field 27 1 (chip_cfg g') = of_bool (ch_data_latch c \<noteq> 0) \<and> get_field 28 1 (chip_cfg g') = of_bool (ch_row_address c \<noteq> 0) \<and>
       get_field 29 3 (chip_cfg g') = ucast (ch_row_addr_shift c) \<and>
       get_field 0 1 (row_ser g') = of_bool (ch_row_serial c \<noteq> 0) \<and>
       get_field 4 4 (latch_cfg g') = ucast (ch_chan_xor c) \<and> get_field 8 3 (latch_cfg g') = ucast (ch_sweep_adv c) \<and>
       get_field 11 7 (latch_cfg g') = ucast (ch_passes_m1 c) \<and> get_field 0 4 (latch_cfg g') = get_field 0 4 (latch_cfg g) \<and>
       get_field 18 14 (latch_cfg g') = get_field 18 14 (latch_cfg g) \<and>
       throttle_csr g' = throttle_csr g \<and> clk_div_csr g' = clk_div_csr g \<and>
       get_field 1 31 (row_ser g') = get_field 1 31 (row_ser g))"
proof (cases "case name of None \<Rightarrow> None | Some n \<Rightarrow> chip_by_name n")
  case None
  then show ?thesis by (auto simp: configure_def split: option.splits)
next
  case (Some c)
  then obtain nm where nm: "name = Some nm" "chip_by_name nm = Some c" by (auto split: option.splits)
  have c: "c \<in> set CHIPS" "chip_name c = nm" using chip_known [OF nm(2)] by simp_all
  then have ok: "length (chip_regs c) \<le> 64" "length (chip_wrappers c) \<le> 8" "nm \<noteq> []" using chips_ok by (auto simp: list_all_iff)
  let ?rs = "map (\<lambda>r. with_scan c r scan) (chip_regs c)"
  obtain h1 where w1: "write_rows 0 ?rs g = g\<lparr>table_high := h1,
      table_rows := (\<lambda>j. if 0 \<le> j \<and> j < 0 + length ?rs then ?rs ! (j - 0) else table_rows g j)\<rparr>"
    using write_rows_effect [of 0 ?rs g] ok(1) by auto
  obtain h2 where w2: "write_rows 64 (chip_wrappers c) (write_rows 0 ?rs g) = (write_rows 0 ?rs g)\<lparr>table_high := h2,
      table_rows := (\<lambda>j. if 64 \<le> j \<and> j < 64 + length (chip_wrappers c) then chip_wrappers c ! (j - 64) else table_rows (write_rows 0 ?rs g) j)\<rparr>"
    using write_rows_effect [of 64 "chip_wrappers c" "write_rows 0 ?rs g"] ok(2) by auto
  have t: "(\<lambda>j. if 64 \<le> j \<and> j < 64 + length (chip_wrappers c) then chip_wrappers c ! (j - 64) else table_rows (write_rows 0 ?rs g) j) =
      (\<lambda>j. if j < length (chip_regs c) then with_scan c (chip_regs c ! j) scan
         else if 64 \<le> j \<and> j < 64 + length (chip_wrappers c) then chip_wrappers c ! (j - 64) else table_rows g j)"
    using ok(1) unfolding w1 by (auto simp: fun_eq_iff)
  have f: "configure name scan g = (ChipSet (chip_name c), (write_rows 64 (chip_wrappers c) (write_rows 0 ?rs g))
      \<lparr>chip_cfg := chip_grammar c, row_ser := put_field 0 1 (if ch_row_serial c \<noteq> 0 then 1 else 0) (row_ser g),
       latch_cfg := latch_fields c (latch_cfg g)\<rparr>)"
    using nm ok(3) by (simp add: configure_def Let_def MAX_REGS_def)
  have gr: "get_field 0 7 (chip_grammar c) = of_nat (length (chip_regs c))" "get_field 8 4 (chip_grammar c) = ucast (ch_slots c)"
    "get_field 12 4 (chip_grammar c) = ucast (ch_rot_slot c)" "get_field 17 5 (chip_grammar c) = ucast (ch_row_pulse c)"
    "get_field 22 5 (chip_grammar c) = ucast (ch_row_pulse_first c)"
    using chips_grammar c(1) by (auto simp: list_all_iff)
  have fl: "get_field 7 1 (chip_grammar c) = of_bool (ch_chan_rev c \<noteq> 0)" "get_field 16 1 (chip_grammar c) = of_bool (ch_mid_latch c)"
    "get_field 27 1 (chip_grammar c) = of_bool (ch_data_latch c \<noteq> 0)" "get_field 28 1 (chip_grammar c) = of_bool (ch_row_address c \<noteq> 0)"
    "get_field 29 3 (chip_grammar c) = ucast (ch_row_addr_shift c)"
    using chips_grammar_flags c(1) by (auto simp: list_all_iff)
  have la: "get_field 4 4 (latch_fields c v) = ucast (ch_chan_xor c)" "get_field 8 3 (latch_fields c v) = ucast (ch_sweep_adv c)"
    "get_field 11 7 (latch_fields c v) = ucast (ch_passes_m1 c)" "get_field 0 4 (latch_fields c v) = get_field 0 4 v"
    "get_field 18 14 (latch_fields c v) = get_field 18 14 v" for v
    using chips_latch c(1) by (auto simp: list_all_iff latch_fields_def get_put_same get_put_other)
  have rs: "get_field 1 31 (put_field 0 1 x (row_ser g)) = get_field 1 31 (row_ser g)" for x by (simp add: get_put_other)
  have en: "get_field 0 1 (put_field 0 1 (if b then 1 else 0) (row_ser g)) = of_bool b" for b by (cases b) (simp_all add: get_put_same)
  show ?thesis unfolding Some option.case Let_def f using gr fl la rs en t by (simp add: w2)
qed

text \<open>A poke moves the fields that are named and no others.\<close>

lemma poke_other:
  assumes "list_all (\<lambda>(name, off, width). off + width \<le> off' \<or> off' + width' \<le> off \<or> json_get_u32 body (lit name) = None) fs"
  shows "get_field off' width' (fst (fold (poke_field body) fs (v, n))) = get_field off' width' v"
  using assms
proof (induction fs arbitrary: v n)
  case (Cons f fs)
  obtain name off width where f: "f = (name, off, width)" by (cases f)
  obtain v1 n1 where p: "poke_field body f (v, n) = (v1, n1)" by fastforce
  have "get_field off' width' v1 = get_field off' width' v"
    using p Cons.prems by (auto simp: f poke_field_def get_put_other split: option.splits)
  then show ?case using Cons p by simp
qed simp

end
