(* ===== verification/Crash_Trail.thy ===== *)
theory Crash_Trail
  imports LW_Prelude
begin

text \<open>
  \<^verbatim>\<open>src/breadcrumb.rs\<close>: four words of a RAM that a reset does not clear, and the copy of
  them that the next boot takes. A reset of the processor keeps \<open>trail_ram\<close> and nothing else.
\<close>

unbundle bit_operations_syntax

record trail_ram =
  ram_mark :: u32
  ram_count :: u32
  ram_mcause :: u32
  ram_mepc :: u32

record trail =
  trail_words :: trail_ram
  prev_raw :: u32
  prev_mcause :: u32
  prev_mepc :: u32

definition MAGIC :: u32 where [src_consts]: "MAGIC = 0xBEEF0000"
definition BOOT :: u16 where [src_consts]: "BOOT = 1"
definition PANIC :: u16 where [src_consts]: "PANIC = 98"
definition EXCEPTION :: u16 where [src_consts]: "EXCEPTION = 99"

definition mark :: "u16 \<Rightarrow> trail \<Rightarrow> trail" where
  "mark code t = t\<lparr>trail_words := (trail_words t)\<lparr>ram_mark := MAGIC OR ucast code\<rparr>\<rparr>"

definition tally :: "trail \<Rightarrow> trail" where
  "tally t = t\<lparr>trail_words := (trail_words t)\<lparr>ram_count := ram_count (trail_words t) + 1\<rparr>\<rparr>"

definition reset_count :: "trail \<Rightarrow> trail" where
  "reset_count t = t\<lparr>trail_words := (trail_words t)\<lparr>ram_count := 0\<rparr>\<rparr>"

definition capture_boot :: "trail \<Rightarrow> trail" where
  "capture_boot t =
     (let w = trail_words t;
          t1 = t\<lparr>prev_raw := ram_mark w, prev_mcause := ram_mcause w, prev_mepc := ram_mepc w,
                 trail_words := w\<lparr>ram_mcause := 0, ram_mepc := 0\<rparr>\<rparr> in
      mark BOOT (reset_count t1))"

definition previous :: "u32 \<Rightarrow> u16 option" where
  "previous raw = (if raw AND 0xFFFF0000 = MAGIC then Some (ucast (raw AND 0xFFFF)) else None)"

text \<open>The exception vector of \<^verbatim>\<open>main.rs\<close> leaves the cause and the place.\<close>

definition trap_exception :: "u32 \<Rightarrow> u32 \<Rightarrow> trail \<Rightarrow> trail" where
  "trap_exception cause epc t =
     t\<lparr>trail_words := (trail_words t)\<lparr>ram_mcause := cause, ram_mepc := epc, ram_mark := 0xBEEF0063\<rparr>\<rparr>"

definition soc_reset :: "trail \<Rightarrow> trail" where
  "soc_reset t = \<lparr>trail_words = trail_words t, prev_raw = 0, prev_mcause = 0, prev_mepc = 0\<rparr>"

section \<open>What the next boot reads\<close>

lemma previous_mark: "previous (MAGIC OR ucast code) = Some code"
proof -
  have f: "(0xFFFF :: u32) = mask 16" "(0xFFFF0000 :: u32) = push_bit 16 (mask 16)" by (simp_all add: mask_eq_exp_minus_1)
  have b: "bit (ucast code :: u32) n \<longleftrightarrow> n < 16 \<and> bit code n" for n
    using bit_imp_le_length [of code n] by (auto simp: bit_ucast_iff)
  have c: "(ucast code :: u32) AND 0xFFFF0000 = 0" "(ucast code :: u32) AND 0xFFFF = ucast code"
    unfolding f by (rule bit_word_eqI; auto simp: b bit_and_iff bit_push_bit_iff bit_mask_iff)+
  have "(MAGIC OR ucast code) AND 0xFFFF0000 = MAGIC"
    unfolding bit.conj_disj_distrib2 c by (simp add: MAGIC_def)
  moreover have "(MAGIC OR ucast code) AND 0xFFFF = ucast code"
    unfolding bit.conj_disj_distrib2 c by (simp add: MAGIC_def)
  moreover have "(ucast (ucast code :: u32) :: u16) = code"
    by (rule bit_word_eqI) (simp add: bit_ucast_iff b)
  ultimately show ?thesis by (simp add: previous_def)
qed

lemma trail_read_back: "previous (prev_raw (capture_boot (soc_reset (tally (mark code t))))) = Some code"
  by (simp add: capture_boot_def soc_reset_def tally_def mark_def reset_count_def Let_def previous_mark)

lemma exception_read_back:
  "previous (prev_raw (capture_boot (soc_reset (trap_exception cause epc t)))) = Some EXCEPTION \<and>
   prev_mcause (capture_boot (soc_reset (trap_exception cause epc t))) = cause \<and>
   prev_mepc (capture_boot (soc_reset (trap_exception cause epc t))) = epc"
proof -
  have "(0xBEEF0063 :: u32) = MAGIC OR ucast EXCEPTION" by (simp add: MAGIC_def EXCEPTION_def)
  then show ?thesis using previous_mark [of EXCEPTION]
    by (simp add: capture_boot_def soc_reset_def trap_exception_def mark_def reset_count_def Let_def)
qed

end
