(* ===== verification/Spec2Isabelle.thy ===== *)
theory Spec2Isabelle
  imports Flash_Props Http_Request Tftp_Config Bitmap_Props Panel_Props Panel_Text
    Image_Store Artnet Pearson Program_Props Net_Receive Net_Push Net_Connection Layout_Shown
    Net_Card_Props Eth_Mac Card_Clock Serial_Menu Spwm_Driver Crash_Trail
begin

text \<open>
  A model of the ledwall firmware (\<^verbatim>\<open>src/firmware/sw_rust/barsign_disp/src\<close>): the
  Rust program of an FPGA card that drives LED panels. File names below are relative to that
  directory.

  \<^bold>\<open>The program.\<close> Frames and palettes arrive as UDP packets; the receiver collects
  them into the back framebuffer and swaps. At boot the card fetches its layout by TFTP; an
  HTTP API changes settings, writes the flash, and fetches a new FPGA bitstream into it. A
  golden bitstream in the same flash is the only way back from a bad update.

  \<^bold>\<open>The theories.\<close>
  \<^item> \<open>LW_Prelude\<close>: widths, saturating arithmetic, computations with early return, list lemmas.
  \<^item> \<open>Flash_Dev\<close> (\<^verbatim>\<open>flash_id.rs\<close>), \<open>Flash_Write\<close> (\<^verbatim>\<open>flash_write.rs\<close>): SPI primitives over
    a parameter \<open>spi_ops\<close> (the gateware's SPI core and the chip), the write policy, erase and
    program, the busy wait, the CRC, the deferred job.
  \<^item> \<open>Flash_Policy\<close>: what the firmware may put on the bus, as a locale over an invariant of the
    traffic, interpreted on the model. \<open>Flash_Crc\<close>, \<open>Flash_Job\<close>, \<open>Flash_Erase\<close>: the CRC
    against its bitwise reference, the job's invariant and its end, what an erase job leaves.
  \<^item> \<open>Udp_Port\<close>, \<open>Tftp_Flash\<close> (\<^verbatim>\<open>tftp_flash.rs\<close>), \<open>Tftp_Stream\<close>: the socket as an
    environment, the bitstream loader, and that the flash holds the file it fetched.
  \<^item> \<open>Flash_System\<close>: jobs, fetches and status writes interleaved, as a step relation.
    \<open>Nor_Chip\<close>: a NOR part that meets every law assumed of a chip. \<open>Flash_Props\<close>: the
    properties of the flash side.
  \<^item> \<open>Rust_Text\<close>: UTF-8 and the string functions of \<^verbatim>\<open>core\<close> that the sources use.
    \<open>Http_Request\<close> (\<^verbatim>\<open>http.rs\<close>), \<open>Layout\<close> (\<^verbatim>\<open>layout.rs\<close>),
    \<open>Tftp_Config\<close> (\<^verbatim>\<open>tftp_config.rs\<close>): the request parser, the layout parser and the
    configuration fetch, each with its properties.
  \<^item> \<open>Hub75_Dev\<close> (\<^verbatim>\<open>hub75.rs\<close>): the two framebuffers, the palette banks, the registers.
    \<open>Frame_Store\<close> is the interface a receiver needs, \<open>Hub75_Buffers\<close> interprets it.
  \<^item> \<open>Bitmap_Udp\<close> (\<^verbatim>\<open>bitmap_udp.rs\<close>), \<open>Bitmap_Frames\<close>, \<open>Bitmap_Stream\<close>: the
    receiver, its invariant, and whole frames through it; its properties are in \<open>Bitmap_Props\<close>.
  \<^item> \<open>Value_Table\<close> (\<^verbatim>\<open>values.rs\<close>): the values pushed to the programs a panel runs, as a
    bounded map. \<open>Panel_Program\<close> (\<^verbatim>\<open>program.rs\<close>), \<open>Panel_Sprite\<close>
    (\<^verbatim>\<open>sprite.rs\<close>), \<open>Panel_Prim\<close> (\<^verbatim>\<open>prim.rs\<close>): what such a program draws with.
    \<open>Panel_Props\<close> has the properties of drawing, \<open>Panel_Text\<close> those of built text.
  \<^item> \<open>Program_Run\<close> (\<^verbatim>\<open>network.rs\<close>, \<^verbatim>\<open>program_tick\<close>): running a program on the
    framebuffers; \<open>Program_Show\<close> and \<open>Program_Glass\<close>: what each part of a tick draws;
    \<open>Program_Props\<close>: what is then on the glass, and when it has settled.
  \<^item> \<open>Net_Frames\<close> (\<^verbatim>\<open>network.rs\<close>): the receive interrupt, its filters on raw frames
    and the fast path to the receiver; its properties are in \<open>Net_Receive\<close>. \<open>Net_Json\<close>: the
    scanners of pushed values, JSON fields and addresses; a push over HTTP is in \<open>Net_Push\<close>.
    \<open>Net_Http\<close>: the two HTTP slots over a TCP socket that is a parameter; \<open>Net_Connection\<close>
    runs one connection against a peer.
  \<^item> \<open>Test_Screen\<close> (\<^verbatim>\<open>patterns.rs\<close>): the test pictures and the version banner;
    \<open>Wiring_Screens\<close>: the pictures that show how modules and drivers are wired, and the choice by name.
    \<open>Layout_Apply\<close> (\<^verbatim>\<open>layout.rs\<close>, \<^verbatim>\<open>network.rs\<close>): a layout put into force;
    \<open>Layout_Shown\<close>: the registers and the glass after it.
  \<^item> \<open>Net_Tick\<close> (\<^verbatim>\<open>network.rs\<close>, \<^verbatim>\<open>menu.rs\<close>): what the main loop does to the
    picture each turn, and packets that come through smoltcp. \<open>Net_Api\<close>: the state behind the HTTP
    API, a handler for each route, and the route table. \<open>Net_Card\<close> (\<^verbatim>\<open>main.rs\<close>): the whole
    card as steps over requests, packets, ticks and flash turns; \<open>Net_Card_Props\<close>: that every run of it
    is on its flash side a run of \<open>Flash_System\<close>, and that a picture asked for stays on the glass.
  \<^item> \<open>Net_Start\<close> (\<^verbatim>\<open>network.rs\<close>): DHCP, the address filters, the name of the
    configuration file and its fetch, up to the layout in force. \<open>Card_Clock\<close>: the clock on the
    one-second timer. \<open>Eth_Mac\<close> (\<^verbatim>\<open>ethernet.rs\<close>): slots and tokens of the Ethernet core, and
    the ring of received frames as an instance of the locale \<open>bounded_queue\<close>.
  \<^item> \<open>Serial_Menu\<close> (\<^verbatim>\<open>menu.rs\<close>): the commands of the serial console. \<open>Spwm_Driver\<close>
    (\<^verbatim>\<open>spwm.rs\<close>, \<^verbatim>\<open>spwm_tables.rs\<close>): the driver chips' tables, their writing and
    the routes only such a build has. \<open>Crash_Trail\<close> (\<^verbatim>\<open>breadcrumb.rs\<close>): what a crash leaves
    for the next boot.
  \<^item> \<open>Image_Store\<close> (\<^verbatim>\<open>img.rs\<close>, \<^verbatim>\<open>img_flash.rs\<close>): the stored picture.
    \<open>Artnet\<close> (\<^verbatim>\<open>artnet.rs\<close>): the palette from a lighting desk. \<open>Pearson\<close>
    (\<^verbatim>\<open>pearson_hash.rs\<close>): the hash.

  \<^bold>\<open>Conventions.\<close> Integers keep their width; the release profile wraps, and
  \<^verbatim>\<open>usize\<close> is 32 bits. Lengths and indices whose bounds the code checks are \<^typ>\<open>nat\<close>.
  Errors are the left side of a sum, panics and calls that never return are \<^const>\<open>None\<close>.
  Registers the gateware owns are a parameter, one snapshot for each call.

  \<^bold>\<open>Loops.\<close> No loop of the model has fuel. The busy wait of the flash and the clock's loop over
  the pending bit are partial functions whose \<^const>\<open>None\<close> is not returning;
  \<open>flash_commands_return\<close> and \<open>clock_exact_or_second_behind\<close> show that they return on every chip
  and timer that keep their laws. Every other loop is a total recursion.

  \<^bold>\<open>Not modelled.\<close> smoltcp (vendored) and the register crate are only called; the boot code
  and the data tables carry no logic the rest depends on. The wording of the HTTP reports and of the
  console, the draining of the telnet socket and the debug counters are not modelled.
  \<open>Spwm_Driver\<close> stands beside the rest, whose routes and \<open>apply_layout\<close> are those of a plain HUB75
  build. A step of \<open>Net_Card\<close> is atomic, although the interrupt can cut into a flash turn of the main loop.
\<close>

end
